(* ===== verification/Prelude.thy ===== *)
theory Prelude
  imports Main "HOL-Library.Word"
begin

text \<open>
  What every component shares: the machine integers of the code, C++ exceptions as values,
  checked access to a byte span, and generic lemmas on lists and words.

  A C++ function that can throw returns a value of type \<open>'a cpp\<close>: \<open>Inl e\<close> is the thrown
  exception and \<open>Inr x\<close> the returned value. An access outside a span, undefined behaviour in
  the source, is the exception \<open>Out_of_bounds\<close>, so that its absence is a theorem.
\<close>

unbundle bit_operations_syntax

section \<open>Machine types\<close>

type_synonym u8 = "8 word"
type_synonym u16 = "16 word"
type_synonym u32 = "32 word"
type_synonym u64 = "64 word"
type_synonym bytes = "u8 list"

text \<open>\<open>std::numeric_limits<std::uint64_t>::max()\<close>.\<close>

abbreviation u64_max :: u64 where
  "u64_max \<equiv> - 1"

section \<open>Collections of the development\<close>

named_theorems cpp_simps "rules of the exception monad and of span access"
named_theorems codec_simps "read-after-write and layout rules of the byte codecs"
named_theorems metric_simps "field updates of metric records"

section \<open>Exceptions as values\<close>

datatype cpp_exception =
    Out_of_bounds
  | Invalid_argument string
  | Length_error string
  | System_error string
  | Runtime_error string

type_synonym 'a cpp = "cpp_exception + 'a"

definition cbind :: "'a cpp \<Rightarrow> ('a \<Rightarrow> 'b cpp) \<Rightarrow> 'b cpp" where
  "cbind m f = (case m of Inl e \<Rightarrow> Inl e | Inr x \<Rightarrow> f x)"

lemma cbind_Inl [simp, cpp_simps]: "cbind (Inl e) f = Inl e"
  by (simp add: cbind_def)

lemma cbind_Inr [simp, cpp_simps]: "cbind (Inr x) f = f x"
  by (simp add: cbind_def)

lemma cbind_eq_Inr_iff: "cbind m f = Inr y \<longleftrightarrow> (\<exists>x. m = Inr x \<and> f x = Inr y)"
  by (cases m) auto

lemma cbind_assoc: "cbind (cbind m f) g = cbind m (\<lambda>x. cbind (f x) g)"
  by (cases m) auto

text \<open>A conditional \<open>throw\<close> at the head of a function body.\<close>

definition throw_if :: "bool \<Rightarrow> cpp_exception \<Rightarrow> 'a cpp \<Rightarrow> 'a cpp" where
  "throw_if c e m = (if c then Inl e else m)"

lemma throw_if_simps [simp, cpp_simps]:
  "throw_if True e m = Inl e" "throw_if False e m = m"
  by (simp_all add: throw_if_def)

lemma throw_if_eq_Inr_iff [simp]: "throw_if c e m = Inr y \<longleftrightarrow> \<not> c \<and> m = Inr y"
  by (simp add: throw_if_def)

section \<open>Spans\<close>

definition span_at :: "'a list \<Rightarrow> nat \<Rightarrow> 'a cpp" where
  "span_at xs i = (if i < length xs then Inr (xs ! i) else Inl Out_of_bounds)"

definition span_put :: "'a list \<Rightarrow> nat \<Rightarrow> 'a \<Rightarrow> 'a list cpp" where
  "span_put xs i x = (if i < length xs then Inr (xs[i := x]) else Inl Out_of_bounds)"

text \<open>\<open>span::first(n)\<close> and \<open>span::subspan(n)\<close>, undefined past the end.\<close>

definition span_first :: "'a list \<Rightarrow> nat \<Rightarrow> 'a list cpp" where
  "span_first xs n = (if n \<le> length xs then Inr (take n xs) else Inl Out_of_bounds)"

definition subspan :: "'a list \<Rightarrow> nat \<Rightarrow> 'a list cpp" where
  "subspan xs n = (if n \<le> length xs then Inr (drop n xs) else Inl Out_of_bounds)"

text \<open>\<open>std::copy(src.begin(), src.end(), dst.begin() + at)\<close>, undefined past the end.\<close>

definition copy_into :: "'a list \<Rightarrow> nat \<Rightarrow> 'a list \<Rightarrow> 'a list cpp" where
  "copy_into dst at src =
     (if at + length src \<le> length dst
      then Inr (take at dst @ src @ drop (at + length src) dst) else Inl Out_of_bounds)"

lemma span_at_ok [simp, cpp_simps]: "i < length xs \<Longrightarrow> span_at xs i = Inr (xs ! i)"
  by (simp add: span_at_def)

lemma span_put_ok [simp, cpp_simps]: "i < length xs \<Longrightarrow> span_put xs i x = Inr (xs[i := x])"
  by (simp add: span_put_def)

lemma span_first_ok [simp, cpp_simps]: "n \<le> length xs \<Longrightarrow> span_first xs n = Inr (take n xs)"
  by (simp add: span_first_def)

lemma subspan_ok [simp, cpp_simps]: "n \<le> length xs \<Longrightarrow> subspan xs n = Inr (drop n xs)"
  by (simp add: subspan_def)

section \<open>Lists\<close>

lemma nth_splice:
  assumes "k + length ys \<le> length xs" and "i < length xs"
  shows "(take k xs @ ys @ drop (k + length ys) xs) ! i =
    (if i < k then xs ! i else if i < k + length ys then ys ! (i - k) else xs ! i)"
  using assms by (auto simp: nth_append min_def not_less)

lemma splice_same: "take k xs @ take n (drop k xs) @ drop (k + n) xs = xs"
  by (metis append_take_drop_id add.commute drop_drop)

section \<open>Saturating counters\<close>

text \<open>
  The source defines \<open>saturating_add\<close> twice, in the stream tracker and in the health monitor,
  with the same body, and \<open>saturating_increment\<close> in the monitor.
\<close>

definition saturating_add :: "u64 \<Rightarrow> u64 \<Rightarrow> u64" where
  "saturating_add value increment =
     (if increment > u64_max - value then u64_max else value + increment)"

definition saturating_increment :: "u64 \<Rightarrow> u64" where
  "saturating_increment value = (if value \<noteq> u64_max then value + 1 else value)"

lemma unat_u64_max: "unat u64_max = 2 ^ 64 - 1"
  by (simp add: unsigned_minus_1_eq_mask mask_eq_exp_minus_1)

lemma unat_u64_bound: "unat (v :: u64) < 2 ^ 64"
  using unsigned_less [of v, where ?'a = nat] by simp

lemma unat_saturating_add: "unat (saturating_add v i) = min (unat v + unat i) (2 ^ 64 - 1)"
proof -
  have room: "unat (u64_max - v) = 2 ^ 64 - 1 - unat v"
    by (simp only: unat_sub word_order.extremum unat_u64_max)
  have "unat v < 2 ^ 64" "unat i < 2 ^ 64"
    by (rule unat_u64_bound)+
  then show ?thesis
    by (auto simp: saturating_add_def word_less_nat_alt room unat_u64_max unat_word_ariths min_def)
qed

lemma unat_saturating_increment:
  "unat (saturating_increment v) = min (unat v + 1) (2 ^ 64 - 1)"
proof (cases "v = u64_max")
  case True
  then show ?thesis by (simp add: saturating_increment_def unat_u64_max)
next
  case False
  then have "unat v \<noteq> 2 ^ 64 - 1" using unat_u64_max by (metis word_unat_eq_iff)
  with unat_u64_bound [of v] have "unat v + 1 < 2 ^ 64" by simp
  then show ?thesis
    using False by (simp add: saturating_increment_def unat_word_ariths)
qed

lemma saturating_increment_ge: "v \<le> saturating_increment v"
  using unat_u64_bound [of v] by (simp add: word_le_nat_alt unat_saturating_increment)

lemma saturating_add_ge: "v \<le> saturating_add v i"
  using unat_u64_bound [of v] by (simp add: word_le_nat_alt unat_saturating_add)

end
