(* ===== verification/Decimal.thy ===== *)
theory Decimal
  imports Prelude
begin

text \<open>
  \<open>std::from_chars\<close> for unsigned integers in base ten, as \<open>runtime_config.cpp\<close> and
  \<open>sensor_simulator.cpp\<close> call it on a whole argument: no sign and no blanks, the longest prefix of
  digits, an error when there is none or when its value does not fit the type. \<open>show_decimal\<close> writes
  a number the way a user types it; reading it back is the inverse.
\<close>

section \<open>Digits\<close>

definition is_digit :: "char \<Rightarrow> bool" where
  "is_digit c \<longleftrightarrow> 48 \<le> (of_char c :: int) \<and> (of_char c :: int) \<le> 57"

definition digit_value :: "char \<Rightarrow> int" where
  "digit_value c = of_char c - 48"

definition decimal_value :: "string \<Rightarrow> int" where
  "decimal_value ds = foldl (\<lambda>v c. 10 * v + digit_value c) 0 ds"

lemma digit_value_bounds: "is_digit c \<Longrightarrow> 0 \<le> digit_value c \<and> digit_value c \<le> 9"
  by (simp add: is_digit_def digit_value_def)

lemma decimal_value_simps [simp]:
  "decimal_value [] = 0" "decimal_value (ds @ [c]) = 10 * decimal_value ds + digit_value c"
  by (simp_all add: decimal_value_def)

lemma decimal_value_nonneg: "\<forall>c \<in> set ds. is_digit c \<Longrightarrow> 0 \<le> decimal_value ds"
  by (induction ds rule: rev_induct) (auto dest: digit_value_bounds)

section \<open>Reading\<close>

datatype from_chars_error = InvalidArgument | ResultOutOfRange

text \<open>The text after the match, and the value or the error; \<open>maximum\<close> is the type's largest value.\<close>

definition from_chars :: "int \<Rightarrow> string \<Rightarrow> string \<times> (from_chars_error + int)" where
  "from_chars maximum text =
     (let digits = takeWhile is_digit text; rest = dropWhile is_digit text in
      if digits = [] then (text, Inl InvalidArgument)
      else if decimal_value digits > maximum then (rest, Inl ResultOutOfRange)
      else (rest, Inr (decimal_value digits)))"

definition uint64_max :: int where "uint64_max = 18446744073709551615"

text \<open>A whole text that is a number of the type.\<close>

definition parse_whole :: "int \<Rightarrow> string \<Rightarrow> int option" where
  "parse_whole maximum text = (case from_chars maximum text of
      ([], Inr value) \<Rightarrow> Some value
    | _ \<Rightarrow> None)"

lemma parse_whole_iff:
  "parse_whole maximum text = Some v \<longleftrightarrow>
     text \<noteq> [] \<and> (\<forall>c \<in> set text. is_digit c) \<and> decimal_value text = v \<and> v \<le> maximum"
proof (cases "\<forall>c \<in> set text. is_digit c")
  case True
  then have "takeWhile is_digit text = text" "dropWhile is_digit text = []" by simp_all
  then have "from_chars maximum text = (if text = [] then (text, Inl InvalidArgument)
      else if decimal_value text > maximum then ([], Inl ResultOutOfRange) else ([], Inr (decimal_value text)))"
    by (simp only: from_chars_def Let_def)
  then show ?thesis using True by (auto simp: parse_whole_def)
next
  case False
  then have "dropWhile is_digit text \<noteq> []" "text \<noteq> []" by auto
  then show ?thesis using False
    by (auto simp: parse_whole_def from_chars_def Let_def split: prod.splits list.splits sum.splits if_splits)
qed

lemma parse_whole_bounds: "parse_whole maximum text = Some v \<Longrightarrow> 0 \<le> v \<and> v \<le> maximum"
  by (auto simp: parse_whole_iff intro: decimal_value_nonneg)

section \<open>Writing\<close>

definition digit_char :: "nat \<Rightarrow> char" where
  "digit_char d = char_of (48 + d)"

fun show_decimal :: "nat \<Rightarrow> string" where
  "show_decimal n = (if n < 10 then [digit_char n] else show_decimal (n div 10) @ [digit_char (n mod 10)])"

declare show_decimal.simps [simp del]

lemma digit_char: "d < 10 \<Longrightarrow> is_digit (digit_char d) \<and> digit_value (digit_char d) = int d"
proof -
  assume "d < 10"
  then have "of_char (char_of (48 + d) :: char) = 48 + d" by simp
  then have "(of_char (char_of (48 + d) :: char) :: int) = 48 + int d"
    using of_nat_of_char [of "char_of (48 + d)", where ?'a = int] by simp
  then show ?thesis using \<open>d < 10\<close> by (simp add: is_digit_def digit_value_def digit_char_def)
qed

lemma show_decimal_digits: "c \<in> set (show_decimal n) \<Longrightarrow> is_digit c"
  by (induction n arbitrary: c rule: show_decimal.induct)
     (subst (asm) (2) show_decimal.simps, auto simp: digit_char split: if_splits)

lemma show_decimal_nonempty: "show_decimal n \<noteq> []"
  by (subst show_decimal.simps) simp

lemma decimal_value_show: "decimal_value (show_decimal n) = int n"
proof (induction n rule: show_decimal.induct)
  case (1 n)
  show ?case
  proof (cases "n < 10")
    case True
    then show ?thesis using decimal_value_simps(2) [of "[]"] by (subst show_decimal.simps) (simp add: digit_char)
  next
    case False
    then show ?thesis using 1 by (subst show_decimal.simps) (simp add: digit_char zmod_int zdiv_int)
  qed
qed

lemma parse_show: "int n \<le> maximum \<Longrightarrow> parse_whole maximum (show_decimal n) = Some (int n)"
  by (auto simp: parse_whole_iff show_decimal_nonempty decimal_value_show dest: show_decimal_digits)

end
