(* ===== verification/Wire.thy ===== *)
theory Wire
  imports Prelude
begin

text \<open>
  The byte codec of \<open>src/src/protocol/wire.hpp\<close>: \<open>write_big_endian\<close> and \<open>read_big_endian\<close>
  for any unsigned type, as loops over a checked span. Floating point values travel as their bit
  patterns (\<open>std::bit_cast\<close>); their type is in the theory Ieee.

  \<open>be_bytes\<close> and \<open>be_val\<close> are the specification, the big-endian bytes of a word and the word
  of a byte list; the loops refine them (\<open>write_big_endian_ok\<close>, \<open>read_big_endian_ok\<close>). The
  locale \<open>wire_codec\<close> is the contract the payload and packet codecs rely on; it is interpreted
  here for the three integer widths of the wire format.
\<close>

section \<open>The loops of the source\<close>

text \<open>
  The loop over \<open>index\<close>, from the current value of \<open>index\<close> with \<open>k\<close> rounds to go;
  \<open>n\<close> is \<open>sizeof(UInt)\<close>.
\<close>

fun write_be_loop :: "nat \<Rightarrow> bytes \<Rightarrow> nat \<Rightarrow> 'a::len word \<Rightarrow> nat \<Rightarrow> nat \<Rightarrow> bytes cpp" where
  "write_be_loop n output offset value index 0 = Inr output"
| "write_be_loop n output offset value index (Suc k) =
     (let shift = (n - index - 1) * 8
      in cbind (span_put output (offset + index) (ucast (drop_bit shift value)))
           (\<lambda>output'. write_be_loop n output' offset value (index + 1) k))"

definition write_big_endian :: "bytes \<Rightarrow> nat \<Rightarrow> 'a::len word \<Rightarrow> bytes cpp" where
  "write_big_endian output offset value =
     write_be_loop (LENGTH('a) div 8) output offset value 0 (LENGTH('a) div 8)"

fun read_be_loop :: "bytes \<Rightarrow> nat \<Rightarrow> 'a::len word \<Rightarrow> nat \<Rightarrow> nat \<Rightarrow> 'a word cpp" where
  "read_be_loop input offset value index 0 = Inr value"
| "read_be_loop input offset value index (Suc k) =
     cbind (span_at input (offset + index))
       (\<lambda>b. read_be_loop input offset (push_bit 8 value OR ucast b) (index + 1) k)"

definition read_big_endian :: "bytes \<Rightarrow> nat \<Rightarrow> 'a::len word cpp" where
  "read_big_endian input offset = read_be_loop input offset 0 0 (LENGTH('a) div 8)"

section \<open>Specification: the big-endian bytes of a word\<close>

definition be_bytes :: "'a::len word \<Rightarrow> bytes" where
  "be_bytes v = map (\<lambda>i. ucast (drop_bit ((LENGTH('a) div 8 - i - 1) * 8) v)) [0..<LENGTH('a) div 8]"

definition be_step :: "'a::len word \<Rightarrow> u8 \<Rightarrow> 'a word" where
  "be_step v b = push_bit 8 v OR ucast b"

definition be_val :: "bytes \<Rightarrow> 'a::len word" where
  "be_val bs = foldl be_step 0 bs"

lemma length_be_bytes [simp, codec_simps]: "length (be_bytes (v :: 'a::len word)) = LENGTH('a) div 8"
  by (simp add: be_bytes_def)

subsection \<open>The loops refine the specification\<close>

lemma write_be_loop_ok:
  "offset + index + k \<le> length out \<Longrightarrow>
   write_be_loop n out offset value index k =
     Inr (take (offset + index) out
       @ map (\<lambda>i. ucast (drop_bit ((n - i - 1) * 8) value)) [index..<index + k]
       @ drop (offset + index + k) out)"
proof (induction k arbitrary: index out)
  case 0
  then show ?case by simp
next
  case (Suc k)
  let ?b = "ucast (drop_bit ((n - index - 1) * 8) value) :: u8"
  have pre: "take (Suc (offset + index)) (out[offset + index := ?b]) = take (offset + index) out @ [?b]"
    using Suc.prems by (simp add: take_Suc_conv_app_nth)
  have post: "drop (offset + Suc index + k) (out[offset + index := ?b]) = drop (offset + index + Suc k) out"
    by simp
  have "write_be_loop n out offset value index (Suc k) =
    write_be_loop n (out[offset + index := ?b]) offset value (Suc index) k"
    using Suc.prems by simp
  also have "\<dots> = Inr (take (Suc (offset + index)) (out[offset + index := ?b])
       @ map (\<lambda>i. ucast (drop_bit ((n - i - 1) * 8) value)) [Suc index..<Suc index + k]
       @ drop (offset + Suc index + k) (out[offset + index := ?b]))"
    using Suc.prems by (subst Suc.IH) simp_all
  also have "\<dots> = Inr (take (offset + index) out
       @ map (\<lambda>i. ucast (drop_bit ((n - i - 1) * 8) value)) (index # [Suc index..<Suc index + k])
       @ drop (offset + index + Suc k) out)"
    unfolding pre post by simp
  also have "index # [Suc index..<Suc index + k] = [index..<index + Suc k]"
    by (metis add_Suc_right add_Suc less_add_Suc1 upt_conv_Cons)
  finally show ?case .
qed

lemma write_big_endian_ok [codec_simps]:
  fixes v :: "'a::len word"
  assumes "off + LENGTH('a) div 8 \<le> length out"
  shows "write_big_endian out off v = Inr (take off out @ be_bytes v @ drop (off + LENGTH('a) div 8) out)"
  using assms by (simp add: write_big_endian_def write_be_loop_ok be_bytes_def)

lemma read_be_loop_ok:
  "offset + index + k \<le> length input \<Longrightarrow>
   read_be_loop input offset v index k = Inr (foldl be_step v (take k (drop (offset + index) input)))"
proof (induction k arbitrary: index v)
  case 0
  then show ?case by simp
next
  case (Suc k)
  then have "drop (offset + index) input = input ! (offset + index) # drop (offset + Suc index) input"
    by (simp add: Cons_nth_drop_Suc)
  with Suc show ?case by (simp add: be_step_def)
qed

lemma read_big_endian_ok [codec_simps]:
  assumes "off + LENGTH('a::len) div 8 \<le> length input"
  shows "read_big_endian input off = Inr (be_val (take (LENGTH('a) div 8) (drop off input)) :: 'a word)"
  using assms by (simp add: read_big_endian_def read_be_loop_ok be_val_def)

lemma read_be_loop_oob:
  "length input < offset + index + k \<Longrightarrow> 0 < k \<Longrightarrow>
   read_be_loop input offset v index k = Inl Out_of_bounds"
proof (induction k arbitrary: index v)
  case 0
  then show ?case by simp
next
  case (Suc k)
  show ?case
  proof (cases "offset + index < length input")
    case True
    with Suc.prems have "0 < k" by simp
    with True Suc.prems show ?thesis by (simp add: Suc.IH)
  next
    case False
    then show ?thesis by (simp add: span_at_def)
  qed
qed

lemma read_big_endian_oob:
  assumes "length input < off + LENGTH('a::len) div 8" and "0 < LENGTH('a) div 8"
  shows "(read_big_endian input off :: 'a word cpp) = Inl Out_of_bounds"
  using assms by (simp add: read_big_endian_def read_be_loop_oob)

section \<open>Both directions of the round trip\<close>

lemma be_val_snoc: "be_val (bs @ [b]) = push_bit 8 (be_val bs) OR ucast b"
  by (simp add: be_val_def be_step_def)

lemma bit_be_val:
  "bit (be_val bs :: 'a::len word) k \<longleftrightarrow>
     k < LENGTH('a) \<and> k div 8 < length bs \<and> bit (rev bs ! (k div 8)) (k mod 8)"
proof (induction bs arbitrary: k rule: rev_induct)
  case Nil
  then show ?case by (simp add: be_val_def)
next
  case (snoc b bs)
  show ?case
  proof (cases "k < 8")
    case True
    then show ?thesis by (auto simp: be_val_snoc bit_simps)
  next
    case False
    then obtain j where j: "k = j + 8" by (metis add.commute le_Suc_ex not_less)
    have d: "(j + 8) div 8 = Suc (j div 8)" by simp
    have "\<not> bit b k" using False by (auto dest: bit_imp_le_length)
    then show ?thesis using snoc.IH [of j] by (auto simp: be_val_snoc bit_simps j d)
  qed
qed

lemma rev_be_bytes_nth:
  fixes v :: "'a::len word"
  assumes "j < LENGTH('a) div 8"
  shows "rev (be_bytes v) ! j = ucast (drop_bit (8 * j) v)"
  using assms by (simp add: rev_nth be_bytes_def mult.commute)

lemma be_val_be_bytes:
  fixes v :: "'a::len word"
  assumes "8 dvd LENGTH('a)"
  shows "be_val (be_bytes v) = v"
proof (rule bit_word_eqI)
  fix k assume k: "k < LENGTH('a)"
  with assms have "k div 8 < LENGTH('a) div 8" by (auto elim!: dvdE)
  with k show "bit (be_val (be_bytes v) :: 'a word) k = bit v k"
    by (simp add: bit_be_val rev_be_bytes_nth bit_simps)
qed

lemma be_bytes_be_val:
  assumes "8 dvd LENGTH('a::len)" and len: "length bs = LENGTH('a) div 8"
  shows "be_bytes (be_val bs :: 'a word) = bs"
proof -
  have "rev (be_bytes (be_val bs :: 'a word)) = rev bs"
  proof (rule nth_equalityI)
    show "length (rev (be_bytes (be_val bs :: 'a word))) = length (rev bs)" by (simp add: len)
  next
    fix j assume "j < length (rev (be_bytes (be_val bs :: 'a word)))"
    then have j: "j < LENGTH('a) div 8" by simp
    then have small: "8 * j + b < LENGTH('a)" if "b < 8" for b using that by linarith
    show "rev (be_bytes (be_val bs :: 'a word)) ! j = rev bs ! j"
    proof (rule bit_word_eqI)
      fix b assume b: "b < LENGTH(8)"
      then have "(8 * j + b) div 8 = j" "(8 * j + b) mod 8 = b" by simp_all
      with b j small [of b] show "bit (rev (be_bytes (be_val bs :: 'a word)) ! j) b = bit (rev bs ! j) b"
        by (simp add: rev_be_bytes_nth bit_simps bit_be_val len)
    qed
  qed
  then show ?thesis by simp
qed

section \<open>The codec contract\<close>

text \<open>
  What a field codec promises: \<open>put\<close> replaces exactly \<open>width\<close> bytes by the encoding, \<open>get\<close>
  decodes exactly \<open>width\<close> bytes and never reads outside the span without saying so, and the
  encoding is a bijection between the values and the byte lists of length \<open>width\<close>.
\<close>

locale wire_codec =
  fixes put :: "bytes \<Rightarrow> nat \<Rightarrow> 'v \<Rightarrow> bytes cpp"
    and get :: "bytes \<Rightarrow> nat \<Rightarrow> 'v cpp"
    and enc :: "'v \<Rightarrow> bytes"
    and dec :: "bytes \<Rightarrow> 'v"
    and width :: nat
  assumes length_enc: "length (enc v) = width"
    and dec_enc: "dec (enc v) = v"
    and enc_dec: "length bs = width \<Longrightarrow> enc (dec bs) = bs"
    and put_ok: "off + width \<le> length bs \<Longrightarrow>
      put bs off v = Inr (take off bs @ enc v @ drop (off + width) bs)"
    and get_ok: "off + width \<le> length bs \<Longrightarrow> get bs off = Inr (dec (take width (drop off bs)))"
    and get_oob: "length bs < off + width \<Longrightarrow> get bs off = Inl Out_of_bounds"
begin

lemma get_put:
  assumes "off + width \<le> length bs"
  shows "cbind (put bs off v) (\<lambda>bs'. get bs' off) = Inr v"
  using assms by (simp add: put_ok get_ok length_enc dec_enc)

lemma put_get:
  assumes "off + width \<le> length bs"
  shows "cbind (get bs off) (put bs off) = Inr bs"
  using assms by (simp add: put_ok get_ok enc_dec splice_same)

lemma put_length: "put bs off v = Inr bs' \<Longrightarrow> off + width \<le> length bs \<Longrightarrow> length bs' = length bs"
  by (auto simp: put_ok length_enc)

lemma get_layout: "get (pre @ enc v @ post) (length pre) = Inr v"
  by (simp add: get_ok length_enc dec_enc)

lemma enc_inj: "enc v = enc w \<longleftrightarrow> v = w"
  by (metis dec_enc)

lemma get_inj:
  assumes "off + width \<le> length bs" and "off + width \<le> length cs"
  shows "get bs off = get cs off \<longleftrightarrow> take width (drop off bs) = take width (drop off cs)"
proof -
  have "length (take width (drop off bs)) = width" "length (take width (drop off cs)) = width"
    using assms by simp_all
  then show ?thesis using assms by (metis enc_dec get_ok sum.inject(2))
qed

end

lemma wire_codec_word:
  assumes "8 dvd LENGTH('a::len)"
  shows "wire_codec write_big_endian (read_big_endian :: bytes \<Rightarrow> nat \<Rightarrow> 'a word cpp)
    be_bytes be_val (LENGTH('a) div 8)"
proof
  have pos: "0 < LENGTH('a) div 8"
    using assms len_gt_0 [where ?'a = 'a] by (simp add: div_greater_zero_iff dvd_imp_le)
  fix bs :: bytes and off :: nat
  show "length bs < off + LENGTH('a) div 8 \<Longrightarrow>
      (read_big_endian bs off :: 'a word cpp) = Inl Out_of_bounds"
    by (rule read_big_endian_oob [OF _ pos])
qed (use assms in \<open>simp_all add: be_val_be_bytes be_bytes_be_val codec_simps\<close>)

text \<open>The three widths of the wire format.\<close>

interpretation wire16: wire_codec write_big_endian "read_big_endian :: bytes \<Rightarrow> nat \<Rightarrow> u16 cpp"
  be_bytes be_val 2
  using wire_codec_word [where ?'a = 16] by simp

interpretation wire32: wire_codec write_big_endian "read_big_endian :: bytes \<Rightarrow> nat \<Rightarrow> u32 cpp"
  be_bytes be_val 4
  using wire_codec_word [where ?'a = 32] by simp

interpretation wire64: wire_codec write_big_endian "read_big_endian :: bytes \<Rightarrow> nat \<Rightarrow> u64 cpp"
  be_bytes be_val 8
  using wire_codec_word [where ?'a = 64] by simp

lemmas wire_oks [codec_simps] =
  wire16.put_ok wire32.put_ok wire64.put_ok
  wire16.get_ok wire32.get_ok wire64.get_ok

lemmas wire_dec_enc [simp, codec_simps] = wire16.dec_enc wire32.dec_enc wire64.dec_enc

lemmas wire_enc_dec = wire16.enc_dec wire32.enc_dec wire64.enc_dec

end
