(* ===== verification/Ieee.thy ===== *)
theory Ieee
  imports Complex_Main Wire
begin

text \<open>
  IEEE-754 binary32 and binary64 values, the \<open>float\<close> and \<open>double\<close> of the source (whose
  static assertions require \<open>is_iec559\<close> and the two sizes), as bit patterns.

  A value is finite when its exponent field is not all ones. Every finite value is an integer
  multiple of the least subnormal, and \<open>scaled32\<close> and \<open>scaled64\<close> compute that integer, so the
  C++ comparison \<open><\<close> is an integer comparison: it is false when an operand is a NaN, treats
  the two zeros as equal, and puts the infinities outside all finite values.
\<close>

datatype float32 = Float32 (bits32: u32)
datatype float64 = Float64 (bits64: u64)

section \<open>Fields and classification\<close>

definition exp32 :: "float32 \<Rightarrow> nat" where "exp32 x = unat (take_bit 8 (drop_bit 23 (bits32 x)))"
definition man32 :: "float32 \<Rightarrow> nat" where "man32 x = unat (take_bit 23 (bits32 x))"
definition neg32 :: "float32 \<Rightarrow> bool" where "neg32 x = bit (bits32 x) 31"

definition exp64 :: "float64 \<Rightarrow> nat" where "exp64 x = unat (take_bit 11 (drop_bit 52 (bits64 x)))"
definition man64 :: "float64 \<Rightarrow> nat" where "man64 x = unat (take_bit 52 (bits64 x))"
definition neg64 :: "float64 \<Rightarrow> bool" where "neg64 x = bit (bits64 x) 63"

definition isfinite32 :: "float32 \<Rightarrow> bool" where "isfinite32 x \<longleftrightarrow> exp32 x \<noteq> 255"
definition isfinite64 :: "float64 \<Rightarrow> bool" where "isfinite64 x \<longleftrightarrow> exp64 x \<noteq> 2047"

definition isnan32 :: "float32 \<Rightarrow> bool" where "isnan32 x \<longleftrightarrow> exp32 x = 255 \<and> man32 x \<noteq> 0"
definition isnan64 :: "float64 \<Rightarrow> bool" where "isnan64 x \<longleftrightarrow> exp64 x = 2047 \<and> man64 x \<noteq> 0"

section \<open>Values as multiples of the least subnormal\<close>

definition scaled_magnitude :: "nat \<Rightarrow> nat \<Rightarrow> nat \<Rightarrow> nat" where
  "scaled_magnitude p e m = (if e = 0 then m else (2 ^ p + m) * 2 ^ (e - 1))"

definition scaled32 :: "float32 \<Rightarrow> int" where
  "scaled32 x = (if neg32 x then - 1 else 1) * int (scaled_magnitude 23 (exp32 x) (man32 x))"

definition scaled64 :: "float64 \<Rightarrow> int" where
  "scaled64 x = (if neg64 x then - 1 else 1) * int (scaled_magnitude 52 (exp64 x) (man64 x))"

definition real32 :: "float32 \<Rightarrow> real" where "real32 x = of_int (scaled32 x) / 2 ^ 149"
definition real64 :: "float64 \<Rightarrow> real" where "real64 x = of_int (scaled64 x) / 2 ^ 1074"

definition less32 :: "float32 \<Rightarrow> float32 \<Rightarrow> bool" where
  "less32 x y \<longleftrightarrow> \<not> isnan32 x \<and> \<not> isnan32 y \<and> scaled32 x < scaled32 y"

definition less64 :: "float64 \<Rightarrow> float64 \<Rightarrow> bool" where
  "less64 x y \<longleftrightarrow> \<not> isnan64 x \<and> \<not> isnan64 y \<and> scaled64 x < scaled64 y"

lemma finite_not_nan [simp]:
  "isfinite32 x \<Longrightarrow> \<not> isnan32 x" "isfinite64 y \<Longrightarrow> \<not> isnan64 y"
  by (simp_all add: isfinite32_def isnan32_def isfinite64_def isnan64_def)

lemma less32_real:
  "isfinite32 x \<Longrightarrow> isfinite32 y \<Longrightarrow> less32 x y \<longleftrightarrow> real32 x < real32 y"
  by (simp add: less32_def real32_def divide_less_cancel)

lemma less64_real:
  "isfinite64 x \<Longrightarrow> isfinite64 y \<Longrightarrow> less64 x y \<longleftrightarrow> real64 x < real64 y"
  by (simp add: less64_def real64_def divide_less_cancel)

text \<open>The literals the source compares with.\<close>

lemma real32_zero [simp]: "real32 (Float32 0) = 0" "isfinite32 (Float32 0)"
  by (simp_all add: real32_def scaled32_def exp32_def man32_def isfinite32_def scaled_magnitude_def)

section \<open>Floats on the wire\<close>

text \<open>\<open>std::bit_cast\<close> between a float and the unsigned integer of its size.\<close>

definition write_float :: "bytes \<Rightarrow> nat \<Rightarrow> float32 \<Rightarrow> bytes cpp" where
  "write_float out offset value = write_big_endian out offset (bits32 value)"

definition read_float :: "bytes \<Rightarrow> nat \<Rightarrow> float32 cpp" where
  "read_float input offset = cbind (read_big_endian input offset) (\<lambda>b. Inr (Float32 b))"

definition write_double :: "bytes \<Rightarrow> nat \<Rightarrow> float64 \<Rightarrow> bytes cpp" where
  "write_double out offset value = write_big_endian out offset (bits64 value)"

definition read_double :: "bytes \<Rightarrow> nat \<Rightarrow> float64 cpp" where
  "read_double input offset = cbind (read_big_endian input offset) (\<lambda>b. Inr (Float64 b))"

definition float_bytes :: "float32 \<Rightarrow> bytes" where "float_bytes x = be_bytes (bits32 x)"
definition bytes_float :: "bytes \<Rightarrow> float32" where "bytes_float bs = Float32 (be_val bs)"
definition double_bytes :: "float64 \<Rightarrow> bytes" where "double_bytes x = be_bytes (bits64 x)"
definition bytes_double :: "bytes \<Rightarrow> float64" where "bytes_double bs = Float64 (be_val bs)"

interpretation wiref: wire_codec write_float read_float float_bytes bytes_float 4
  by unfold_locales
    (simp_all add: write_float_def read_float_def float_bytes_def bytes_float_def wire_oks
      wire_enc_dec wire32.get_oob)

interpretation wired: wire_codec write_double read_double double_bytes bytes_double 8
  by unfold_locales
    (simp_all add: write_double_def read_double_def double_bytes_def bytes_double_def wire_oks
      wire_enc_dec wire64.get_oob)

lemmas float_oks [codec_simps] = wiref.put_ok wired.put_ok wiref.get_ok wired.get_ok
lemmas float_length [simp, codec_simps] = wiref.length_enc wired.length_enc
lemmas float_dec_enc [simp, codec_simps] = wiref.dec_enc wired.dec_enc
lemmas float_enc_dec = wiref.enc_dec wired.enc_dec

end
