(* ===== verification/Ieee_Arith.thy ===== *)
theory Ieee_Arith
  imports Ieee
begin

text \<open>
  Correctly rounded binary64 arithmetic on non-negative values (round to nearest, ties to even,
  the mode of the platform), executable on bit patterns: \<open>f64_of_ratio n d\<close> is the double nearest
  to the rational \<open>n / d\<close>, with subnormals and overflow to infinity. Conversion, product and
  quotient are instances. \<open>f64_of_ratio_rounds\<close> is the rounding contract.
\<close>

section \<open>Rounding\<close>

fun bit_length :: "nat \<Rightarrow> nat" where
  "bit_length n = (if n = 0 then 0 else Suc (bit_length (n div 2)))"

declare bit_length.simps [simp del]

definition round_half_even :: "nat \<Rightarrow> nat \<Rightarrow> nat" where
  "round_half_even n d =
     (let q = n div d; r = n mod d
      in if 2 * r < d \<or> 2 * r = d \<and> even q then q else Suc q)"

definition f64_infinity_bits :: nat where "f64_infinity_bits = 2047 * 2 ^ 52"

definition f64_of_ratio :: "nat \<Rightarrow> nat \<Rightarrow> float64" where
  "f64_of_ratio n d =
     (let k = bit_length (n * 2 ^ 1074 div d) - 53;
          q = round_half_even (n * 2 ^ 1074) (d * 2 ^ k)
      in Float64 (of_nat (min (k * 2 ^ 52 + q) f64_infinity_bits)))"

text \<open>\<open>static_cast<double>\<close> of an unsigned integer, and the operators on non-negative finite
  operands.\<close>

definition f64_of_u64 :: "u64 \<Rightarrow> float64" where
  "f64_of_u64 v = f64_of_ratio (unat v) 1"

definition f64_times :: "float64 \<Rightarrow> float64 \<Rightarrow> float64" where
  "f64_times x y = f64_of_ratio (nat (scaled64 x * scaled64 y)) (2 ^ 2148)"

definition f64_divide :: "float64 \<Rightarrow> float64 \<Rightarrow> float64" where
  "f64_divide x y = f64_of_ratio (nat (scaled64 x)) (nat (scaled64 y))"

section \<open>The rounding contract\<close>

lemma bit_length_0 [simp]: "bit_length 0 = 0"
  by (simp add: bit_length.simps)

lemma bit_length_bounds: "n < 2 ^ bit_length n \<and> (n \<noteq> 0 \<longrightarrow> 2 ^ (bit_length n - 1) \<le> n)"
proof (induction n rule: bit_length.induct)
  case (1 n)
  show ?case
  proof (cases "n = 0")
    case False
    have bl: "bit_length n = Suc (bit_length (n div 2))" using False by (simp add: bit_length.simps)
    have ih: "n div 2 < 2 ^ bit_length (n div 2)" "n div 2 \<noteq> 0 \<longrightarrow> 2 ^ (bit_length (n div 2) - 1) \<le> n div 2"
      using 1 False by auto
    show ?thesis
    proof (cases "n div 2 = 0")
      case True
      then have "n = 1" using False by simp
      then show ?thesis by (simp add: bit_length.simps)
    next
      case half: False
      then obtain m where m: "bit_length (n div 2) = Suc m" by (simp add: bit_length.simps)
      then show ?thesis using ih half unfolding bl m by auto
    qed
  qed (simp add: bit_length.simps)
qed

lemma round_half_even_error:
  assumes "0 < d"
  shows "2 * \<bar>int (round_half_even n d * d) - int n\<bar> \<le> int d"
proof -
  define q r where "q = n div d" and "r = n mod d"
  have n: "n = q * d + r" by (simp add: q_def r_def)
  have r: "r < d" using assms by (simp add: r_def)
  show ?thesis
  proof (cases "2 * r < d \<or> 2 * r = d \<and> even q")
    case True
    then have "round_half_even n d = q" by (simp add: round_half_even_def q_def r_def Let_def)
    then show ?thesis using n True by auto
  next
    case False
    then have "round_half_even n d = Suc q" by (auto simp: round_half_even_def q_def r_def Let_def)
    then show ?thesis using n r False by (auto simp: algebra_simps)
  qed
qed

lemma round_half_even_ge: "0 < d \<Longrightarrow> a * d \<le> n \<Longrightarrow> a \<le> round_half_even n d"
  using less_eq_div_iff_mult_less_eq [of d a n] by (simp add: round_half_even_def Let_def)

lemma round_half_even_le: "0 < d \<Longrightarrow> n < b * d \<Longrightarrow> round_half_even n d \<le> b"
  using div_less_iff_less_mult [of d n b] by (simp add: round_half_even_def Let_def)

lemma scaled64_bits:
  assumes "b < f64_infinity_bits"
  shows "scaled64 (Float64 (of_nat b)) = int (scaled_magnitude 52 (b div 2 ^ 52) (b mod 2 ^ 52))"
    and "isfinite64 (Float64 (of_nat b))"
proof -
  have b: "b < 2 ^ 63" "b div 2 ^ 52 < 2047" using assms by (simp_all add: f64_infinity_bits_def div_less_iff_less_mult)
  have u: "unat (of_nat b :: u64) = b" using b by (simp add: unat_of_nat)
  have e: "exp64 (Float64 (of_nat b)) = b div 2 ^ 52"
    unfolding exp64_def float64.sel unsigned_take_bit_eq unat_drop_bit_eq u
    unfolding take_bit_eq_mod drop_bit_eq_div using b by simp
  have m: "man64 (Float64 (of_nat b)) = b mod 2 ^ 52"
    unfolding man64_def float64.sel unsigned_take_bit_eq u
    unfolding take_bit_eq_mod by (rule refl)
  have n: "\<not> neg64 (Float64 (of_nat b))"
    using b bit_unsigned_iff [of "of_nat b :: u64" 63, where ?'a = nat]
    by (simp add: neg64_def u bit_iff_odd)
  show "scaled64 (Float64 (of_nat b)) = int (scaled_magnitude 52 (b div 2 ^ 52) (b mod 2 ^ 52))"
    by (simp add: scaled64_def e m n)
  show "isfinite64 (Float64 (of_nat b))" using b by (simp add: isfinite64_def e)
qed

lemma decode_rounded:
  assumes "q \<le> 2 ^ 53" and "k \<noteq> 0 \<Longrightarrow> 2 ^ 52 \<le> q"
  shows "scaled_magnitude 52 ((k * 2 ^ 52 + q) div 2 ^ 52) ((k * 2 ^ 52 + q) mod 2 ^ 52) = q * 2 ^ k"
proof -
  consider "q < 2 ^ 52" | "2 ^ 52 \<le> q" "q < 2 ^ 53" | "q = 2 ^ 53" using assms(1) by linarith
  then show ?thesis
  proof cases
    case 1
    then have "k = 0" using assms(2) by (metis not_le)
    then show ?thesis using 1 by (simp add: scaled_magnitude_def)
  next
    case 2
    then obtain r where r: "q = 2 ^ 52 + r" "r < 2 ^ 52" by (auto dest!: le_Suc_ex)
    have b: "k * 2 ^ 52 + q = Suc k * 2 ^ 52 + r" by (simp add: r)
    have "(k * 2 ^ 52 + q) div 2 ^ 52 = Suc k" "(k * 2 ^ 52 + q) mod 2 ^ 52 = r"
      unfolding b using r(2) by (simp_all only: mod_mult_self3 mod_less div_mult_self3 div_less
          power_not_zero zero_neq_numeral not_False_eq_True add_0_right refl)
    then show ?thesis by (simp add: scaled_magnitude_def r(1))
  next
    case 3
    have b: "k * 2 ^ 52 + q = (k + 2) * 2 ^ 52" by (simp add: 3)
    have "(k * 2 ^ 52 + q) div 2 ^ 52 = k + 2" "(k * 2 ^ 52 + q) mod 2 ^ 52 = 0"
      unfolding b by simp_all
    then show ?thesis by (simp add: scaled_magnitude_def 3)
  qed
qed

text \<open>The shift chosen keeps 53 significant bits, fewer only for subnormal results.\<close>

lemma ratio_shift:
  fixes n d :: nat
  assumes "0 < d"
  defines "k \<equiv> bit_length (n div d) - 53"
  defines "q \<equiv> round_half_even n (d * 2 ^ k)"
  shows "q \<le> 2 ^ 53" and "k \<noteq> 0 \<Longrightarrow> 2 ^ 52 \<le> q"
    and "k \<noteq> 0 \<Longrightarrow> d * 2 ^ k * 2 ^ 52 \<le> n"
proof -
  have D: "0 < d * 2 ^ k" using assms(1) by simp
  have up: "n div d < 2 ^ (k + 53)"
  proof -
    have "2 ^ bit_length (n div d) \<le> (2 :: nat) ^ (k + 53)"
      by (rule power_increasing) (simp_all add: k_def)
    then show ?thesis using bit_length_bounds [of "n div d"] less_le_trans by blast
  qed
  then have "n < 2 ^ (k + 53) * d" by (simp only: div_less_iff_less_mult [OF assms(1)])
  then have "n < 2 ^ 53 * (d * 2 ^ k)" by (simp only: power_add ac_simps)
  then show "q \<le> 2 ^ 53" unfolding q_def by (rule round_half_even_le [OF D])
  show low: "d * 2 ^ k * 2 ^ 52 \<le> n" if "k \<noteq> 0"
  proof -
    have "k + 52 = bit_length (n div d) - 1" using that by (simp add: k_def)
    moreover have "n div d \<noteq> 0" using that by (intro notI) (simp add: k_def)
    ultimately have "2 ^ (k + 52) \<le> n div d" using bit_length_bounds [of "n div d"] by simp
    then have "2 ^ (k + 52) * d \<le> n" by (simp only: less_eq_div_iff_mult_less_eq [OF assms(1)])
    then show ?thesis by (simp only: power_add ac_simps)
  qed
  show "2 ^ 52 \<le> q" if "k \<noteq> 0"
    unfolding q_def by (rule round_half_even_ge [OF D]) (use low [OF that] in \<open>simp only: ac_simps\<close>)
qed

text \<open>The result is finite and within a relative error of \<open>2 ^ - 53\<close>, for rationals well inside the
  normal range.\<close>

lemma f64_of_ratio_rounds:
  assumes d: "0 < d" and lo: "d \<le> n * 2 ^ 1000" and hi: "n < d * 2 ^ 900"
  shows "isfinite64 (f64_of_ratio n d)"
    and "0 \<le> scaled64 (f64_of_ratio n d)"
    and "\<bar>real64 (f64_of_ratio n d) - n / d\<bar> \<le> n / d / 2 ^ 53"
proof -
  define N where "N = n * 2 ^ 1074"
  define k where "k = bit_length (N div d) - 53"
  define q where "q = round_half_even N (d * 2 ^ k)"
  note sh = ratio_shift [OF d, of N, folded k_def q_def]
  have D: "0 < d * 2 ^ k" using d by simp
  have k: "k \<noteq> 0"
  proof
    assume "k = 0"
    then have "bit_length (N div d) \<le> 53" by (simp add: k_def)
    then have "(2 :: nat) ^ bit_length (N div d) \<le> 2 ^ 53" by (rule power_increasing) simp
    then have "N div d < 2 ^ 53" using bit_length_bounds [of "N div d"] by linarith
    moreover have "2 ^ 74 * d \<le> N"
      using mult_le_mono1 [OF lo, of "2 ^ 74"] unfolding N_def mult.assoc power_add [symmetric]
      by (simp add: ac_simps)
    then have "2 ^ 74 \<le> N div d" using less_eq_div_iff_mult_less_eq [OF d] by blast
    ultimately show False by simp
  qed
  have small: "k * 2 ^ 52 + q < f64_infinity_bits"
  proof -
    have "d * 2 ^ k * 2 ^ 52 < d * 2 ^ 900 * 2 ^ 1074"
      using sh(3) [OF k] hi unfolding N_def by (meson le_less_trans mult_less_mono1 zero_less_numeral zero_less_power)
    then have "(2 :: nat) ^ (k + 52) < 2 ^ (900 + 1074)" unfolding power_add mult.assoc using d by simp
    then have "k + 52 < 900 + 1074" by (rule power_less_imp_less_exp [rotated]) simp
    then have "k \<le> 1921" by simp
    then have "k * 2 ^ 52 \<le> 1921 * 2 ^ 52" by simp
    then show ?thesis using sh(1) by (simp add: f64_infinity_bits_def)
  qed
  have r: "f64_of_ratio n d = Float64 (of_nat (k * 2 ^ 52 + q))"
    unfolding f64_of_ratio_def Let_def N_def [symmetric] k_def [symmetric] q_def [symmetric]
    by (simp only: min_absorb1 [OF less_imp_le [OF small]])
  have s: "scaled64 (f64_of_ratio n d) = int (q * 2 ^ k)"
    unfolding r scaled64_bits(1) [OF small] by (rule arg_cong, rule decode_rounded, rule sh(1), rule sh(2))
  show "isfinite64 (f64_of_ratio n d)" unfolding r by (rule scaled64_bits(2) [OF small])
  show "0 \<le> scaled64 (f64_of_ratio n d)" unfolding s by simp
  have "2 * \<bar>int (q * (d * 2 ^ k)) - int N\<bar> \<le> int (d * 2 ^ k)"
    unfolding q_def by (rule round_half_even_error [OF D])
  then have "\<bar>int (q * (d * 2 ^ k)) - int N\<bar> * 2 ^ 53 \<le> int (d * 2 ^ k) * 2 ^ 52" by simp
  also have "\<dots> \<le> int N" using sh(3) [OF k] by (metis of_nat_le_iff of_nat_mult of_nat_numeral of_nat_power)
  finally have "real_of_int (\<bar>int (q * (d * 2 ^ k)) - int N\<bar> * 2 ^ 53) \<le> real_of_int (int N)"
    by (rule of_int_le_iff [THEN iffD2])
  then have err: "\<bar>real q * 2 ^ k * d - real n * 2 ^ 1074\<bar> * 2 ^ 53 \<le> real n * 2 ^ 1074"
    by (simp add: N_def ac_simps)
  define u where "u = (2 :: real) ^ 1074"
  have u: "0 < u" by (simp add: u_def)
  have dr: "0 < real d" using d by simp
  have "real64 (f64_of_ratio n d) - n / d = (real q * 2 ^ k * d - real n * u) / (u * d)"
    unfolding real64_def s u_def [symmetric] using u dr by (simp add: field_simps)
  then have "\<bar>real64 (f64_of_ratio n d) - n / d\<bar> = \<bar>real q * 2 ^ k * d - real n * u\<bar> / (u * d)"
    using u dr by (simp add: abs_mult)
  also have "\<dots> \<le> (real n * u / 2 ^ 53) / (u * d)"
    by (rule divide_right_mono) (use err [folded u_def] u dr in \<open>simp_all add: field_simps\<close>)
  also have "\<dots> = n / d / 2 ^ 53" using u dr by (simp add: field_simps)
  finally show "\<bar>real64 (f64_of_ratio n d) - n / d\<bar> \<le> n / d / 2 ^ 53" .
qed

text \<open>The contract over the reals, for each operation of the source.\<close>

definition rounds_to :: "float64 \<Rightarrow> real \<Rightarrow> bool" where
  "rounds_to x r \<longleftrightarrow> isfinite64 x \<and> 0 \<le> scaled64 x \<and> (\<exists>e. \<bar>e\<bar> \<le> 1 / 2 ^ 53 \<and> real64 x = r * (1 + e))"

lemma rounds_toI:
  assumes "isfinite64 x" "0 \<le> scaled64 x" "\<bar>real64 x - r\<bar> \<le> r / 2 ^ 53" "0 < r"
  shows "rounds_to x r"
proof -
  define e where "e = (real64 x - r) / r"
  have "\<bar>e\<bar> = \<bar>real64 x - r\<bar> / r" using assms(4) by (simp add: e_def)
  also have "\<dots> \<le> (r / 2 ^ 53) / r" by (rule divide_right_mono) (use assms(3,4) in simp_all)
  finally have "\<bar>e\<bar> \<le> 1 / 2 ^ 53" using assms(4) by simp
  moreover have "real64 x = r * (1 + e)" using assms(4) by (simp add: e_def field_simps)
  ultimately show ?thesis using assms(1,2) by (auto simp: rounds_to_def)
qed

lemma f64_of_ratio_rounds_to:
  assumes d: "0 < d" and lo: "1 / 2 ^ 1000 \<le> real n / real d" and hi: "real n / real d < 2 ^ 900"
  shows "rounds_to (f64_of_ratio n d) (real n / real d)"
proof -
  have dr: "0 < real d" using d by simp
  have "real d \<le> real n * 2 ^ 1000" using lo dr by (simp add: field_simps)
  then have a: "d \<le> n * 2 ^ 1000" by (metis of_nat_le_iff of_nat_mult of_nat_numeral of_nat_power)
  have "real n < real d * 2 ^ 900" using hi dr by (simp add: field_simps)
  then have b: "n < d * 2 ^ 900" by (metis of_nat_less_iff of_nat_mult of_nat_numeral of_nat_power)
  have "0 < (1 :: real) / 2 ^ 1000" by simp
  then have "0 < real n / real d" using lo by (rule less_le_trans)
  then show ?thesis by (rule rounds_toI [OF f64_of_ratio_rounds [OF d a b]])
qed

lemma f64_of_u64_rounds:
  assumes "v \<noteq> 0"
  shows "rounds_to (f64_of_u64 v) (real (unat v))"
proof -
  from assms have "1 \<le> unat v" by (simp add: Suc_le_eq unat_gt_0)
  then have "real 1 \<le> real (unat v)" by (rule of_nat_le_iff [THEN iffD2])
  then have "1 \<le> real (unat v)" unfolding of_nat_1 .
  moreover have "(1 :: real) / 2 ^ 1000 \<le> 1" by simp
  ultimately have lo: "1 / 2 ^ 1000 \<le> real (unat v)" by (rule order_trans [rotated])
  have "real (unat v) < real (2 ^ 64)" using unat_u64_bound [of v] by (rule of_nat_less_iff [THEN iffD2])
  also have "real (2 ^ 64) < 2 ^ 900" by simp
  finally have hi: "real (unat v) < 2 ^ 900" .
  have e: "real (unat v) / real (1 :: nat) = real (unat v)" by (simp only: of_nat_1 div_by_1)
  show ?thesis
    unfolding f64_of_u64_def by (rule f64_of_ratio_rounds_to [of 1 "unat v", unfolded e, OF zero_less_one lo hi])
qed

lemma real64_nonneg: "0 \<le> scaled64 x \<Longrightarrow> real (nat (scaled64 x)) = real64 x * 2 ^ 1074"
  unfolding real64_def by (simp add: of_nat_nat)

lemma f64_times_rounds:
  assumes "0 \<le> scaled64 x" "0 \<le> scaled64 y"
    and "1 / 2 ^ 1000 \<le> real64 x * real64 y" "real64 x * real64 y < 2 ^ 900"
  shows "rounds_to (f64_times x y) (real64 x * real64 y)"
proof -
  have "real (nat (scaled64 x * scaled64 y)) / real (2 ^ 2148) = real64 x * real64 y"
  proof -
    have "real (nat (scaled64 x * scaled64 y)) = real64 x * real64 y * (2 ^ 1074 * 2 ^ 1074)"
      unfolding nat_mult_distrib [OF assms(1)] of_nat_mult real64_nonneg [OF assms(1)]
        real64_nonneg [OF assms(2)] by (simp only: ac_simps)
    also have "(2 ^ 1074 * 2 ^ 1074 :: real) = 2 ^ 2148" unfolding power_add [symmetric] by simp
    finally show ?thesis by (simp only: of_nat_power of_nat_numeral) simp
  qed
  note e = this
  have pos: "0 < (2 :: nat) ^ 2148" by simp
  show ?thesis
    unfolding f64_times_def
    by (rule f64_of_ratio_rounds_to [of "2 ^ 2148" "nat (scaled64 x * scaled64 y)", unfolded e, OF pos assms(3,4)])
qed

lemma f64_divide_rounds:
  assumes "0 \<le> scaled64 x" "0 < scaled64 y"
    and "1 / 2 ^ 1000 \<le> real64 x / real64 y" "real64 x / real64 y < 2 ^ 900"
  shows "rounds_to (f64_divide x y) (real64 x / real64 y)"
proof -
  have e: "real (nat (scaled64 x)) / real (nat (scaled64 y)) = real64 x / real64 y"
    unfolding real64_nonneg [OF assms(1)] real64_nonneg [OF less_imp_le [OF assms(2)]]
    by (rule mult_divide_mult_cancel_right) simp
  have pos: "0 < nat (scaled64 y)" using assms(2) by simp
  show ?thesis
    unfolding f64_divide_def
    by (rule f64_of_ratio_rounds_to [of "nat (scaled64 y)" "nat (scaled64 x)", unfolded e, OF pos assms(3,4)])
qed

lemma real64_pos: "0 < real64 x \<Longrightarrow> 0 < scaled64 x"
  by (simp add: real64_def zero_less_divide_iff)

lemma rounds_to_bounds:
  assumes "rounds_to x r" "0 < r"
  shows "r / 2 \<le> real64 x" "real64 x \<le> 2 * r" "0 \<le> scaled64 x"
proof -
  obtain e where e: "\<bar>e\<bar> \<le> 1 / 2 ^ 53" "real64 x = r * (1 + e)" using assms(1) by (auto simp: rounds_to_def)
  have "\<bar>e\<bar> \<le> 1 / 2" using e(1) by (rule order_trans) simp
  then have "1 / 2 \<le> 1 + e" "1 + e \<le> 2" by linarith+
  then have "r * (1 / 2) \<le> r * (1 + e)" "r * (1 + e) \<le> r * 2"
    using assms(2) by (simp_all only: mult_le_cancel_left_pos)
  then show "r / 2 \<le> real64 x" "real64 x \<le> 2 * r" unfolding e(2) by simp_all
  show "0 \<le> scaled64 x" using assms(1) by (simp add: rounds_to_def)
qed

text \<open>Four roundings of a product and quotient stay within a relative error of \<open>2 ^ - 50\<close>.\<close>

lemma four_roundings:
  fixes e1 e2 e3 e4 :: real
  assumes "\<bar>e1\<bar> \<le> u" "\<bar>e2\<bar> \<le> u" "\<bar>e3\<bar> \<le> u" "\<bar>e4\<bar> \<le> u" and u: "0 \<le> u" "u \<le> 1 / 16"
  shows "\<bar>(1 + e1) * (1 + e3) * (1 + e4) / (1 + e2) - 1\<bar> \<le> 8 * u"
proof -
  have b: "1 - u \<le> 1 + e1" "1 + e1 \<le> 1 + u" "1 - u \<le> 1 + e3" "1 + e3 \<le> 1 + u"
    "1 - u \<le> 1 + e4" "1 + e4 \<le> 1 + u" "1 - u \<le> 1 + e2" "1 + e2 \<le> 1 + u"
    using assms by linarith+
  have p: "0 \<le> 1 - u" "0 < 1 + e2" "0 \<le> 1 + e1" "0 \<le> 1 + e3" "0 \<le> 1 + e4" using b u by linarith+
  have up: "(1 + e1) * (1 + e3) * (1 + e4) \<le> (1 + u) * (1 + u) * (1 + u)"
    by (intro mult_mono b mult_nonneg_nonneg p) (use u in simp_all)
  have lo: "(1 - u) * (1 - u) * (1 - u) \<le> (1 + e1) * (1 + e3) * (1 + e4)"
    by (intro mult_mono b mult_nonneg_nonneg p)
  have uu: "u * u \<le> u / 16" using mult_left_mono [OF u(2) u(1)] by simp
  have uuu: "0 \<le> u * u * u" "u * u * u \<le> u / 256"
    using mult_right_mono [OF uu u(1)] uu u by simp_all
  have "(1 + u) * (1 + u) * (1 + u) \<le> (1 + 8 * u) * (1 - u)"
    using uu uuu u by (simp add: algebra_simps)
  also have "\<dots> \<le> (1 + 8 * u) * (1 + e2)" by (intro mult_left_mono b) (use u in simp)
  finally have hi: "(1 + e1) * (1 + e3) * (1 + e4) / (1 + e2) \<le> 1 + 8 * u"
    using up p(2) by (simp add: pos_divide_le_eq)
  have "(1 - 8 * u) * (1 + e2) \<le> (1 - 8 * u) * (1 + u)"
    by (intro mult_left_mono b) (use u in simp)
  also have "\<dots> \<le> (1 - u) * (1 - u) * (1 - u)"
  proof -
    have "(1 - u) * (1 - u) * (1 - u) - (1 - 8 * u) * (1 + u) = 4 * u + 11 * (u * u) - u * u * u"
      by (simp add: algebra_simps)
    moreover have "0 \<le> u * u" using u(1) by simp
    ultimately show ?thesis using uuu u(1) by linarith
  qed
  finally have "1 - 8 * u \<le> (1 + e1) * (1 + e3) * (1 + e4) / (1 + e2)"
    using lo p(2) by (simp add: pos_le_divide_eq)
  with hi show ?thesis by linarith
qed

lemma scaled_ratio_rounds:
  assumes A: "rounds_to a x" "1 \<le> x" "x \<le> 64"
    and B: "0 \<le> scaled64 b" "1 \<le> real64 b" "real64 b \<le> 2 ^ 64"
    and E: "rounds_to c y" "1 \<le> y" "y \<le> 2 ^ 64"
  shows "isfinite64 (f64_divide (f64_times a b) c)"
    and "\<bar>real64 (f64_divide (f64_times a b) c) - x * real64 b / y\<bar> \<le> x * real64 b / y / 2 ^ 50"
proof -
  have a: "1 / 2 \<le> real64 a" "real64 a \<le> 128" "0 \<le> scaled64 a"
    using rounds_to_bounds [OF A(1)] A(2,3) by linarith+
  have c: "1 / 2 \<le> real64 c" "real64 c \<le> 2 ^ 65" "0 < scaled64 c"
    using rounds_to_bounds [OF E(1)] E(2,3) real64_pos [of c] by simp_all
  have ab: "1 / 2 \<le> real64 a * real64 b" "real64 a * real64 b \<le> 128 * 2 ^ 64"
    using mult_mono [OF a(1) B(2)] mult_mono [OF a(2) B(3)] a(1) B(2) by simp_all
  have P: "rounds_to (f64_times a b) (real64 a * real64 b)"
  proof (rule f64_times_rounds [OF a(3) B(1)])
    show "1 / 2 ^ 1000 \<le> real64 a * real64 b" by (rule order_trans [OF _ ab(1)]) simp
    show "real64 a * real64 b < 2 ^ 900" by (rule le_less_trans [OF ab(2)]) simp
  qed
  have p: "1 / 4 \<le> real64 (f64_times a b)" "real64 (f64_times a b) \<le> 2 ^ 72"
    using rounds_to_bounds [OF P] ab by simp_all
  have R: "rounds_to (f64_divide (f64_times a b) c) (real64 (f64_times a b) / real64 c)"
  proof (rule f64_divide_rounds)
    show "0 \<le> scaled64 (f64_times a b)" using P by (simp add: rounds_to_def)
    show "0 < scaled64 c" by (rule c(3))
    have "(1 / 4) / 2 ^ 65 \<le> real64 (f64_times a b) / real64 c"
      by (rule frac_le) (use p c in simp_all)
    then show "1 / 2 ^ 1000 \<le> real64 (f64_times a b) / real64 c" by (rule order_trans [rotated]) simp
    have "real64 (f64_times a b) / real64 c \<le> 2 ^ 72 / (1 / 2)"
      by (rule frac_le) (use p c in simp_all)
    then show "real64 (f64_times a b) / real64 c < 2 ^ 900" by (rule le_less_trans) simp
  qed
  show "isfinite64 (f64_divide (f64_times a b) c)" using R by (simp add: rounds_to_def)
  obtain e1 e2 e3 e4 where e: "\<bar>e1\<bar> \<le> 1 / 2 ^ 53" "\<bar>e2\<bar> \<le> 1 / 2 ^ 53" "\<bar>e3\<bar> \<le> 1 / 2 ^ 53"
    "\<bar>e4\<bar> \<le> 1 / 2 ^ 53"
    and v: "real64 a = x * (1 + e1)" "real64 c = y * (1 + e2)"
      "real64 (f64_times a b) = real64 a * real64 b * (1 + e3)"
      "real64 (f64_divide (f64_times a b) c) = real64 (f64_times a b) / real64 c * (1 + e4)"
    using A(1) E(1) P R unfolding rounds_to_def by blast
  define q where "q = x * real64 b / y"
  define w where "w = (1 + e1) * (1 + e3) * (1 + e4) / (1 + e2)"
  have q: "0 \<le> q" using A(2) B(2) E(2) by (simp add: q_def)
  have "real64 (f64_divide (f64_times a b) c) = q * w"
    unfolding v(4) v(3) v(2) v(1) q_def w_def by (simp add: field_simps)
  then have "\<bar>real64 (f64_divide (f64_times a b) c) - q\<bar> = q * \<bar>w - 1\<bar>"
    using q by (metis abs_mult abs_of_nonneg mult.right_neutral right_diff_distrib)
  also have "\<dots> \<le> q * (8 * (1 / 2 ^ 53))"
    by (rule mult_left_mono [OF four_roundings [OF e, folded w_def] q]) simp_all
  also have "\<dots> = q / 2 ^ 50" by simp
  finally show "\<bar>real64 (f64_divide (f64_times a b) c) - x * real64 b / y\<bar> \<le> x * real64 b / y / 2 ^ 50"
    unfolding q_def .
qed

end
