(* ===== verification/Float_Text.thy ===== *)
theory Float_Text
  imports Decimal Ieee_Arith
begin

text \<open>
  \<open>std::from_chars\<close> for \<open>double\<close> in its general format, as \<open>sensor_simulator.cpp\<close> calls it: an
  optional minus sign, then decimal digits with an optional point and exponent, or \<open>inf\<close>,
  \<open>infinity\<close>, \<open>nan\<close> or \<open>nan(...)\<close> in any case. The value is the nearest double; a number that
  overflows, or that is not zero and underflows to zero, is out of range.
\<close>

section \<open>Scanning\<close>

definition to_lower :: "char \<Rightarrow> char" where
  "to_lower c = (if 65 \<le> (of_char c :: nat) \<and> (of_char c :: nat) \<le> 90 then char_of (of_char c + (32 :: nat)) else c)"

definition match_word :: "string \<Rightarrow> string \<Rightarrow> string option" where
  "match_word w s = (if map to_lower (take (length w) s) = w then Some (drop (length w) s) else None)"

definition scan_exponent :: "string \<Rightarrow> int \<times> string" where
  "scan_exponent s = (case s of
      [] \<Rightarrow> (0, s)
    | c # r \<Rightarrow>
        if c = CHR ''e'' \<or> c = CHR ''E'' then
          (let (negative, r) = (case r of
               d # r' \<Rightarrow> if d = CHR ''-'' then (True, r') else if d = CHR ''+'' then (False, r') else (False, r)
             | [] \<Rightarrow> (False, r));
               digits = takeWhile is_digit r
           in if digits = [] then (0, s)
              else ((if negative then - decimal_value digits else decimal_value digits), dropWhile is_digit r))
        else (0, s))"

text \<open>The digits as a number, the power of ten, and the rest.\<close>

definition scan_decimal :: "string \<Rightarrow> (nat \<times> int \<times> string) option" where
  "scan_decimal s =
     (let whole = takeWhile is_digit s; r = dropWhile is_digit s;
          (fraction, r) = (case r of
             c # r' \<Rightarrow> if c = CHR ''.'' then (takeWhile is_digit r', dropWhile is_digit r') else ([], r)
           | [] \<Rightarrow> ([], r))
      in if whole = [] \<and> fraction = [] then None
         else (let (e, r) = scan_exponent r
               in Some (nat (decimal_value (whole @ fraction)), e - int (length fraction), r)))"

definition skip_nan_payload :: "string \<Rightarrow> string" where
  "skip_nan_payload s = (case s of
      [] \<Rightarrow> s
    | c # r \<Rightarrow>
        (let body = takeWhile (\<lambda>x. is_digit x \<or> x = CHR ''_'' \<or>
               (97 \<le> (of_char (to_lower x) :: nat) \<and> (of_char (to_lower x) :: nat) \<le> 122)) r;
             rest = drop (length body) r
         in if c = CHR ''('' \<and> rest \<noteq> [] \<and> hd rest = CHR '')'' then tl rest else s))"

section \<open>Values\<close>

definition f64_of_decimal :: "nat \<Rightarrow> int \<Rightarrow> float64" where
  "f64_of_decimal n e =
     (if 0 \<le> e then f64_of_ratio (n * 10 ^ nat e) 1 else f64_of_ratio n (10 ^ nat (- e)))"

definition with_sign :: "bool \<Rightarrow> float64 \<Rightarrow> float64" where
  "with_sign negative x = (if negative then Float64 (bits64 x OR push_bit 63 1) else x)"

definition f64_inf :: float64 where "f64_inf = Float64 0x7FF0000000000000"
definition f64_nan :: float64 where "f64_nan = Float64 0x7FF8000000000000"

definition from_chars_double :: "string \<Rightarrow> string \<times> (from_chars_error + float64)" where
  "from_chars_double text =
     (let (negative, s) = (case text of
          c # r \<Rightarrow> if c = CHR ''-'' then (True, r) else (False, text)
        | [] \<Rightarrow> (False, text))
      in case scan_decimal s of
           Some (n, e, rest) \<Rightarrow>
             (let x = f64_of_decimal n e in
              if \<not> isfinite64 x \<or> n \<noteq> 0 \<and> scaled64 x = 0 then (rest, Inl ResultOutOfRange)
              else (rest, Inr (with_sign negative x)))
         | None \<Rightarrow>
             (case match_word ''infinity'' s of
                Some rest \<Rightarrow> (rest, Inr (with_sign negative f64_inf))
              | None \<Rightarrow>
                  (case match_word ''inf'' s of
                     Some rest \<Rightarrow> (rest, Inr (with_sign negative f64_inf))
                   | None \<Rightarrow>
                       (case match_word ''nan'' s of
                          Some rest \<Rightarrow> (skip_nan_payload rest, Inr (with_sign negative f64_nan))
                        | None \<Rightarrow> (text, Inl InvalidArgument)))))"

definition parse_whole_double :: "string \<Rightarrow> float64 option" where
  "parse_whole_double text = (case from_chars_double text of
      ([], Inr value) \<Rightarrow> Some value
    | _ \<Rightarrow> None)"

end
