(* ===== verification/Os_Io.thy ===== *)
theory Os_Io
  imports Prelude Wire
begin

text \<open>
  The operating system as a parameter, and the monad of code that calls it.

  \<open>'w os\<close> is the record of the system and libc calls the repository makes, over an unknown world
  \<open>'w\<close>: each call returns what the source looks at (an error number, or the values written) and the
  next world. Nothing is assumed of them here. An action of type \<open>('w, 'a) io\<close> returns or throws a
  C++ exception and leaves a new \<open>machine\<close>: the world, and the file descriptors the program has
  open. The descriptors are tracked so that leaks and double closes are visible to the theorems.
\<close>

section \<open>System calls\<close>

type_synonym fd = int

datatype errno = EAGAIN | EWOULDBLOCK | EINTR | OtherErrno nat

text \<open>\<open>sockaddr_in\<close>: the port in network byte order, as its two bytes.\<close>

record sockaddr =
  sin_addr :: u32
  sin_port :: bytes

datatype pton_result = PtonOk u32 | PtonInvalid | PtonError errno

text \<open>What \<open>recvmsg\<close> reports: the datagram bytes it counts, \<open>MSG_TRUNC\<close>, and the sender.\<close>

record received_message =
  rm_data :: bytes
  rm_truncated :: bool
  rm_name :: sockaddr

record epoll_event =
  ev_events :: u32
  ev_data :: u64

record 'w os =
  sys_socket :: "'w \<Rightarrow> (errno + fd) \<times> 'w"
  sys_bind :: "fd \<Rightarrow> sockaddr \<Rightarrow> 'w \<Rightarrow> (errno + unit) \<times> 'w"
  sys_getsockname :: "fd \<Rightarrow> 'w \<Rightarrow> (errno + sockaddr) \<times> 'w"
  sys_fcntl_getfl :: "fd \<Rightarrow> 'w \<Rightarrow> (errno + u32) \<times> 'w"
  sys_fcntl_setfl :: "fd \<Rightarrow> u32 \<Rightarrow> 'w \<Rightarrow> (errno + unit) \<times> 'w"
  sys_recvmsg :: "fd \<Rightarrow> nat \<Rightarrow> 'w \<Rightarrow> (errno + received_message) \<times> 'w"
  sys_sendto :: "fd \<Rightarrow> bytes \<Rightarrow> sockaddr \<Rightarrow> 'w \<Rightarrow> (errno + nat) \<times> 'w"
  sys_close :: "fd \<Rightarrow> 'w \<Rightarrow> 'w"
  sys_epoll_create :: "'w \<Rightarrow> (errno + fd) \<times> 'w"
  sys_epoll_add :: "fd \<Rightarrow> fd \<Rightarrow> epoll_event \<Rightarrow> 'w \<Rightarrow> (errno + unit) \<times> 'w"
  sys_epoll_wait :: "fd \<Rightarrow> nat \<Rightarrow> nat \<Rightarrow> 'w \<Rightarrow> (errno + epoll_event list) \<times> 'w"
  lib_inet_pton :: "string \<Rightarrow> pton_result"
  lib_inet_ntop :: "u32 \<Rightarrow> errno + string"
  lib_steady_now :: "'w \<Rightarrow> u64 \<times> 'w"

section \<open>Actions\<close>

record 'w machine =
  m_world :: 'w
  m_open :: "fd list"

type_synonym ('w, 'a) io = "'w machine \<Rightarrow> 'a cpp \<times> 'w machine"

definition io_return :: "'a \<Rightarrow> ('w, 'a) io" where "io_return x s = (Inr x, s)"
definition io_throw :: "cpp_exception \<Rightarrow> ('w, 'a) io" where "io_throw e s = (Inl e, s)"

definition io_bind :: "('w, 'a) io \<Rightarrow> ('a \<Rightarrow> ('w, 'b) io) \<Rightarrow> ('w, 'b) io" where
  "io_bind m f s = (case m s of (Inl e, s') \<Rightarrow> (Inl e, s') | (Inr x, s') \<Rightarrow> f x s')"

text \<open>A call of the system, and one without effect.\<close>

definition io_call :: "('w \<Rightarrow> 'a \<times> 'w) \<Rightarrow> ('w, 'a) io" where
  "io_call f s = (let (x, w) = f (m_world s) in (Inr x, s\<lparr>m_world := w\<rparr>))"

definition io_cpp :: "'a cpp \<Rightarrow> ('w, 'a) io" where "io_cpp m s = (m, s)"

text \<open>\<open>throw_system_error(operation)\<close> on an error result.\<close>

definition io_check :: "string \<Rightarrow> errno + 'a \<Rightarrow> ('w, 'a) io" where
  "io_check operation r = (case r of Inl e \<Rightarrow> io_throw (System_error operation) | Inr x \<Rightarrow> io_return x)"

text \<open>A new descriptor, and \<open>close\<close>: destructors close a descriptor that is not negative.\<close>

definition io_opened :: "fd \<Rightarrow> ('w, unit) io" where
  "io_opened d s = (Inr (), s\<lparr>m_open := d # m_open s\<rparr>)"

definition io_close :: "'w os \<Rightarrow> fd \<Rightarrow> 'w machine \<Rightarrow> 'w machine" where
  "io_close os d s =
     (if 0 \<le> d then s\<lparr>m_world := sys_close os d (m_world s), m_open := remove1 d (m_open s)\<rparr> else s)"

text \<open>Stack unwinding: when the rest of the scope throws, the destructors close the descriptors.\<close>

definition io_guarded :: "'w os \<Rightarrow> fd list \<Rightarrow> ('w, 'a) io \<Rightarrow> ('w, 'a) io" where
  "io_guarded os ds m s = (case m s of
      (Inl e, s') \<Rightarrow> (Inl e, fold (io_close os) ds s')
    | (Inr x, s') \<Rightarrow> (Inr x, s'))"

named_theorems io_simps "unfolding actions"

lemma io_return_eq [simp, io_simps]: "io_return x s = (Inr x, s)" by (simp add: io_return_def)
lemma io_throw_eq [simp, io_simps]: "io_throw e s = (Inl e, s)" by (simp add: io_throw_def)
lemma io_cpp_eq [simp, io_simps]: "io_cpp m s = (m, s)" by (simp add: io_cpp_def)
lemma io_opened_eq [simp, io_simps]: "io_opened d s = (Inr (), s\<lparr>m_open := d # m_open s\<rparr>)"
  by (simp add: io_opened_def)

lemma io_bind_eq [io_simps]:
  "io_bind m f s = (case fst (m s) of Inl e \<Rightarrow> (Inl e, snd (m s)) | Inr x \<Rightarrow> f x (snd (m s)))"
  by (simp add: io_bind_def split: prod.splits sum.splits)

lemma io_call_eq [io_simps]: "io_call f s = (Inr (fst (f (m_world s))), s\<lparr>m_world := snd (f (m_world s))\<rparr>)"
  by (simp add: io_call_def split: prod.splits)

lemma io_bind_InrE:
  assumes "io_bind m f s = (Inr y, t)"
  obtains x u where "m s = (Inr x, u)" "f x u = (Inr y, t)"
  using assms by (auto simp: io_bind_def split: prod.splits sum.splits)

lemma io_bind_assoc: "io_bind (io_bind m f) g = io_bind m (\<lambda>x. io_bind (f x) g)"
  by (rule ext) (simp add: io_bind_def split: prod.splits sum.splits)

text \<open>Actions that neither open nor close a descriptor.\<close>

definition fd_neutral :: "('w, 'a) io \<Rightarrow> bool" where
  "fd_neutral m \<longleftrightarrow> (\<forall>s. m_open (snd (m s)) = m_open s)"

lemma fd_neutral_intros [intro!, simp]:
  "fd_neutral (io_return x)" "fd_neutral (io_throw e)" "fd_neutral (io_cpp c)" "fd_neutral (io_call f)"
  "fd_neutral (io_check op r)"
  by (simp_all add: fd_neutral_def io_call_eq io_check_def split: sum.split)

lemma fd_neutral_bind [intro!]: "fd_neutral m \<Longrightarrow> (\<And>x. fd_neutral (f x)) \<Longrightarrow> fd_neutral (io_bind m f)"
  by (auto simp: fd_neutral_def io_bind_eq split: sum.split)

lemma fd_neutralD: "fd_neutral m \<Longrightarrow> m_open (snd (m s)) = m_open s"
  by (simp add: fd_neutral_def)

end
