(* ===== verification/Crc32.thy ===== *)
theory Crc32
  imports Wire
begin

text \<open>
  The checksum of \<open>src/src/protocol/packet.cpp\<close> (\<open>update_crc\<close>, \<open>packet_crc\<close>, \<open>crc32\<close>):
  a byte is folded into the low end of the register, which is then shifted eight times.

  The lemmas: the register step is linear and injective, the byte-wise routine equals the
  bit-serial shift register that defines CRC-32/ISO-HDLC, and two messages that differ inside
  one window of at most four bytes never share a checksum.
\<close>

definition kCrcInitialState :: u32 where "kCrcInitialState = 0xffffffff"
definition kCrcPolynomial :: u32 where "kCrcPolynomial = 0xedb88320"

section \<open>The routine of the source\<close>

definition crc_shift :: "u32 \<Rightarrow> u32" where
  "crc_shift state =
     (let mask = 0 - (state AND 1) in drop_bit 1 state XOR (kCrcPolynomial AND mask))"

fun crc_bit_loop :: "nat \<Rightarrow> u32 \<Rightarrow> u32" where
  "crc_bit_loop 0 state = state"
| "crc_bit_loop (Suc k) state = crc_bit_loop k (crc_shift state)"

fun update_crc :: "u32 \<Rightarrow> bytes \<Rightarrow> u32" where
  "update_crc state [] = state"
| "update_crc state (byte # rest) = update_crc (crc_bit_loop 8 (state XOR ucast byte)) rest"

definition packet_crc :: "bytes \<Rightarrow> bytes \<Rightarrow> u32" where
  "packet_crc header_without_crc payload =
     (let state = update_crc kCrcInitialState header_without_crc;
          state = update_crc state payload
      in state XOR kCrcInitialState)"

definition crc32 :: "bytes \<Rightarrow> u32" where
  "crc32 bs = update_crc kCrcInitialState bs XOR kCrcInitialState"

section \<open>Exclusive or cancels\<close>

lemma xor_zero_iff: "s XOR t = 0 \<longleftrightarrow> s = t" for s t :: "'a::len word"
  by (auto simp: bit_eq_iff bit_simps)

lemma xor_cancel:
  fixes s t x :: "'a::len word"
  shows "s XOR x = t XOR x \<longleftrightarrow> s = t" and "x XOR s = x XOR t \<longleftrightarrow> s = t"
  by (auto simp: bit_eq_iff bit_simps)

section \<open>The shift is linear and injective\<close>

lemma crc_shift_alt: "crc_shift s = drop_bit 1 s XOR (if bit s 0 then kCrcPolynomial else 0)"
proof (cases "odd s")
  case True
  then have "s AND 1 = 1" by (simp add: and_one_eq odd_iff_mod_2_eq_one)
  with True show ?thesis by (simp add: crc_shift_def bit_0)
next
  case False
  then have "s AND 1 = 0" by (simp add: and_one_eq even_iff_mod_2_eq_zero)
  with False show ?thesis by (simp add: crc_shift_def bit_0)
qed

lemma crc_shift_xor: "crc_shift (s XOR t) = crc_shift s XOR crc_shift t"
  by (rule bit_word_eqI) (auto simp: crc_shift_alt bit_simps)

lemma crc_shift_top: "bit (crc_shift s) 31 = bit s 0"
proof -
  have "bit kCrcPolynomial 31" by (simp add: kCrcPolynomial_def bit_numeral_rec)
  moreover have "\<not> bit s 32" using bit_imp_le_length [of s 32] by auto
  ultimately show ?thesis by (simp add: crc_shift_alt bit_simps)
qed

lemma crc_shift_zero: "crc_shift s = 0 \<longleftrightarrow> s = 0"
proof
  assume z: "crc_shift s = 0"
  then have b0: "\<not> bit s 0" using crc_shift_top [of s] by simp
  with z have d: "drop_bit 1 s = 0" by (simp add: crc_shift_alt)
  show "s = 0"
  proof (rule bit_word_eqI)
    fix k assume "k < LENGTH(32)"
    show "bit s k = bit (0 :: u32) k"
    proof (cases k)
      case (Suc j)
      have "bit (drop_bit 1 s) j = bit s k" by (simp add: bit_simps Suc)
      with d show ?thesis by simp
    qed (simp add: b0)
  qed
qed (simp add: crc_shift_alt)

lemma crc_bit_loop_xor: "crc_bit_loop n (s XOR t) = crc_bit_loop n s XOR crc_bit_loop n t"
  by (induction n arbitrary: s t) (simp_all add: crc_shift_xor)

lemma crc_bit_loop_zero: "crc_bit_loop n s = 0 \<longleftrightarrow> s = 0"
  by (induction n arbitrary: s) (simp_all add: crc_shift_zero)

lemma crc_bit_loop_inj: "crc_bit_loop n s = crc_bit_loop n t \<longleftrightarrow> s = t"
proof -
  have "crc_bit_loop n s = crc_bit_loop n t \<longleftrightarrow> crc_bit_loop n (s XOR t) = 0"
    by (simp only: crc_bit_loop_xor xor_zero_iff)
  then show ?thesis by (simp only: crc_bit_loop_zero xor_zero_iff)
qed

lemma crc_bit_loop_Suc: "crc_bit_loop (Suc n) s = crc_shift (crc_bit_loop n s)"
  by (induction n arbitrary: s) simp_all

lemma crc_bit_loop_add: "crc_bit_loop (m + n) s = crc_bit_loop n (crc_bit_loop m s)"
  by (induction m arbitrary: s) simp_all

lemma update_crc_append: "update_crc s (xs @ ys) = update_crc (update_crc s xs) ys"
  by (induction xs arbitrary: s) simp_all

lemma update_crc_inj_state: "update_crc s xs = update_crc t xs \<longleftrightarrow> s = t"
proof (induction xs arbitrary: s t)
  case (Cons x xs)
  show ?case by (simp only: update_crc.simps crc_bit_loop_inj Cons.IH xor_cancel)
qed simp

lemma packet_crc_append: "packet_crc h p = crc32 (h @ p)"
  by (simp add: packet_crc_def crc32_def update_crc_append)

section \<open>Equivalence with the bit-serial register\<close>

text \<open>
  The definition of a reflected CRC: each message bit, least significant bit of each byte first,
  is added to the outgoing bit of the register, and the polynomial is subtracted when the sum
  is 1.
\<close>

definition crc_serial_step :: "u32 \<Rightarrow> bool \<Rightarrow> u32" where
  "crc_serial_step s b = drop_bit 1 s XOR (if bit s 0 \<noteq> b then kCrcPolynomial else 0)"

definition byte_bits :: "u8 \<Rightarrow> bool list" where
  "byte_bits b = map (bit b) [0..<8]"

definition crc_serial :: "u32 \<Rightarrow> bytes \<Rightarrow> u32" where
  "crc_serial s bs = foldl crc_serial_step s (concat (map byte_bits bs))"

lemma crc_bit_loop_serial:
  "crc_bit_loop n (s XOR t) = foldl crc_serial_step s (map (bit t) [0..<n]) XOR drop_bit n t"
proof (induction n)
  case (Suc n)
  let ?f = "foldl crc_serial_step s (map (bit t) [0..<n])"
  have "crc_bit_loop (Suc n) (s XOR t) = crc_shift (?f XOR drop_bit n t)"
    by (simp only: crc_bit_loop_Suc Suc.IH)
  also have "\<dots> = crc_serial_step ?f (bit t n) XOR drop_bit (Suc n) t"
    by (rule bit_word_eqI) (auto simp: crc_shift_alt crc_serial_step_def bit_simps)
  finally show ?case by simp
qed simp

lemma update_crc_serial: "update_crc s bs = crc_serial s bs"
proof (induction bs arbitrary: s)
  case (Cons b bs)
  have "drop_bit 8 (ucast b :: u32) = 0" by (rule bit_word_eqI) (auto simp: bit_simps dest: bit_imp_le_length)
  moreover have "map (bit (ucast b :: u32)) [0..<8] = byte_bits b"
    by (auto simp: byte_bits_def bit_simps)
  ultimately have "crc_bit_loop 8 (s XOR ucast b) = foldl crc_serial_step s (byte_bits b)"
    by (simp only: crc_bit_loop_serial xor.right_neutral)
  with Cons show ?case by (simp add: crc_serial_def)
qed (simp add: crc_serial_def)

section \<open>Bursts of up to four bytes are detected\<close>

fun le_val :: "bytes \<Rightarrow> u32" where
  "le_val [] = 0"
| "le_val (b # bs) = ucast b XOR push_bit 8 (le_val bs)"

lemma bit_le_val:
  "bit (le_val bs) k \<longleftrightarrow> k < 32 \<and> k div 8 < length bs \<and> bit (bs ! (k div 8)) (k mod 8)"
proof (induction bs arbitrary: k)
  case (Cons b bs)
  show ?case
  proof (cases "k < 8")
    case True
    then show ?thesis by (auto simp: bit_simps)
  next
    case False
    then obtain j where j: "k = j + 8" by (metis add.commute le_Suc_ex not_less)
    have d: "(j + 8) div 8 = Suc (j div 8)" by simp
    have "\<not> bit b k" using False by (auto dest: bit_imp_le_length)
    then show ?thesis using Cons.IH [of j] by (auto simp: bit_simps j d)
  qed
qed simp

lemma le_val_inj:
  assumes "length xs = length ys" "length xs \<le> 4" "le_val xs = le_val ys"
  shows "xs = ys"
proof (rule nth_equalityI)
  fix i assume i: "i < length xs"
  show "xs ! i = ys ! i"
  proof (rule bit_word_eqI)
    fix k assume "k < LENGTH(8)"
    then have k: "(8 * i + k) div 8 = i" "(8 * i + k) mod 8 = k" "8 * i + k < 32"
      using i assms(2) by auto
    have "bit (le_val xs) (8 * i + k) = bit (le_val ys) (8 * i + k)" by (simp add: assms(3))
    then show "bit (xs ! i) k = bit (ys ! i) k" using i k assms(1) by (simp add: bit_le_val)
  qed
qed fact

lemma crc_bit_loop_high:
  assumes "\<And>k. k < n \<Longrightarrow> \<not> bit t k"
  shows "crc_bit_loop n t = drop_bit n t"
proof -
  have "map (bit t) [0..<n] = replicate n False"
    using assms by (intro nth_equalityI) auto
  moreover have "foldl crc_serial_step 0 (replicate n False) = 0" for n
    by (induction n) (simp_all add: crc_serial_step_def)
  ultimately show ?thesis using crc_bit_loop_serial [of n 0 t] by simp
qed

lemma update_crc_short:
  "length xs \<le> 4 \<Longrightarrow> update_crc s xs = crc_bit_loop (8 * length xs) (s XOR le_val xs)"
proof (induction xs arbitrary: s)
  case (Cons x xs)
  let ?t = "push_bit 8 (le_val xs)"
  have "drop_bit 8 ?t = le_val xs"
    using Cons.prems by (intro bit_word_eqI) (auto simp: bit_simps bit_le_val)
  then have up: "crc_bit_loop 8 ?t = le_val xs"
    by (subst crc_bit_loop_high) (auto simp: bit_simps)
  have "update_crc s (x # xs) = crc_bit_loop (8 * length xs) (crc_bit_loop 8 (s XOR ucast x) XOR le_val xs)"
    using Cons by simp
  also have "\<dots> = crc_bit_loop (8 * length xs) (crc_bit_loop 8 ((s XOR ucast x) XOR ?t))"
    by (simp only: crc_bit_loop_xor up)
  also have "\<dots> = crc_bit_loop (8 * length (x # xs)) (s XOR le_val (x # xs))"
    by (simp only: crc_bit_loop_add [symmetric] le_val.simps xor.assoc) simp
  finally show ?case .
qed simp

lemma update_crc_short_inj:
  assumes "length xs = length ys" "length xs \<le> 4" "update_crc s xs = update_crc s ys"
  shows "xs = ys"
proof -
  have "crc_bit_loop (8 * length xs) (s XOR le_val xs) = crc_bit_loop (8 * length xs) (s XOR le_val ys)"
    using assms by (simp add: update_crc_short)
  then have "s XOR le_val xs = s XOR le_val ys" by (simp only: crc_bit_loop_inj)
  then have "le_val xs = le_val ys" by (simp only: xor_cancel)
  with assms show ?thesis by (blast intro: le_val_inj)
qed

lemma crc32_inj_mid: "crc32 xs = crc32 ys \<longleftrightarrow>
    update_crc kCrcInitialState xs = update_crc kCrcInitialState ys"
  by (simp only: crc32_def xor_cancel)

lemma crc32_burst:
  assumes "length ds = length es" "length ds \<le> 4" "ds \<noteq> es"
  shows "crc32 (pre @ ds @ post) \<noteq> crc32 (pre @ es @ post)"
  using assms update_crc_short_inj [of ds es]
  by (auto simp: crc32_inj_mid update_crc_append update_crc_inj_state)

section \<open>Properties\<close>

text \<open>C5. The checksum is CRC-32/ISO-HDLC: the byte-wise routine of the source equals the bit-serial
  shift register that takes each message byte least significant bit first, starting from all
  ones and inverting the result, and it has that CRC's published check value on the ASCII digits
  \<open>123456789\<close>.\<close>

theorem crc32_is_iso_hdlc:
  "crc32 bs = NOT (foldl crc_serial_step 0xffffffff (concat (map byte_bits bs)))
   \<and> crc32 [0x31, 0x32, 0x33, 0x34, 0x35, 0x36, 0x37, 0x38, 0x39] = 0xcbf43926"
proof
  have "s XOR kCrcInitialState = NOT s" for s :: u32
  proof -
    have "kCrcInitialState = - 1" by (simp add: kCrcInitialState_def)
    then show ?thesis by (simp add: bit_eq_iff bit_simps)
  qed
  then show "crc32 bs = NOT (foldl crc_serial_step 0xffffffff (concat (map byte_bits bs)))"
    by (simp add: crc32_def update_crc_serial crc_serial_def kCrcInitialState_def)
  show "crc32 [0x31, 0x32, 0x33, 0x34, 0x35, 0x36, 0x37, 0x38, 0x39] = 0xcbf43926"
    by code_simp
qed

end
