(* ===== verification/Codec.thy ===== *)
theory Codec
  imports Prelude
begin

text \<open>
  The contract of a validating codec over byte vectors: an encoder that may throw, a decoder of
  untrusted bytes that never does, and agreement of the two. \<open>checked_codec\<close> is the contract of
  the packet envelope, \<open>typed_codec\<close> that of the sensor payloads, whose decoder is selected by a
  message type carried outside the bytes. \<open>framed_codec\<close> puts a typed body into a checked
  frame, as the simulator and the runtime do, and is again a checked codec.
\<close>

locale typed_codec =
  fixes enc :: "'v \<Rightarrow> bytes cpp"
    and dec :: "'t \<Rightarrow> bytes \<Rightarrow> 'v option cpp"
    and tag :: "'v \<Rightarrow> 't"
  assumes dec_total: "\<exists>r. dec t bs = Inr r"
    and dec_enc: "enc v = Inr bs \<Longrightarrow> dec (tag v) bs = Inr (Some v)"
    and enc_dec: "dec t bs = Inr (Some v) \<Longrightarrow> enc v = Inr bs \<and> tag v = t"
begin

lemma enc_inj: "enc v = Inr bs \<Longrightarrow> enc w = Inr bs \<Longrightarrow> tag v = tag w \<Longrightarrow> v = w"
  by (metis dec_enc option.inject sum.inject(2))

lemma dec_inj: "dec t bs = Inr (Some v) \<Longrightarrow> dec t cs = Inr (Some v) \<Longrightarrow> bs = cs"
  by (metis enc_dec sum.inject(2))

lemma accepts_iff: "dec t bs = Inr (Some v) \<longleftrightarrow> enc v = Inr bs \<and> tag v = t"
  using dec_enc enc_dec by metis

lemma rejects_iff: "dec t bs = Inr None \<longleftrightarrow> (\<nexists>v. enc v = Inr bs \<and> tag v = t)"
proof -
  obtain r where r: "dec t bs = Inr r" using dec_total by blast
  then show ?thesis by (cases r) (auto simp flip: accepts_iff)
qed

end

locale checked_codec =
  fixes enc :: "'v \<Rightarrow> bytes cpp"
    and dec :: "bytes \<Rightarrow> 'v option cpp"
  assumes returns: "\<exists>r. dec bs = Inr r"
    and decodes: "enc v = Inr bs \<Longrightarrow> dec bs = Inr (Some v)"
    and canonical: "dec bs = Inr (Some v) \<Longrightarrow> enc v = Inr bs"

sublocale checked_codec \<subseteq> typed_codec enc "\<lambda>_ :: unit. dec" "\<lambda>_. ()"
  by unfold_locales (auto intro: returns decodes canonical)

locale framed_codec =
  frame: checked_codec fenc fdec + body: typed_codec enc dec tag
  for fenc :: "'t \<times> 'm \<times> bytes \<Rightarrow> bytes cpp"
    and fdec :: "bytes \<Rightarrow> ('t \<times> 'm \<times> bytes) option cpp"
    and enc :: "'v \<Rightarrow> bytes cpp"
    and dec :: "'t \<Rightarrow> bytes \<Rightarrow> 'v option cpp"
    and tag :: "'v \<Rightarrow> 't" +
  fixes send :: "'m \<times> 'v \<Rightarrow> bytes cpp"
    and receive :: "bytes \<Rightarrow> ('m \<times> 'v) option cpp"
  assumes send_def: "send mv = cbind (enc (snd mv)) (\<lambda>b. fenc (tag (snd mv), fst mv, b))"
    and receive_def: "receive bs = cbind (fdec bs) (\<lambda>r. case r of
        None \<Rightarrow> Inr None
      | Some (t, m, b) \<Rightarrow> cbind (dec t b) (\<lambda>v. Inr (map_option (Pair m) v)))"
begin

lemma receive_accepts_iff:
  "receive bs = Inr (Some (m, v)) \<longleftrightarrow>
     (\<exists>b. enc v = Inr b \<and> fenc (tag v, m, b) = Inr bs)"
proof
  assume "receive bs = Inr (Some (m, v))"
  then obtain t b where "fdec bs = Inr (Some (t, m, b))" "dec t b = Inr (Some v)"
    by (auto simp: receive_def cbind_eq_Inr_iff split: option.splits)
  then show "\<exists>b. enc v = Inr b \<and> fenc (tag v, m, b) = Inr bs"
    using frame.canonical body.enc_dec by metis
next
  assume "\<exists>b. enc v = Inr b \<and> fenc (tag v, m, b) = Inr bs"
  then obtain b where "enc v = Inr b" "fenc (tag v, m, b) = Inr bs" by blast
  then show "receive bs = Inr (Some (m, v))"
    by (simp add: receive_def frame.decodes body.dec_enc)
qed

lemma send_eq_Inr_iff:
  "send (m, v) = Inr bs \<longleftrightarrow> (\<exists>b. enc v = Inr b \<and> fenc (tag v, m, b) = Inr bs)"
  by (simp add: send_def cbind_eq_Inr_iff)

lemma receive_total: "\<exists>r. receive bs = Inr r"
proof -
  obtain r where r: "fdec bs = Inr r" using frame.returns by blast
  show ?thesis
  proof (cases r)
    case None
    then show ?thesis by (simp add: receive_def r)
  next
    case (Some x)
    obtain t m b where "x = (t, m, b)" by (cases x)
    then show ?thesis using body.dec_total [of t b] by (auto simp: receive_def r Some)
  qed
qed

end

sublocale framed_codec \<subseteq> framed: checked_codec send receive
proof
  show "\<exists>r. receive bs = Inr r" for bs by (rule receive_total)
  show "send mv = Inr bs \<Longrightarrow> receive bs = Inr (Some mv)" for mv bs
    by (cases mv) (simp add: send_eq_Inr_iff receive_accepts_iff)
  show "receive bs = Inr (Some mv) \<Longrightarrow> send mv = Inr bs" for mv bs
    by (cases mv) (simp add: send_eq_Inr_iff receive_accepts_iff)
qed

end
