(* ===== verification/Packet.thy ===== *)
theory Packet
  imports Crc32 Codec
begin

text \<open>
  The packet envelope of \<open>include/driveflow/protocol/packet.hpp\<close> and
  \<open>src/src/protocol/packet.cpp\<close>: the header and packet structs, \<open>encode_packet\<close> and
  \<open>decode_packet\<close>. A field \<open>f\<close> of \<open>PacketHeader\<close> is \<open>hdr_f\<close>, of \<open>Packet\<close> it is \<open>pkt_f\<close>.

  \<open>encode_packet_layout\<close> and \<open>decode_packet_eq\<close> reduce the two routines, written over checked
  spans as in the source, to a byte layout and a chain of checks; every property of the
  envelope follows from these two.
\<close>

section \<open>Data\<close>

definition kPacketMagic :: u32 where "kPacketMagic = 0x4452464c"
definition kProtocolVersion :: u16 where "kProtocolVersion = 1"
definition kPacketHeaderSize :: nat where "kPacketHeaderSize = 32"
definition kMaxPayloadSize :: nat where "kMaxPayloadSize = 65475"

text \<open>
  \<open>enum class MessageType : std::uint16_t\<close> can hold any 16-bit value: the decoder casts the
  raw field before it checks it, and the encoder guards against values that are no enumerator.
\<close>

datatype message_type = MessageType (raw_type: u16)

definition kImu :: message_type where "kImu = MessageType 1"
definition kGnss :: message_type where "kGnss = MessageType 2"
definition kCameraMeta :: message_type where "kCameraMeta = MessageType 3"

record packet_header =
  hdr_magic :: u32
  hdr_version :: u16
  hdr_message_type :: message_type
  hdr_sequence_number :: u64
  hdr_source_timestamp_ns :: u64
  hdr_payload_length :: u32
  hdr_crc32 :: u32

record packet =
  pkt_header :: packet_header
  pkt_payload :: bytes

datatype decode_error =
    DecodeNone
  | TruncatedHeader
  | InvalidMagic
  | UnsupportedVersion
  | UnknownMessageType
  | PayloadTooLarge
  | TruncatedPayload
  | LengthMismatch
  | CrcMismatch

record decode_result =
  dr_packet :: "packet option"
  dr_error :: decode_error

definition decode_failure :: "decode_error \<Rightarrow> decode_result" where
  "decode_failure e = \<lparr>dr_packet = None, dr_error = e\<rparr>"

section \<open>Header offsets\<close>

definition kMagicOffset :: nat where "kMagicOffset = 0"
definition kVersionOffset :: nat where "kVersionOffset = 4"
definition kMessageTypeOffset :: nat where "kMessageTypeOffset = 6"
definition kSequenceNumberOffset :: nat where "kSequenceNumberOffset = 8"
definition kTimestampOffset :: nat where "kTimestampOffset = 16"
definition kPayloadLengthOffset :: nat where "kPayloadLengthOffset = 24"
definition kCrcOffset :: nat where "kCrcOffset = 28"

lemmas header_offsets =
  kMagicOffset_def kVersionOffset_def kMessageTypeOffset_def kSequenceNumberOffset_def
  kTimestampOffset_def kPayloadLengthOffset_def kCrcOffset_def kPacketHeaderSize_def

section \<open>Operations\<close>

definition is_known_message_type :: "u16 \<Rightarrow> bool" where
  "is_known_message_type raw \<longleftrightarrow>
     MessageType raw = kImu \<or> MessageType raw = kGnss \<or> MessageType raw = kCameraMeta"

definition encode_packet :: "message_type \<Rightarrow> u64 \<Rightarrow> u64 \<Rightarrow> bytes \<Rightarrow> bytes cpp" where
  "encode_packet message_type sequence_number source_timestamp_ns payload =
     (let raw = raw_type message_type in
      throw_if (\<not> is_known_message_type raw) (Invalid_argument ''unknown DriveFlow message type'')
      (throw_if (length payload > kMaxPayloadSize)
         (Length_error ''DriveFlow payload exceeds the v1 limit'')
      (let encoded = replicate (kPacketHeaderSize + length payload) 0 in
       cbind (write_big_endian encoded kMagicOffset kPacketMagic) (\<lambda>encoded.
       cbind (write_big_endian encoded kVersionOffset kProtocolVersion) (\<lambda>encoded.
       cbind (write_big_endian encoded kMessageTypeOffset raw) (\<lambda>encoded.
       cbind (write_big_endian encoded kSequenceNumberOffset sequence_number) (\<lambda>encoded.
       cbind (write_big_endian encoded kTimestampOffset source_timestamp_ns) (\<lambda>encoded.
       cbind (write_big_endian encoded kPayloadLengthOffset (of_nat (length payload) :: u32)) (\<lambda>encoded.
       cbind (copy_into encoded kPacketHeaderSize payload) (\<lambda>encoded.
       cbind (span_first encoded kCrcOffset) (\<lambda>header_without_crc.
       cbind (subspan encoded kPacketHeaderSize) (\<lambda>encoded_payload.
       write_big_endian encoded kCrcOffset (packet_crc header_without_crc encoded_payload)))))))))))))"

definition decode_packet :: "bytes \<Rightarrow> decode_result cpp" where
  "decode_packet bs =
     (if length bs < kPacketHeaderSize then Inr (decode_failure TruncatedHeader) else
      cbind (read_big_endian bs kMagicOffset) (\<lambda>magic.
      cbind (read_big_endian bs kVersionOffset) (\<lambda>version.
      cbind (read_big_endian bs kMessageTypeOffset) (\<lambda>raw.
      cbind (read_big_endian bs kSequenceNumberOffset) (\<lambda>sequence_number.
      cbind (read_big_endian bs kTimestampOffset) (\<lambda>timestamp.
      cbind (read_big_endian bs kPayloadLengthOffset) (\<lambda>payload_length.
      cbind (read_big_endian bs kCrcOffset) (\<lambda>crc.
      let header = \<lparr>hdr_magic = magic, hdr_version = version, hdr_message_type = MessageType raw,
            hdr_sequence_number = sequence_number, hdr_source_timestamp_ns = timestamp,
            hdr_payload_length = payload_length, hdr_crc32 = crc\<rparr>
      in if hdr_magic header \<noteq> kPacketMagic then Inr (decode_failure InvalidMagic)
      else if hdr_version header \<noteq> kProtocolVersion then Inr (decode_failure UnsupportedVersion)
      else if \<not> is_known_message_type raw then Inr (decode_failure UnknownMessageType)
      else if unat (hdr_payload_length header) > kMaxPayloadSize
        then Inr (decode_failure PayloadTooLarge)
      else let expected_size = kPacketHeaderSize + unat (hdr_payload_length header)
      in if length bs < expected_size then Inr (decode_failure TruncatedPayload)
      else if length bs \<noteq> expected_size then Inr (decode_failure LengthMismatch)
      else cbind (span_first bs kCrcOffset) (\<lambda>header_without_crc.
      cbind (subspan bs kPacketHeaderSize) (\<lambda>payload.
      if packet_crc header_without_crc payload \<noteq> hdr_crc32 header
        then Inr (decode_failure CrcMismatch)
      else Inr \<lparr>dr_packet = Some \<lparr>pkt_header = header, pkt_payload = payload\<rparr>,
             dr_error = DecodeNone\<rparr>))))))))))"

definition decode_error_to_string :: "decode_error \<Rightarrow> string" where
  "decode_error_to_string e = (case e of
       DecodeNone \<Rightarrow> ''none''
     | TruncatedHeader \<Rightarrow> ''truncated header''
     | InvalidMagic \<Rightarrow> ''invalid magic''
     | UnsupportedVersion \<Rightarrow> ''unsupported version''
     | UnknownMessageType \<Rightarrow> ''unknown message type''
     | PayloadTooLarge \<Rightarrow> ''payload too large''
     | TruncatedPayload \<Rightarrow> ''truncated payload''
     | LengthMismatch \<Rightarrow> ''packet length mismatch''
     | CrcMismatch \<Rightarrow> ''CRC mismatch'')"

section \<open>The layout the encoder writes\<close>

definition header_bytes :: "message_type \<Rightarrow> u64 \<Rightarrow> u64 \<Rightarrow> u32 \<Rightarrow> bytes" where
  "header_bytes mt seq ts len = be_bytes kPacketMagic @ be_bytes kProtocolVersion
     @ be_bytes (raw_type mt) @ be_bytes seq @ be_bytes ts @ be_bytes len"

definition packet_bytes :: "message_type \<Rightarrow> u64 \<Rightarrow> u64 \<Rightarrow> bytes \<Rightarrow> bytes" where
  "packet_bytes mt seq ts payload =
     (let h = header_bytes mt seq ts (of_nat (length payload))
      in h @ be_bytes (crc32 (h @ payload)) @ payload)"

lemma length_header_bytes [simp]: "length (header_bytes mt seq ts len) = 28"
  by (simp add: header_bytes_def)

lemma length_packet_bytes [simp]: "length (packet_bytes mt seq ts p) = 32 + length p"
  by (simp add: packet_bytes_def Let_def)

lemma encode_packet_layout:
  "encode_packet mt seq ts payload =
     (if \<not> is_known_message_type (raw_type mt)
      then Inl (Invalid_argument ''unknown DriveFlow message type'')
      else if length payload > kMaxPayloadSize
      then Inl (Length_error ''DriveFlow payload exceeds the v1 limit'')
      else Inr (packet_bytes mt seq ts payload))"
  by (simp add: encode_packet_def header_offsets codec_simps copy_into_def packet_crc_append
      packet_bytes_def header_bytes_def Let_def)

section \<open>The checks the decoder makes\<close>

definition header_of :: "bytes \<Rightarrow> packet_header" where
  "header_of bs =
     \<lparr>hdr_magic = be_val (take 4 bs),
      hdr_version = be_val (take 2 (drop 4 bs)),
      hdr_message_type = MessageType (be_val (take 2 (drop 6 bs))),
      hdr_sequence_number = be_val (take 8 (drop 8 bs)),
      hdr_source_timestamp_ns = be_val (take 8 (drop 16 bs)),
      hdr_payload_length = be_val (take 4 (drop 24 bs)),
      hdr_crc32 = be_val (take 4 (drop 28 bs))\<rparr>"

text \<open>
  The documented validation order (docs/protocol.md): structural length, magic, version, type,
  size limit, exact packet length, CRC. Each entry is a condition and the error it raises.
\<close>

definition decode_checks :: "bytes \<Rightarrow> (bool \<times> decode_error) list" where
  "decode_checks bs =
     (let h = header_of bs; n = unat (hdr_payload_length h) in
      [(length bs < 32, TruncatedHeader),
       (hdr_magic h \<noteq> kPacketMagic, InvalidMagic),
       (hdr_version h \<noteq> kProtocolVersion, UnsupportedVersion),
       (hdr_message_type h \<notin> {kImu, kGnss, kCameraMeta}, UnknownMessageType),
       (n > kMaxPayloadSize, PayloadTooLarge),
       (length bs < 32 + n, TruncatedPayload),
       (length bs > 32 + n, LengthMismatch),
       (crc32 (take 28 bs @ drop 32 bs) \<noteq> hdr_crc32 h, CrcMismatch)])"

definition first_failure :: "(bool \<times> decode_error) list \<Rightarrow> decode_error" where
  "first_failure cs = (case find fst cs of None \<Rightarrow> DecodeNone | Some c \<Rightarrow> snd c)"

lemma first_failure_simps [simp]:
  "first_failure [] = DecodeNone"
  "first_failure ((c, e) # cs) = (if c then e else first_failure cs)"
  by (simp_all add: first_failure_def)

definition accepted_packet :: "bytes \<Rightarrow> packet" where
  "accepted_packet bs = \<lparr>pkt_header = header_of bs, pkt_payload = drop 32 bs\<rparr>"

definition decode_outcome :: "bytes \<Rightarrow> decode_result" where
  "decode_outcome bs =
     (let e = first_failure (decode_checks bs)
      in \<lparr>dr_packet = (if e = DecodeNone then Some (accepted_packet bs) else None), dr_error = e\<rparr>)"

lemma is_known_iff: "is_known_message_type (raw_type mt) \<longleftrightarrow> mt \<in> {kImu, kGnss, kCameraMeta}"
  by (cases mt) (auto simp: is_known_message_type_def)

lemma is_known_raw_iff: "is_known_message_type r \<longleftrightarrow> MessageType r \<in> {kImu, kGnss, kCameraMeta}"
  using is_known_iff [of "MessageType r"] by simp

lemma header_reads:
  assumes "32 \<le> length bs"
  shows "read_big_endian bs kMagicOffset = Inr (hdr_magic (header_of bs))"
    "read_big_endian bs kVersionOffset = Inr (hdr_version (header_of bs))"
    "read_big_endian bs kMessageTypeOffset = Inr (raw_type (hdr_message_type (header_of bs)))"
    "read_big_endian bs kSequenceNumberOffset = Inr (hdr_sequence_number (header_of bs))"
    "read_big_endian bs kTimestampOffset = Inr (hdr_source_timestamp_ns (header_of bs))"
    "read_big_endian bs kPayloadLengthOffset = Inr (hdr_payload_length (header_of bs))"
    "read_big_endian bs kCrcOffset = Inr (hdr_crc32 (header_of bs))"
  using assms by (simp_all add: header_offsets codec_simps header_of_def)

lemma header_of_rebuild:
  "\<lparr>hdr_magic = hdr_magic h, hdr_version = hdr_version h,
    hdr_message_type = MessageType (raw_type (hdr_message_type h)),
    hdr_sequence_number = hdr_sequence_number h,
    hdr_source_timestamp_ns = hdr_source_timestamp_ns h,
    hdr_payload_length = hdr_payload_length h, hdr_crc32 = hdr_crc32 h\<rparr> = h"
  by simp

lemma decode_packet_eq: "decode_packet bs = Inr (decode_outcome bs)"
proof (cases "length bs < 32")
  case True
  then show ?thesis
    by (simp add: decode_packet_def decode_outcome_def decode_checks_def decode_failure_def
        kPacketHeaderSize_def Let_def)
next
  case False
  then have len: "32 \<le> length bs" by simp
  obtain h n where h: "header_of bs = h" and n: "unat (hdr_payload_length h) = n" by blast
  show ?thesis
    unfolding decode_packet_def header_reads [OF len] cbind_Inr Let_def header_of_rebuild h n
      decode_outcome_def decode_checks_def accepted_packet_def decode_failure_def
    using len by (simp add: is_known_iff kPacketHeaderSize_def kCrcOffset_def packet_crc_append)
qed

lemma decode_accepts_iff:
  "dr_packet (decode_outcome bs) = Some p \<longleftrightarrow>
     p = accepted_packet bs \<and> (\<forall>c \<in> set (decode_checks bs). \<not> fst c)"
proof -
  have "first_failure (decode_checks bs) = DecodeNone \<longleftrightarrow> (\<forall>c \<in> set (decode_checks bs). \<not> fst c)"
    by (simp add: decode_checks_def Let_def)
  then show ?thesis by (auto simp: decode_outcome_def Let_def)
qed

section \<open>What the decoder accepts is what the encoder writes\<close>

lemma split_header:
  assumes "32 \<le> length bs"
  shows "bs = take 4 bs @ take 2 (drop 4 bs) @ take 2 (drop 6 bs) @ take 8 (drop 8 bs)
     @ take 8 (drop 16 bs) @ take 4 (drop 24 bs) @ take 4 (drop 28 bs) @ drop 32 bs"
proof -
  have step: "drop n bs = take m (drop n bs) @ drop (n + m) bs" for n m :: nat
    by (metis append_take_drop_id add.commute drop_drop)
  show ?thesis
    using step [of 0 4] step [of 4 2] step [of 6 2] step [of 8 8] step [of 16 8] step [of 24 4]
      step [of 28 4] by simp
qed

lemma header_of_packet_bytes:
  "header_of (packet_bytes mt seq ts payload) =
     \<lparr>hdr_magic = kPacketMagic, hdr_version = kProtocolVersion, hdr_message_type = mt,
      hdr_sequence_number = seq, hdr_source_timestamp_ns = ts,
      hdr_payload_length = of_nat (length payload),
      hdr_crc32 = crc32 (header_bytes mt seq ts (of_nat (length payload)) @ payload)\<rparr>"
  by (simp add: header_of_def packet_bytes_def header_bytes_def Let_def)

lemma drop_packet_bytes [simp]: "drop 32 (packet_bytes mt seq ts payload) = payload"
  and take_packet_bytes [simp]:
    "take 28 (packet_bytes mt seq ts payload) = header_bytes mt seq ts (of_nat (length payload))"
  by (simp_all add: packet_bytes_def Let_def)

lemma unat_payload_length:
  "n \<le> kMaxPayloadSize \<Longrightarrow> unat (of_nat n :: u32) = n"
  by (simp add: kMaxPayloadSize_def unat_of_nat)

lemma packet_bytes_pass:
  assumes "mt \<in> {kImu, kGnss, kCameraMeta}" and "length payload \<le> kMaxPayloadSize"
  shows "\<forall>c \<in> set (decode_checks (packet_bytes mt seq ts payload)). \<not> fst c"
  using assms by (simp add: decode_checks_def header_of_packet_bytes unat_payload_length Let_def)

lemma accepted_is_packet_bytes:
  assumes pass: "\<forall>c \<in> set (decode_checks bs). \<not> fst c"
  defines "h \<equiv> header_of bs"
  shows "bs = packet_bytes (hdr_message_type h) (hdr_sequence_number h)
      (hdr_source_timestamp_ns h) (drop 32 bs)"
    and "hdr_message_type h \<in> {kImu, kGnss, kCameraMeta}"
    and "length (drop 32 bs) \<le> kMaxPayloadSize"
proof -
  let ?p = "drop 32 bs"
  have len: "32 \<le> length bs" and magic: "hdr_magic h = kPacketMagic"
    and version: "hdr_version h = kProtocolVersion"
    and n: "unat (hdr_payload_length h) \<le> kMaxPayloadSize"
      "length bs = 32 + unat (hdr_payload_length h)"
    and crc: "crc32 (take 28 bs @ ?p) = hdr_crc32 h"
    using pass by (simp_all add: decode_checks_def h_def Let_def not_less not_le)
  show "hdr_message_type h \<in> {kImu, kGnss, kCameraMeta}" "length ?p \<le> kMaxPayloadSize"
    using pass n by (simp_all add: decode_checks_def h_def Let_def)
  have plen: "hdr_payload_length h = of_nat (length ?p)" using n by simp
  have enc: "be_bytes (hdr_magic h) = take 4 bs" "be_bytes (hdr_version h) = take 2 (drop 4 bs)"
    "be_bytes (raw_type (hdr_message_type h)) = take 2 (drop 6 bs)"
    "be_bytes (hdr_sequence_number h) = take 8 (drop 8 bs)"
    "be_bytes (hdr_source_timestamp_ns h) = take 8 (drop 16 bs)"
    "be_bytes (hdr_payload_length h) = take 4 (drop 24 bs)"
    "be_bytes (hdr_crc32 h) = take 4 (drop 28 bs)"
    using len by (simp_all add: h_def header_of_def wire_enc_dec)
  have "take 28 bs = take 4 bs @ take 2 (drop 4 bs) @ take 2 (drop 6 bs) @ take 8 (drop 8 bs)
     @ take 8 (drop 16 bs) @ take 4 (drop 24 bs)"
    by (subst (1) split_header [OF len]) (use len in simp)
  also have "\<dots> = header_bytes (hdr_message_type h) (hdr_sequence_number h)
      (hdr_source_timestamp_ns h) (of_nat (length ?p))"
    unfolding header_bytes_def plen [symmetric] magic [symmetric] version [symmetric] by (simp only: enc)
  finally have hd: "take 28 bs = \<dots>" .
  have split: "bs = take 28 bs @ take 4 (drop 28 bs) @ ?p"
    using append_take_drop_id [of 28 bs] append_take_drop_id [of 4 "drop 28 bs"] by simp
  show "bs = packet_bytes (hdr_message_type h) (hdr_sequence_number h)
      (hdr_source_timestamp_ns h) ?p"
    unfolding packet_bytes_def Let_def hd [symmetric] crc enc(7) by (rule split)
qed

section \<open>The envelope as a checked codec\<close>

text \<open>A frame is what a sender chooses: type, sequence number, timestamp and payload.\<close>

definition encode_frame :: "message_type \<times> (u64 \<times> u64) \<times> bytes \<Rightarrow> bytes cpp" where
  "encode_frame f = (case f of (mt, (seq, ts), payload) \<Rightarrow> encode_packet mt seq ts payload)"

definition frame_of :: "packet \<Rightarrow> message_type \<times> (u64 \<times> u64) \<times> bytes" where
  "frame_of p = (hdr_message_type (pkt_header p),
     (hdr_sequence_number (pkt_header p), hdr_source_timestamp_ns (pkt_header p)), pkt_payload p)"

definition decode_frame :: "bytes \<Rightarrow> (message_type \<times> (u64 \<times> u64) \<times> bytes) option cpp" where
  "decode_frame bs = cbind (decode_packet bs) (\<lambda>r. Inr (map_option frame_of (dr_packet r)))"

lemma encode_packet_eq_Inr_iff:
  "encode_packet mt seq ts payload = Inr bs \<longleftrightarrow>
     mt \<in> {kImu, kGnss, kCameraMeta} \<and> length payload \<le> kMaxPayloadSize
     \<and> bs = packet_bytes mt seq ts payload"
  by (auto simp: encode_packet_layout is_known_iff)

lemma decode_packet_bytes:
  assumes "mt \<in> {kImu, kGnss, kCameraMeta}" and "length payload \<le> kMaxPayloadSize"
  shows "dr_packet (decode_outcome (packet_bytes mt seq ts payload)) =
    Some \<lparr>pkt_header = header_of (packet_bytes mt seq ts payload), pkt_payload = payload\<rparr>"
  using packet_bytes_pass [OF assms] by (simp add: decode_accepts_iff accepted_packet_def)

interpretation envelope: checked_codec encode_frame decode_frame
proof
  show "\<exists>r. decode_frame bs = Inr r" for bs
    by (simp add: decode_frame_def decode_packet_eq)
  show "encode_frame f = Inr bs \<Longrightarrow> decode_frame bs = Inr (Some f)" for f bs
    by (auto simp: encode_frame_def decode_frame_def decode_packet_eq encode_packet_eq_Inr_iff
        decode_packet_bytes frame_of_def header_of_packet_bytes split: prod.splits)
  show "encode_frame f = Inr bs" if d: "decode_frame bs = Inr (Some f)" for f bs
  proof -
    from d have pass: "\<forall>c \<in> set (decode_checks bs). \<not> fst c" and f: "f = frame_of (accepted_packet bs)"
      by (auto simp: decode_frame_def decode_packet_eq decode_accepts_iff)
    show ?thesis
      unfolding f encode_frame_def frame_of_def accepted_packet_def
      using accepted_is_packet_bytes [OF pass] by (simp add: encode_packet_eq_Inr_iff)
  qed
qed

section \<open>Corruption is detected\<close>

lemma take_drop_window:
  assumes "k \<le> length pre"
  shows "take k (pre @ xs @ post) = take k pre" and "drop k (pre @ xs @ post) = drop k pre @ xs @ post"
  using assms by simp_all

lemma header_of_take: "header_of bs = header_of (take 32 bs)"
  by (simp add: header_of_def drop_take take_take min_def)

lemma crc_field_eq:
  assumes "length bs = length cs" "32 \<le> length bs"
    and "hdr_crc32 (header_of bs) = hdr_crc32 (header_of cs)"
  shows "take 4 (drop 28 bs) = take 4 (drop 28 cs)"
proof -
  have "be_bytes (hdr_crc32 (header_of bs)) = take 4 (drop 28 bs)"
    "be_bytes (hdr_crc32 (header_of cs)) = take 4 (drop 28 cs)"
    using assms(1,2) by (simp_all add: header_of_def wire_enc_dec)
  then show ?thesis using assms(3) by metis
qed

lemma accepted_crc:
  assumes "dr_packet (decode_outcome bs) \<noteq> None"
  shows "32 \<le> length bs" "crc32 (take 28 bs @ drop 32 bs) = hdr_crc32 (header_of bs)"
  using assms by (auto simp: decode_accepts_iff decode_checks_def Let_def)

lemma burst_not_accepted:
  assumes ok: "dr_packet (decode_outcome (pre @ ds @ post)) \<noteq> None"
    and len: "length ds = length es" "length ds \<le> 4" and ne: "ds \<noteq> es"
    and win: "length pre + length ds \<le> 28
      \<or> 28 \<le> length pre \<and> length pre + length ds \<le> 32 \<or> 32 \<le> length pre"
  shows "dr_packet (decode_outcome (pre @ es @ post)) = None"
proof (rule ccontr)
  let ?bs = "pre @ ds @ post" and ?cs = "pre @ es @ post"
  assume "dr_packet (decode_outcome ?cs) \<noteq> None"
  note cs = accepted_crc [OF this] and bs = accepted_crc [OF ok]
  consider (head) "length pre + length ds \<le> 28"
    | (crc) "28 \<le> length pre" "length pre + length ds \<le> 32"
    | (body) "32 \<le> length pre"
    using win by blast
  then show False
  proof cases
    case head
    obtain a where "take 28 ?bs @ drop 32 ?bs = pre @ ds @ a" "take 28 ?cs @ drop 32 ?cs = pre @ es @ a"
      using head len by simp
    moreover have "hdr_crc32 (header_of ?bs) = hdr_crc32 (header_of ?cs)"
      using head len by (simp add: header_of_def)
    ultimately have "crc32 (pre @ ds @ a) = crc32 (pre @ es @ a)" using bs(2) cs(2) by metis
    with crc32_burst [OF len ne] show False by blast
  next
    case crc
    have same: "take 28 ?bs = take 28 ?cs" "drop 32 ?bs = drop 32 ?cs"
      using crc len by simp_all
    then have "hdr_crc32 (header_of ?bs) = hdr_crc32 (header_of ?cs)" using bs(2) cs(2) by metis
    then have "take 4 (drop 28 ?bs) = take 4 (drop 28 ?cs)"
      by (rule crc_field_eq [rotated 2]) (use len bs(1) in simp_all)
    then have "ds = es" using crc len by (simp add: take_Cons' split: if_splits)
    with ne show False by blast
  next
    case body
    have "take 28 ?bs @ drop 32 ?bs = (take 28 pre @ drop 32 pre) @ ds @ post"
      "take 28 ?cs @ drop 32 ?cs = (take 28 pre @ drop 32 pre) @ es @ post"
      using body by simp_all
    moreover have "header_of ?bs = header_of ?cs"
      using body by (subst (1 2) header_of_take) simp
    ultimately have "crc32 ((take 28 pre @ drop 32 pre) @ ds @ post)
        = crc32 ((take 28 pre @ drop 32 pre) @ es @ post)"
      using bs(2) cs(2) by metis
    with crc32_burst [OF len ne] show False by blast
  qed
qed

lemma only_crc_can_fail:
  assumes ok: "dr_packet (decode_outcome bs) \<noteq> None"
    and bad: "dr_packet (decode_outcome cs) = None"
    and len: "length cs = length bs" and hd: "take 28 cs = take 28 bs"
  shows "decode_outcome cs = decode_failure CrcMismatch"
proof -
  have field: "take n (drop i cs) = take n (drop i bs)" if "i + n \<le> 28" for i n
  proof -
    have "take n (drop i xs) = drop i (take (i + n) (take 28 xs))" for xs :: bytes
      using that by (simp add: drop_take min_def)
    then show ?thesis by (simp only: hd)
  qed
  have eq: "hdr_magic (header_of cs) = hdr_magic (header_of bs)"
    "hdr_version (header_of cs) = hdr_version (header_of bs)"
    "hdr_message_type (header_of cs) = hdr_message_type (header_of bs)"
    "hdr_payload_length (header_of cs) = hdr_payload_length (header_of bs)"
    using field [of 0 4] field [of 4 2] field [of 6 2] field [of 24 4]
    by (simp_all add: header_of_def)
  obtain p where "dr_packet (decode_outcome bs) = Some p" using ok by blast
  then have "\<forall>c \<in> set (decode_checks bs). \<not> fst c" by (simp add: decode_accepts_iff)
  then have "first_failure (decode_checks cs) \<in> {DecodeNone, CrcMismatch}"
    by (simp add: decode_checks_def Let_def len eq)
  with bad show ?thesis
    by (auto simp: decode_outcome_def Let_def decode_failure_def split: if_splits)
qed

section \<open>Properties\<close>

text \<open>C1. Round trip of the envelope: for a known message type and a payload within the v1 limit,
  \<open>encode_packet\<close> returns a datagram of exactly header size plus payload size, within the IPv4
  UDP limit of 65507 bytes, and \<open>decode_packet\<close> of it accepts and gives back every header field
  and the payload.\<close>

theorem packet_roundtrip:
  assumes "mt \<in> {kImu, kGnss, kCameraMeta}" and "length payload \<le> kMaxPayloadSize"
  shows "\<exists>bs p. encode_packet mt seq ts payload = Inr bs
    \<and> length bs = kPacketHeaderSize + length payload \<and> length bs \<le> 65507
    \<and> decode_packet bs = Inr \<lparr>dr_packet = Some p, dr_error = DecodeNone\<rparr>
    \<and> pkt_payload p = payload \<and> hdr_message_type (pkt_header p) = mt
    \<and> hdr_sequence_number (pkt_header p) = seq \<and> hdr_source_timestamp_ns (pkt_header p) = ts
    \<and> hdr_magic (pkt_header p) = kPacketMagic \<and> hdr_version (pkt_header p) = kProtocolVersion
    \<and> unat (hdr_payload_length (pkt_header p)) = length payload"
proof -
  let ?bs = "packet_bytes mt seq ts payload"
  have "encode_packet mt seq ts payload = Inr ?bs"
    using assms by (simp add: encode_packet_eq_Inr_iff)
  moreover have "decode_packet ?bs = Inr \<lparr>dr_packet = Some (accepted_packet ?bs), dr_error = DecodeNone\<rparr>"
    using decode_packet_bytes [OF assms, of seq ts]
    by (auto simp: decode_packet_eq decode_outcome_def Let_def split: if_splits)
  moreover have "32 + length payload \<le> 65507" using assms(2) by (simp add: kMaxPayloadSize_def)
  ultimately show ?thesis
    using assms(2) by (intro exI [of _ ?bs] exI [of _ "accepted_packet ?bs"])
      (simp add: accepted_packet_def header_of_packet_bytes unat_payload_length kPacketHeaderSize_def)
qed

lemma packet_roundtrip_witness:
  "kGnss \<in> {kImu, kGnss, kCameraMeta} \<and> length [1, 2, 3 :: u8] \<le> kMaxPayloadSize \<and>
   (\<exists>bs p. encode_packet kGnss 7 9 [1, 2, 3] = Inr bs
     \<and> length bs = kPacketHeaderSize + length [1, 2, 3 :: u8] \<and> length bs \<le> 65507
     \<and> decode_packet bs = Inr \<lparr>dr_packet = Some p, dr_error = DecodeNone\<rparr>
     \<and> pkt_payload p = [1, 2, 3] \<and> hdr_message_type (pkt_header p) = kGnss
     \<and> hdr_sequence_number (pkt_header p) = 7 \<and> hdr_source_timestamp_ns (pkt_header p) = 9
     \<and> hdr_magic (pkt_header p) = kPacketMagic \<and> hdr_version (pkt_header p) = kProtocolVersion
     \<and> unat (hdr_payload_length (pkt_header p)) = length [1, 2, 3 :: u8])"
proof -
  have "kGnss \<in> {kImu, kGnss, kCameraMeta}" "length [1, 2, 3 :: u8] \<le> kMaxPayloadSize"
    by (simp_all add: kMaxPayloadSize_def)
  with packet_roundtrip [OF this, of 7 9] show ?thesis by blast
qed

text \<open>C2. The decoder is canonical: a datagram it accepts is byte for byte the one \<open>encode_packet\<close>
  writes for the fields of the packet it returns, so no two datagrams decode to the same packet
  and nothing of the input is ignored.\<close>

theorem packet_decode_canonical:
  assumes "decode_packet bs = Inr r" and "dr_packet r = Some p"
  shows "encode_packet (hdr_message_type (pkt_header p)) (hdr_sequence_number (pkt_header p))
      (hdr_source_timestamp_ns (pkt_header p)) (pkt_payload p) = Inr bs"
proof -
  have "decode_frame bs = Inr (Some (frame_of p))" using assms by (simp add: decode_frame_def)
  then have "encode_frame (frame_of p) = Inr bs" by (rule envelope.canonical)
  then show ?thesis by (simp add: encode_frame_def frame_of_def)
qed

lemma packet_decode_canonical_witness:
  "\<exists>bs r p. decode_packet bs = Inr r \<and> dr_packet r = Some p \<and> pkt_payload p = [42]
    \<and> encode_packet (hdr_message_type (pkt_header p)) (hdr_sequence_number (pkt_header p))
        (hdr_source_timestamp_ns (pkt_header p)) (pkt_payload p) = Inr bs"
proof -
  have "kImu \<in> {kImu, kGnss, kCameraMeta}" "length [42 :: u8] \<le> kMaxPayloadSize"
    by (simp_all add: kMaxPayloadSize_def)
  from decode_packet_bytes [OF this, of 1 2] obtain p where
    p: "dr_packet (decode_outcome (packet_bytes kImu 1 2 [42])) = Some p" "pkt_payload p = [42]"
    by simp
  with packet_decode_canonical [OF decode_packet_eq p(1)] show ?thesis
    by (blast intro: decode_packet_eq)
qed

text \<open>C3. The decoder is total and memory safe on untrusted bytes, and deterministic in its errors:
  for every byte vector it returns (no exception, no access outside the span), a packet is present
  exactly when the error is \<open>kNone\<close>, and the error is the first failing check in the documented
  order, size of the header, magic, version, message type, size limit, truncation, excess, CRC.\<close>

theorem decode_packet_first_failure:
  "decode_packet bs = Inr
     \<lparr>dr_packet = (if first_failure (decode_checks bs) = DecodeNone
        then Some \<lparr>pkt_header = header_of bs, pkt_payload = drop 32 bs\<rparr> else None),
      dr_error = first_failure (decode_checks bs)\<rparr>"
  by (simp add: decode_packet_eq decode_outcome_def accepted_packet_def Let_def)

text \<open>Outcome of \<open>encode_packet\<close> on every input: it throws \<open>std::invalid_argument\<close> exactly for a
  value that is no enumerator of \<open>MessageType\<close>, otherwise \<open>std::length_error\<close> exactly for a payload
  over the limit, and never writes or reads outside its buffer.\<close>

theorem encode_packet_outcome:
  "case encode_packet mt seq ts payload of
     Inl e \<Rightarrow> (mt \<notin> {kImu, kGnss, kCameraMeta}
         \<and> e = Invalid_argument ''unknown DriveFlow message type'')
       \<or> (mt \<in> {kImu, kGnss, kCameraMeta} \<and> kMaxPayloadSize < length payload
         \<and> e = Length_error ''DriveFlow payload exceeds the v1 limit'')
   | Inr bs \<Rightarrow> mt \<in> {kImu, kGnss, kCameraMeta} \<and> length payload \<le> kMaxPayloadSize
       \<and> length bs = kPacketHeaderSize + length payload"
  by (auto simp: encode_packet_layout is_known_iff kPacketHeaderSize_def)

text \<open>C4. Corruption is caught: change up to four consecutive bytes of an accepted datagram, all
  in the header before the CRC, all in the CRC field, or all in the payload, and the decoder
  rejects the result; for a change behind the first 28 bytes the error is the CRC mismatch.\<close>

theorem corruption_detected:
  assumes "dr_packet r = Some p" and "decode_packet (pre @ ds @ post) = Inr r"
    and "length ds = length es" and "length ds \<le> 4" and "ds \<noteq> es"
    and "length pre + length ds \<le> 28
      \<or> 28 \<le> length pre \<and> length pre + length ds \<le> 32 \<or> 32 \<le> length pre"
  shows "\<exists>e. decode_packet (pre @ es @ post) = Inr \<lparr>dr_packet = None, dr_error = e\<rparr>
    \<and> e \<noteq> DecodeNone \<and> (28 \<le> length pre \<longrightarrow> e = CrcMismatch)"
proof -
  have ok: "dr_packet (decode_outcome (pre @ ds @ post)) \<noteq> None"
    using assms(1,2) by (simp add: decode_packet_eq)
  have bad: "dr_packet (decode_outcome (pre @ es @ post)) = None"
    by (rule burst_not_accepted [OF ok]) fact+
  have "decode_outcome (pre @ es @ post) = decode_failure CrcMismatch" if "28 \<le> length pre"
    by (rule only_crc_can_fail [OF ok bad]) (use assms(3) that in simp_all)
  moreover have "dr_error (decode_outcome (pre @ es @ post)) \<noteq> DecodeNone"
    using bad by (auto simp: decode_outcome_def Let_def split: if_splits)
  ultimately show ?thesis using bad
    by (intro exI [of _ "dr_error (decode_outcome (pre @ es @ post))"])
      (auto simp: decode_packet_eq decode_failure_def)
qed

lemma corruption_detected_witness:
  "\<exists>bs r p. decode_packet bs = Inr r \<and> dr_packet r = Some p \<and> length bs = 33 \<and>
    decode_packet (take 32 bs @ [43]) = Inr \<lparr>dr_packet = None, dr_error = CrcMismatch\<rparr>"
proof -
  let ?bs = "packet_bytes kImu 1 2 [42]"
  have "kImu \<in> {kImu, kGnss, kCameraMeta}" "length [42 :: u8] \<le> kMaxPayloadSize"
    by (simp_all add: kMaxPayloadSize_def)
  from decode_packet_bytes [OF this, of 1 2] obtain p where
    p: "dr_packet (decode_outcome ?bs) = Some p" by simp
  have bs: "?bs = take 32 ?bs @ [42] @ []" by (metis append_Nil2 append_take_drop_id drop_packet_bytes)
  have d: "decode_packet (take 32 ?bs @ [42] @ []) = Inr (decode_outcome ?bs)"
    by (simp only: bs [symmetric] decode_packet_eq)
  have "\<exists>e. decode_packet (take 32 ?bs @ [43] @ []) = Inr \<lparr>dr_packet = None, dr_error = e\<rparr>
      \<and> e \<noteq> DecodeNone \<and> (28 \<le> length (take 32 ?bs) \<longrightarrow> e = CrcMismatch)"
    by (rule corruption_detected [OF p d]) simp_all
  moreover have "28 \<le> length (take 32 ?bs)" by simp
  ultimately have "decode_packet (take 32 ?bs @ [43]) = Inr \<lparr>dr_packet = None, dr_error = CrcMismatch\<rparr>"
    by (simp del: take_append)
  then show ?thesis using p by (intro exI [of _ ?bs]) (simp add: decode_packet_eq)
qed

end
