(* ===== verification/Received.thy ===== *)
theory Received
  imports Packet
begin

text \<open>
  The values that travel from the socket layer to the workers: \<open>Ipv4Endpoint\<close> of
  \<open>include/driveflow/net/udp_socket.hpp\<close>, \<open>ReceivedPacket\<close> of \<open>epoll_receiver.hpp\<close>, and the
  observable identity \<open>SensorSource\<close> of \<open>sensor_stream_tracker.hpp\<close>.
\<close>

record ipv4_endpoint =
  ep_address :: string
  ep_port :: u16

record received_packet =
  rp_packet :: packet
  rp_source :: ipv4_endpoint
  rp_listener :: ipv4_endpoint
  rp_receive_timestamp_ns :: u64

record sensor_source =
  src_remote_endpoint :: ipv4_endpoint
  src_listener_endpoint :: ipv4_endpoint
  src_message_type :: message_type

definition identify_sensor_source :: "received_packet \<Rightarrow> sensor_source" where
  "identify_sensor_source p =
     \<lparr>src_remote_endpoint = rp_source p, src_listener_endpoint = rp_listener p,
      src_message_type = hdr_message_type (pkt_header (rp_packet p))\<rparr>"

abbreviation rp_sequence_number :: "received_packet \<Rightarrow> u64" where
  "rp_sequence_number p \<equiv> hdr_sequence_number (pkt_header (rp_packet p))"

abbreviation rp_source_timestamp_ns :: "received_packet \<Rightarrow> u64" where
  "rp_source_timestamp_ns p \<equiv> hdr_source_timestamp_ns (pkt_header (rp_packet p))"

end
