(* ===== verification/Udp_Socket.thy ===== *)
theory Udp_Socket
  imports Os_Io Received
begin

text \<open>
  \<open>UdpSocket\<close> of \<open>src/src/net/udp_socket.cpp\<close>, over the system calls of \<open>Os_Io\<close>. A socket is its
  file descriptor. Moves transfer the descriptor and leave \<open>-1\<close>, so a descriptor has one owner; the
  destructor closes it.
\<close>

section \<open>Data\<close>

definition kMaxUdpPayloadSize :: nat where "kMaxUdpPayloadSize = 65507"

record received_datagram =
  rd_bytes :: bytes
  rd_source :: ipv4_endpoint

definition NUL_char :: char where "NUL_char = CHR 0x00"

text \<open>\<open>std::string::c_str()\<close> as a C string: up to the first NUL.\<close>

definition c_str :: "string \<Rightarrow> string" where "c_str s = takeWhile (\<lambda>c. c \<noteq> NUL_char) s"

section \<open>Addresses\<close>

definition to_sockaddr :: "'w os \<Rightarrow> ipv4_endpoint \<Rightarrow> sockaddr cpp" where
  "to_sockaddr os endpoint = (case lib_inet_pton os (c_str (ep_address endpoint)) of
      PtonOk a \<Rightarrow> Inr \<lparr>sin_addr = a, sin_port = be_bytes (ep_port endpoint)\<rparr>
    | PtonInvalid \<Rightarrow> Inl (Invalid_argument (''invalid IPv4 address: '' @ ep_address endpoint))
    | PtonError e \<Rightarrow> Inl (System_error ''inet_pton''))"

definition from_sockaddr :: "'w os \<Rightarrow> sockaddr \<Rightarrow> ipv4_endpoint cpp" where
  "from_sockaddr os address = (case lib_inet_ntop os (sin_addr address) of
      Inl e \<Rightarrow> Inl (System_error ''inet_ntop'')
    | Inr text \<Rightarrow> Inr \<lparr>ep_address = text, ep_port = be_val (sin_port address)\<rparr>)"

section \<open>Sockets\<close>

definition receive_datagram :: "'w os \<Rightarrow> fd \<Rightarrow> nat \<Rightarrow> bool \<Rightarrow> ('w, received_datagram option) io" where
  "receive_datagram os file_descriptor maximum_size return_would_block =
     (if maximum_size = 0 \<or> maximum_size > kMaxUdpPayloadSize then
        io_throw (Invalid_argument ''UDP receive size must be between 1 and 65507 bytes'')
      else
        io_bind (io_call (sys_recvmsg os file_descriptor maximum_size)) (\<lambda>r. case r of
          Inl e \<Rightarrow>
            if return_would_block \<and> (e = EAGAIN \<or> e = EWOULDBLOCK) then io_return None
            else io_throw (System_error ''recvmsg'')
        | Inr message \<Rightarrow>
            if rm_truncated message \<or> length (rm_data message) > maximum_size then
              io_throw (Length_error ''received UDP datagram exceeds the configured buffer'')
            else
              io_bind (io_cpp (from_sockaddr os (rm_name message))) (\<lambda>source.
              io_return (Some \<lparr>rd_bytes = rm_data message, rd_source = source\<rparr>))))"

definition udp_open :: "'w os \<Rightarrow> ('w, fd) io" where
  "udp_open os =
     io_bind (io_call (sys_socket os)) (\<lambda>r.
     io_bind (io_check ''socket'' r) (\<lambda>d.
     io_bind (io_opened d) (\<lambda>_. io_return d)))"

definition bind_to :: "'w os \<Rightarrow> ipv4_endpoint \<Rightarrow> ('w, fd) io" where
  "bind_to os local_endpoint =
     io_bind (udp_open os) (\<lambda>socket. io_guarded os [socket]
       (io_bind (io_cpp (to_sockaddr os local_endpoint)) (\<lambda>address.
        io_bind (io_call (sys_bind os socket address)) (\<lambda>r.
        io_bind (io_check ''bind'' r) (\<lambda>_. io_return socket)))))"

definition O_NONBLOCK :: u32 where "O_NONBLOCK = 0x800"

definition set_non_blocking :: "'w os \<Rightarrow> fd \<Rightarrow> ('w, unit) io" where
  "set_non_blocking os file_descriptor =
     io_bind (io_call (sys_fcntl_getfl os file_descriptor)) (\<lambda>r.
     io_bind (io_check ''fcntl(F_GETFL)'' r) (\<lambda>flags.
     io_bind (io_call (sys_fcntl_setfl os file_descriptor (flags OR O_NONBLOCK))) (\<lambda>r.
     io_check ''fcntl(F_SETFL)'' r)))"

definition send_to :: "'w os \<Rightarrow> fd \<Rightarrow> bytes \<Rightarrow> ipv4_endpoint \<Rightarrow> ('w, unit) io" where
  "send_to os file_descriptor bytes destination =
     (if length bytes > kMaxUdpPayloadSize then
        io_throw (Length_error ''UDP payload exceeds the IPv4 limit'')
      else
        io_bind (io_cpp (to_sockaddr os destination)) (\<lambda>address.
        io_bind (io_call (sys_sendto os file_descriptor bytes address)) (\<lambda>r.
        io_bind (io_check ''sendto'' r) (\<lambda>sent.
        if sent \<noteq> length bytes then
          io_throw (Runtime_error ''sendto returned a partial UDP datagram'')
        else io_return ()))))"

text \<open>\<open>receive\<close> dereferences the optional: an empty one would be undefined behaviour.\<close>

definition receive :: "'w os \<Rightarrow> fd \<Rightarrow> nat \<Rightarrow> ('w, received_datagram) io" where
  "receive os file_descriptor maximum_size =
     io_bind (receive_datagram os file_descriptor maximum_size False) (\<lambda>datagram.
     case datagram of None \<Rightarrow> io_throw Out_of_bounds | Some d \<Rightarrow> io_return d)"

definition try_receive :: "'w os \<Rightarrow> fd \<Rightarrow> nat \<Rightarrow> ('w, received_datagram option) io" where
  "try_receive os file_descriptor maximum_size =
     receive_datagram os file_descriptor maximum_size True"

definition local_endpoint :: "'w os \<Rightarrow> fd \<Rightarrow> ('w, ipv4_endpoint) io" where
  "local_endpoint os file_descriptor =
     io_bind (io_call (sys_getsockname os file_descriptor)) (\<lambda>r.
     io_bind (io_check ''getsockname'' r) (\<lambda>address. io_cpp (from_sockaddr os address)))"

section \<open>Contracts\<close>

text \<open>Documented of \<open>socket\<close> and \<open>epoll_create1\<close>: a descriptor they return is not negative.\<close>

definition descriptors_valid :: "'w os \<Rightarrow> bool" where
  "descriptors_valid os \<longleftrightarrow> (\<forall>w d. fst (sys_socket os w) = Inr d \<longrightarrow> 0 \<le> d)
     \<and> (\<forall>w d. fst (sys_epoll_create os w) = Inr d \<longrightarrow> 0 \<le> d)"

lemma receive_datagram_neutral [intro!, simp]: "fd_neutral (receive_datagram os d n b)"
  unfolding receive_datagram_def by (auto split: sum.split)

lemma try_receive_neutral [intro!, simp]: "fd_neutral (try_receive os d n)"
  by (simp add: try_receive_def)

lemma set_non_blocking_neutral [intro!, simp]: "fd_neutral (set_non_blocking os d)"
  unfolding set_non_blocking_def by auto

lemma local_endpoint_neutral [intro!, simp]: "fd_neutral (local_endpoint os d)"
  unfolding local_endpoint_def by auto

lemma receive_datagram_result:
  assumes "receive_datagram os d n b s = (Inr r, t)"
  shows "0 < n \<and> n \<le> kMaxUdpPayloadSize
    \<and> (case r of None \<Rightarrow> b | Some dg \<Rightarrow> length (rd_bytes dg) \<le> n
        \<and> (\<exists>m. fst (sys_recvmsg os d n (m_world s)) = Inr m \<and> rd_bytes dg = rm_data m \<and> \<not> rm_truncated m))"
  using assms unfolding receive_datagram_def
  by (auto simp: io_bind_eq io_call_eq split: if_splits sum.splits option.splits)

text \<open>The descriptors after an action that opens one on success.\<close>

definition opens_one :: "('w, fd) io \<Rightarrow> bool" where
  "opens_one m \<longleftrightarrow> (\<forall>s. case m s of (Inl e, t) \<Rightarrow> m_open t = m_open s
     | (Inr d, t) \<Rightarrow> 0 \<le> d \<and> m_open t = d # m_open s)"

lemma guarded_neutral:
  assumes "fd_neutral m" "0 \<le> d" "m_open s = d # ds"
  shows "m_open (snd (io_guarded os [d] m s)) = (case fst (m s) of Inl e \<Rightarrow> ds | Inr x \<Rightarrow> d # ds)"
  using fd_neutralD [OF assms(1), of s] assms(2,3)
  by (auto simp: io_guarded_def io_close_def split: sum.splits prod.splits)

lemma udp_open_opens: "descriptors_valid os \<Longrightarrow> opens_one (udp_open os)"
  by (auto simp: opens_one_def udp_open_def io_bind_eq io_call_eq io_check_def descriptors_valid_def
      split: sum.splits)

lemma bind_to_opens:
  assumes "descriptors_valid os"
  shows "opens_one (bind_to os e)"
  unfolding opens_one_def
proof
  fix s
  show "case bind_to os e s of (Inl x, t) \<Rightarrow> m_open t = m_open s | (Inr d, t) \<Rightarrow> 0 \<le> d \<and> m_open t = d # m_open s"
  proof (cases "udp_open os s")
    case (Pair r u)
    show ?thesis
    proof (cases r)
      case (Inl x)
      then show ?thesis using udp_open_opens [OF assms] Pair
        by (auto simp: opens_one_def bind_to_def io_bind_eq split: sum.splits prod.splits)
    next
      case (Inr d)
      have u: "0 \<le> d" "m_open u = d # m_open s"
        using udp_open_opens [OF assms] Pair Inr by (auto simp: opens_one_def split: sum.splits prod.splits)
      let ?m = "io_bind (io_cpp (to_sockaddr os e)) (\<lambda>address.
        io_bind (io_call (sys_bind os d address)) (\<lambda>r. io_bind (io_check ''bind'' r) (\<lambda>_. io_return d)))"
      have n: "fd_neutral ?m" by auto
      have v: "fst (?m u) = Inr x \<Longrightarrow> x = d" for x
        by (auto simp: io_bind_eq io_call_eq io_check_def split: sum.splits)
      have "fst (io_guarded os [d] ?m u) = fst (?m u)"
        by (auto simp: io_guarded_def split: sum.splits prod.splits)
      then show ?thesis using guarded_neutral [OF n u, of os] v u(1) Pair Inr
        by (auto simp: bind_to_def io_bind_eq [of "udp_open os"] split: sum.splits prod.splits)
    qed
  qed
qed

text \<open>\<open>receive\<close> never dereferences an empty optional.\<close>

lemma receive_defined: "fst (receive os d n s) \<noteq> Inl Out_of_bounds"
proof -
  have "fst (receive_datagram os d n False s) \<noteq> Inl Out_of_bounds"
    by (auto simp: receive_datagram_def io_bind_eq io_call_eq from_sockaddr_def split: sum.splits)
  moreover have "fst (receive_datagram os d n False s) \<noteq> Inr None"
    using receive_datagram_result [of os d n False s None "snd (receive_datagram os d n False s)"]
    by (metis option.case(1) prod.collapse)
  ultimately show ?thesis
    by (auto simp: receive_def io_bind_eq split: sum.splits option.splits)
qed

section \<open>Properties\<close>

text \<open>What a socket delivers is one whole datagram: for every behaviour of the kernel, a received
  datagram is not longer than the buffer and not truncated (a truncated or oversized one throws), its
  bytes are those the kernel reported, an out-of-range buffer size throws before any system call, the
  result is empty only for a non-blocking receive, and no descriptor is opened or closed.\<close>

theorem udp_receive_whole_datagrams:
  "case receive_datagram os d n would_block s of
     (Inl e, t) \<Rightarrow> m_open t = m_open s \<and> ((n = 0 \<or> kMaxUdpPayloadSize < n) \<longrightarrow> t = s)
   | (Inr r, t) \<Rightarrow> m_open t = m_open s \<and> 0 < n \<and> n \<le> kMaxUdpPayloadSize
       \<and> (case r of None \<Rightarrow> would_block | Some dg \<Rightarrow> length (rd_bytes dg) \<le> n
          \<and> (\<exists>m. fst (sys_recvmsg os d n (m_world s)) = Inr m \<and> rd_bytes dg = rm_data m \<and> \<not> rm_truncated m))"
proof (cases "receive_datagram os d n would_block s")
  case (Pair r t)
  have open_same: "m_open t = m_open s"
    using fd_neutralD [OF receive_datagram_neutral, of os d n would_block s] Pair by simp
  show ?thesis
  proof (cases r)
    case (Inl e)
    then show ?thesis using Pair open_same by (auto simp: receive_datagram_def)
  next
    case (Inr x)
    then show ?thesis using Pair open_same receive_datagram_result [of os d n would_block s x t] by simp
  qed
qed

text \<open>A kernel with one datagram in its queue, for evaluating the model: the world counts the
  descriptors handed out and holds the pending datagrams.\<close>

type_synonym toy_world = "nat \<times> bytes list"

definition toy_pton :: "string \<Rightarrow> pton_result" where
  "toy_pton s = (if s = ''127.0.0.1'' then PtonOk 0x7F000001 else PtonInvalid)"

definition toy_os :: "toy_world os" where
  "toy_os =
     \<lparr>sys_socket = (\<lambda>(n, q). (Inr (int n), (n + 1, q))),
      sys_bind = (\<lambda>d a w. (Inr (), w)),
      sys_getsockname = (\<lambda>d w. (Inr \<lparr>sin_addr = 0x7F000001, sin_port = [0x23, 0x28]\<rparr>, w)),
      sys_fcntl_getfl = (\<lambda>d w. (Inr 2, w)),
      sys_fcntl_setfl = (\<lambda>d fl w. (Inr (), w)),
      sys_recvmsg = (\<lambda>d n (c, q). case q of [] \<Rightarrow> (Inl EAGAIN, (c, q))
        | b # q' \<Rightarrow> (Inr \<lparr>rm_data = take n b, rm_truncated = n < length b,
            rm_name = \<lparr>sin_addr = 0x7F000001, sin_port = [0, 5]\<rparr>\<rparr>, (c, q'))),
      sys_sendto = (\<lambda>d b a w. (Inr (length b), w)),
      sys_close = (\<lambda>d w. w),
      sys_epoll_create = (\<lambda>(n, q). (Inr (int n), (n + 1, q))),
      sys_epoll_add = (\<lambda>e d ev w. (Inr (), w)),
      sys_epoll_wait = (\<lambda>e n ms w. (Inr (if snd w = [] then [] else [\<lparr>ev_events = 1, ev_data = 0\<rparr>]), w)),
      lib_inet_pton = toy_pton,
      lib_inet_ntop = (\<lambda>a. Inr ''127.0.0.1''),
      lib_steady_now = (\<lambda>w. (7, w))\<rparr>"

lemma toy_os_valid: "descriptors_valid toy_os"
  by (auto simp: descriptors_valid_def toy_os_def)

lemma udp_receive_whole_datagrams_witness:
  "\<exists>r t. receive_datagram toy_os 4 10 True \<lparr>m_world = (5, [[1, 2]]), m_open = [4]\<rparr> = (Inr (Some r), t)
    \<and> rd_bytes r = [1, 2] \<and> length (rd_bytes r) \<le> 10 \<and> m_open t = [4]
    \<and> snd (receive_datagram toy_os 4 0 True t) = t"
proof -
  let ?s = "\<lparr>m_world = (5 :: nat, [[1, 2 :: u8]]), m_open = [4]\<rparr>"
  obtain r t where got: "receive_datagram toy_os 4 10 True ?s = (Inr (Some r), t)" "rd_bytes r = [1, 2]"
    by (simp add: receive_datagram_def kMaxUdpPayloadSize_def toy_os_def from_sockaddr_def io_simps)
  obtain e u where none: "receive_datagram toy_os 4 0 True t = (Inl e, u)"
    by (simp add: receive_datagram_def io_simps)
  show ?thesis
    using udp_receive_whole_datagrams [where os = toy_os and d = 4 and n = 10 and would_block = True and s = ?s]
      udp_receive_whole_datagrams [where os = toy_os and d = 4 and n = 0 and would_block = True and s = t]
      got none by auto
qed

end
