(* ===== verification/Sensor_Payload.thy ===== *)
theory Sensor_Payload
  imports Ieee Packet
begin

text \<open>
  The typed payloads of \<open>include/driveflow/protocol/sensor_payload.hpp\<close> and
  \<open>src/src/protocol/sensor_payload.cpp\<close>: the three sample structs, their validation, encoders and
  decoders. Struct fields keep their names behind a prefix: \<open>imu_\<close>, \<open>gnss_\<close>, \<open>cam_\<close>, \<open>vec_\<close>.

  The payload codec is interpreted as a \<open>typed_codec\<close> (tag: the message type), so round trip and
  canonicity are facts of that contract; acceptance is characterised by the byte length and the
  validation of the decoded value.
\<close>

section \<open>Data\<close>

definition kImuPayloadSize :: nat where "kImuPayloadSize = 24"
definition kGnssPayloadSize :: nat where "kGnssPayloadSize = 32"
definition kCameraMetaFixedPayloadSize :: nat where "kCameraMetaFixedPayloadSize = 24"
definition kMaxCameraExtraDataSize :: nat where
  "kMaxCameraExtraDataSize = kMaxPayloadSize - kCameraMetaFixedPayloadSize"

record vector3f =
  vec_x :: float32
  vec_y :: float32
  vec_z :: float32

record imu_sample =
  imu_linear_acceleration_mps2 :: vector3f
  imu_angular_velocity_rps :: vector3f

record gnss_fix =
  gnss_latitude_deg :: float64
  gnss_longitude_deg :: float64
  gnss_altitude_m :: float64
  gnss_horizontal_accuracy_m :: float32
  gnss_vertical_accuracy_m :: float32

record camera_meta =
  cam_frame_id :: u64
  cam_width :: u32
  cam_height :: u32
  cam_exposure_time_us :: u32
  cam_extra_data :: bytes

datatype sensor_payload =
    ImuSample imu_sample
  | GnssFix gnss_fix
  | CameraMeta camera_meta

datatype sensor_payload_error =
    PayloadNone
  | PayloadUnknownMessageType
  | SizeMismatch
  | NonFiniteNumber
  | ValueOutOfRange

record decode_sensor_payload_result =
  dsp_payload :: "sensor_payload option"
  dsp_error :: sensor_payload_error

definition payload_error_to_string :: "sensor_payload_error \<Rightarrow> string" where
  "payload_error_to_string e = (case e of
       PayloadNone \<Rightarrow> ''none''
     | PayloadUnknownMessageType \<Rightarrow> ''unknown sensor message type''
     | SizeMismatch \<Rightarrow> ''sensor payload size mismatch''
     | NonFiniteNumber \<Rightarrow> ''sensor payload contains a non-finite number''
     | ValueOutOfRange \<Rightarrow> ''sensor payload value is out of range'')"

section \<open>Validation\<close>

definition validate_imu :: "imu_sample \<Rightarrow> sensor_payload_error" where
  "validate_imu s =
     (let a = imu_linear_acceleration_mps2 s; w = imu_angular_velocity_rps s in
      if \<not> isfinite32 (vec_x a) \<or> \<not> isfinite32 (vec_y a) \<or> \<not> isfinite32 (vec_z a)
       \<or> \<not> isfinite32 (vec_x w) \<or> \<not> isfinite32 (vec_y w) \<or> \<not> isfinite32 (vec_z w)
      then NonFiniteNumber else PayloadNone)"

text \<open>The literals \<open>90.0\<close>, \<open>-90.0\<close>, \<open>180.0\<close>, \<open>-180.0\<close> and \<open>0.0F\<close>.\<close>

definition f64_90 :: float64 where "f64_90 = Float64 0x4056800000000000"
definition f64_m90 :: float64 where "f64_m90 = Float64 0xC056800000000000"
definition f64_180 :: float64 where "f64_180 = Float64 0x4066800000000000"
definition f64_m180 :: float64 where "f64_m180 = Float64 0xC066800000000000"
definition f32_0 :: float32 where "f32_0 = Float32 0"

definition validate_gnss :: "gnss_fix \<Rightarrow> sensor_payload_error" where
  "validate_gnss f =
     (if \<not> isfinite64 (gnss_latitude_deg f) \<or> \<not> isfinite64 (gnss_longitude_deg f)
       \<or> \<not> isfinite64 (gnss_altitude_m f) \<or> \<not> isfinite32 (gnss_horizontal_accuracy_m f)
       \<or> \<not> isfinite32 (gnss_vertical_accuracy_m f)
      then NonFiniteNumber
      else if less64 (gnss_latitude_deg f) f64_m90 \<or> less64 f64_90 (gnss_latitude_deg f)
       \<or> less64 (gnss_longitude_deg f) f64_m180 \<or> less64 f64_180 (gnss_longitude_deg f)
       \<or> less32 (gnss_horizontal_accuracy_m f) f32_0 \<or> less32 (gnss_vertical_accuracy_m f) f32_0
      then ValueOutOfRange else PayloadNone)"

definition validate_camera :: "camera_meta \<Rightarrow> sensor_payload_error" where
  "validate_camera m =
     (if cam_width m = 0 \<or> cam_height m = 0 \<or> length (cam_extra_data m) > kMaxCameraExtraDataSize
      then ValueOutOfRange else PayloadNone)"

definition require_valid :: "sensor_payload_error \<Rightarrow> 'a cpp \<Rightarrow> 'a cpp" where
  "require_valid e m = throw_if (e \<noteq> PayloadNone) (Invalid_argument (payload_error_to_string e)) m"

section \<open>Encoders\<close>

definition encode_imu :: "imu_sample \<Rightarrow> bytes cpp" where
  "encode_imu s = require_valid (validate_imu s)
     (let out = replicate kImuPayloadSize 0; a = imu_linear_acceleration_mps2 s;
          w = imu_angular_velocity_rps s in
      cbind (write_float out 0 (vec_x a)) (\<lambda>out.
      cbind (write_float out 4 (vec_y a)) (\<lambda>out.
      cbind (write_float out 8 (vec_z a)) (\<lambda>out.
      cbind (write_float out 12 (vec_x w)) (\<lambda>out.
      cbind (write_float out 16 (vec_y w)) (\<lambda>out.
      write_float out 20 (vec_z w)))))))"

definition encode_gnss :: "gnss_fix \<Rightarrow> bytes cpp" where
  "encode_gnss f = require_valid (validate_gnss f)
     (let out = replicate kGnssPayloadSize 0 in
      cbind (write_double out 0 (gnss_latitude_deg f)) (\<lambda>out.
      cbind (write_double out 8 (gnss_longitude_deg f)) (\<lambda>out.
      cbind (write_double out 16 (gnss_altitude_m f)) (\<lambda>out.
      cbind (write_float out 24 (gnss_horizontal_accuracy_m f)) (\<lambda>out.
      write_float out 28 (gnss_vertical_accuracy_m f))))))"

definition encode_camera :: "camera_meta \<Rightarrow> bytes cpp" where
  "encode_camera m =
     throw_if (length (cam_extra_data m) > kMaxCameraExtraDataSize)
       (Length_error ''camera extra data exceeds the DriveFlow payload limit'')
     (require_valid (validate_camera m)
     (let out = replicate (kCameraMetaFixedPayloadSize + length (cam_extra_data m)) 0 in
      cbind (write_big_endian out 0 (cam_frame_id m)) (\<lambda>out.
      cbind (write_big_endian out 8 (cam_width m)) (\<lambda>out.
      cbind (write_big_endian out 12 (cam_height m)) (\<lambda>out.
      cbind (write_big_endian out 16 (cam_exposure_time_us m)) (\<lambda>out.
      cbind (write_big_endian out 20 (of_nat (length (cam_extra_data m)) :: u32)) (\<lambda>out.
      copy_into out kCameraMetaFixedPayloadSize (cam_extra_data m))))))))"

definition message_type_of :: "sensor_payload \<Rightarrow> message_type" where
  "message_type_of p =
     (case p of ImuSample _ \<Rightarrow> kImu | GnssFix _ \<Rightarrow> kGnss | CameraMeta _ \<Rightarrow> kCameraMeta)"

definition encode_sensor_payload :: "sensor_payload \<Rightarrow> bytes cpp" where
  "encode_sensor_payload p =
     (case p of ImuSample s \<Rightarrow> encode_imu s | GnssFix f \<Rightarrow> encode_gnss f | CameraMeta m \<Rightarrow> encode_camera m)"

section \<open>Decoders\<close>

definition payload_failure :: "sensor_payload_error \<Rightarrow> decode_sensor_payload_result" where
  "payload_failure e = \<lparr>dsp_payload = None, dsp_error = e\<rparr>"

definition payload_success :: "sensor_payload \<Rightarrow> decode_sensor_payload_result" where
  "payload_success p = \<lparr>dsp_payload = Some p, dsp_error = PayloadNone\<rparr>"

definition decode_imu :: "bytes \<Rightarrow> decode_sensor_payload_result cpp" where
  "decode_imu bs =
     (if length bs \<noteq> kImuPayloadSize then Inr (payload_failure SizeMismatch) else
      cbind (read_float bs 0) (\<lambda>ax. cbind (read_float bs 4) (\<lambda>ay. cbind (read_float bs 8) (\<lambda>az.
      cbind (read_float bs 12) (\<lambda>wx. cbind (read_float bs 16) (\<lambda>wy. cbind (read_float bs 20) (\<lambda>wz.
      let s = \<lparr>imu_linear_acceleration_mps2 = \<lparr>vec_x = ax, vec_y = ay, vec_z = az\<rparr>,
               imu_angular_velocity_rps = \<lparr>vec_x = wx, vec_y = wy, vec_z = wz\<rparr>\<rparr>;
          e = validate_imu s
      in Inr (if e = PayloadNone then payload_success (ImuSample s) else payload_failure e))))))))"

definition decode_gnss :: "bytes \<Rightarrow> decode_sensor_payload_result cpp" where
  "decode_gnss bs =
     (if length bs \<noteq> kGnssPayloadSize then Inr (payload_failure SizeMismatch) else
      cbind (read_double bs 0) (\<lambda>lat. cbind (read_double bs 8) (\<lambda>lon.
      cbind (read_double bs 16) (\<lambda>alt. cbind (read_float bs 24) (\<lambda>h. cbind (read_float bs 28) (\<lambda>v.
      let f = \<lparr>gnss_latitude_deg = lat, gnss_longitude_deg = lon, gnss_altitude_m = alt,
               gnss_horizontal_accuracy_m = h, gnss_vertical_accuracy_m = v\<rparr>;
          e = validate_gnss f
      in Inr (if e = PayloadNone then payload_success (GnssFix f) else payload_failure e)))))))"

definition decode_camera :: "bytes \<Rightarrow> decode_sensor_payload_result cpp" where
  "decode_camera bs =
     (if length bs < kCameraMetaFixedPayloadSize then Inr (payload_failure SizeMismatch) else
      cbind (read_big_endian bs 20) (\<lambda>raw_extra_size :: u32.
      let extra_size = unat raw_extra_size in
      if extra_size > kMaxCameraExtraDataSize then Inr (payload_failure ValueOutOfRange)
      else if length bs \<noteq> kCameraMetaFixedPayloadSize + extra_size
        then Inr (payload_failure SizeMismatch)
      else
      cbind (read_big_endian bs 0) (\<lambda>frame_id. cbind (read_big_endian bs 8) (\<lambda>width.
      cbind (read_big_endian bs 12) (\<lambda>height. cbind (read_big_endian bs 16) (\<lambda>exposure.
      cbind (subspan bs kCameraMetaFixedPayloadSize) (\<lambda>extra.
      let m = \<lparr>cam_frame_id = frame_id, cam_width = width, cam_height = height,
               cam_exposure_time_us = exposure, cam_extra_data = extra\<rparr>;
          e = validate_camera m
      in Inr (if e = PayloadNone then payload_success (CameraMeta m) else payload_failure e))))))))"

definition decode_sensor_payload :: "message_type \<Rightarrow> bytes \<Rightarrow> decode_sensor_payload_result cpp" where
  "decode_sensor_payload type bs =
     (if type = kImu then decode_imu bs
      else if type = kGnss then decode_gnss bs
      else if type = kCameraMeta then decode_camera bs
      else Inr (payload_failure PayloadUnknownMessageType))"

section \<open>Layouts\<close>

definition imu_bytes :: "imu_sample \<Rightarrow> bytes" where
  "imu_bytes s =
     (let a = imu_linear_acceleration_mps2 s; w = imu_angular_velocity_rps s in
      float_bytes (vec_x a) @ float_bytes (vec_y a) @ float_bytes (vec_z a)
      @ float_bytes (vec_x w) @ float_bytes (vec_y w) @ float_bytes (vec_z w))"

definition imu_of :: "bytes \<Rightarrow> imu_sample" where
  "imu_of bs =
     (let f = \<lambda>off. bytes_float (take 4 (drop off bs)) in
      \<lparr>imu_linear_acceleration_mps2 = \<lparr>vec_x = f 0, vec_y = f 4, vec_z = f 8\<rparr>,
       imu_angular_velocity_rps = \<lparr>vec_x = f 12, vec_y = f 16, vec_z = f 20\<rparr>\<rparr>)"

definition gnss_bytes :: "gnss_fix \<Rightarrow> bytes" where
  "gnss_bytes f = double_bytes (gnss_latitude_deg f) @ double_bytes (gnss_longitude_deg f)
     @ double_bytes (gnss_altitude_m f) @ float_bytes (gnss_horizontal_accuracy_m f)
     @ float_bytes (gnss_vertical_accuracy_m f)"

definition gnss_of :: "bytes \<Rightarrow> gnss_fix" where
  "gnss_of bs =
     \<lparr>gnss_latitude_deg = bytes_double (take 8 bs),
      gnss_longitude_deg = bytes_double (take 8 (drop 8 bs)),
      gnss_altitude_m = bytes_double (take 8 (drop 16 bs)),
      gnss_horizontal_accuracy_m = bytes_float (take 4 (drop 24 bs)),
      gnss_vertical_accuracy_m = bytes_float (take 4 (drop 28 bs))\<rparr>"

definition camera_bytes :: "camera_meta \<Rightarrow> bytes" where
  "camera_bytes m = be_bytes (cam_frame_id m) @ be_bytes (cam_width m) @ be_bytes (cam_height m)
     @ be_bytes (cam_exposure_time_us m) @ be_bytes (of_nat (length (cam_extra_data m)) :: u32)
     @ cam_extra_data m"

definition camera_of :: "bytes \<Rightarrow> camera_meta" where
  "camera_of bs =
     \<lparr>cam_frame_id = be_val (take 8 bs), cam_width = be_val (take 4 (drop 8 bs)),
      cam_height = be_val (take 4 (drop 12 bs)), cam_exposure_time_us = be_val (take 4 (drop 16 bs)),
      cam_extra_data = drop 24 bs\<rparr>"

definition camera_extra_size :: "bytes \<Rightarrow> nat" where
  "camera_extra_size bs = unat (be_val (take 4 (drop 20 bs)) :: u32)"

lemma length_layouts [simp]:
  "length (imu_bytes s) = 24" "length (gnss_bytes f) = 32"
  "length (camera_bytes m) = 24 + length (cam_extra_data m)"
  by (simp_all add: imu_bytes_def gnss_bytes_def camera_bytes_def Let_def)

lemma imu_of_bytes [simp]: "imu_of (imu_bytes s) = s"
  by (simp add: imu_bytes_def imu_of_def Let_def)

lemma gnss_of_bytes [simp]: "gnss_of (gnss_bytes f) = f"
  by (simp add: gnss_bytes_def gnss_of_def)

lemma camera_of_bytes [simp]: "camera_of (camera_bytes m) = m"
  by (simp add: camera_bytes_def camera_of_def)

lemma take_drop_step: "take m (drop n xs) @ drop (n + m) xs = drop n xs"
  by (metis append_take_drop_id add.commute drop_drop)

lemma imu_bytes_of: "length bs = 24 \<Longrightarrow> imu_bytes (imu_of bs) = bs"
  using take_drop_step [of 4 0 bs] take_drop_step [of 4 4 bs] take_drop_step [of 4 8 bs]
    take_drop_step [of 4 12 bs] take_drop_step [of 4 16 bs]
  by (simp add: imu_bytes_def imu_of_def float_enc_dec Let_def)

lemma gnss_bytes_of: "length bs = 32 \<Longrightarrow> gnss_bytes (gnss_of bs) = bs"
  using take_drop_step [of 8 0 bs] take_drop_step [of 8 8 bs] take_drop_step [of 8 16 bs]
    take_drop_step [of 4 24 bs]
  by (simp add: gnss_bytes_def gnss_of_def float_enc_dec)

lemma camera_chain:
  "take 8 bs @ take 4 (drop 8 bs) @ take 4 (drop 12 bs) @ take 4 (drop 16 bs)
     @ take 4 (drop 20 bs) @ drop 24 bs = bs"
  using take_drop_step [of 8 0 bs] take_drop_step [of 4 8 bs] take_drop_step [of 4 12 bs]
    take_drop_step [of 4 16 bs] take_drop_step [of 4 20 bs] by simp

lemma camera_bytes_of:
  assumes "length bs = 24 + camera_extra_size bs"
  shows "camera_bytes (camera_of bs) = bs"
proof -
  have len: "24 \<le> length bs" using assms by simp
  have "camera_extra_size bs = length bs - 24" using assms by simp
  then have n: "(of_nat (length bs - 24) :: u32) = be_val (take 4 (drop 20 bs))"
    by (metis camera_extra_size_def of_nat_unat ucast_id)
  have "camera_bytes (camera_of bs) = take 8 bs @ take 4 (drop 8 bs) @ take 4 (drop 12 bs)
      @ take 4 (drop 16 bs) @ take 4 (drop 20 bs) @ drop 24 bs"
    using len by (simp add: camera_bytes_def camera_of_def n wire_enc_dec)
  then show ?thesis by (simp only: camera_chain)
qed

section \<open>The routines reduced to layouts and validation\<close>

lemma require_valid_simps [simp]:
  "require_valid PayloadNone m = m"
  "e \<noteq> PayloadNone \<Longrightarrow> require_valid e m = Inl (Invalid_argument (payload_error_to_string e))"
  by (simp_all add: require_valid_def)

lemma require_valid_eq_Inr_iff [simp]:
  "require_valid e m = Inr y \<longleftrightarrow> e = PayloadNone \<and> m = Inr y"
  by (auto simp: require_valid_def)

lemma encode_imu_eq: "encode_imu s = require_valid (validate_imu s) (Inr (imu_bytes s))"
  by (simp add: encode_imu_def imu_bytes_def kImuPayloadSize_def codec_simps Let_def)

lemma encode_gnss_eq: "encode_gnss f = require_valid (validate_gnss f) (Inr (gnss_bytes f))"
  by (simp add: encode_gnss_def gnss_bytes_def kGnssPayloadSize_def codec_simps Let_def)

lemma encode_camera_eq:
  "encode_camera m = throw_if (length (cam_extra_data m) > kMaxCameraExtraDataSize)
       (Length_error ''camera extra data exceeds the DriveFlow payload limit'')
     (require_valid (validate_camera m) (Inr (camera_bytes m)))"
  by (simp add: encode_camera_def camera_bytes_def kCameraMetaFixedPayloadSize_def codec_simps
      copy_into_def Let_def)

definition payload_verdict :: "sensor_payload \<Rightarrow> sensor_payload_error \<Rightarrow> decode_sensor_payload_result" where
  "payload_verdict p e = (if e = PayloadNone then payload_success p else payload_failure e)"

lemma decode_imu_eq:
  "decode_imu bs = Inr (if length bs \<noteq> 24 then payload_failure SizeMismatch
     else payload_verdict (ImuSample (imu_of bs)) (validate_imu (imu_of bs)))"
  by (simp add: decode_imu_def imu_of_def kImuPayloadSize_def codec_simps payload_verdict_def Let_def)

lemma decode_gnss_eq:
  "decode_gnss bs = Inr (if length bs \<noteq> 32 then payload_failure SizeMismatch
     else payload_verdict (GnssFix (gnss_of bs)) (validate_gnss (gnss_of bs)))"
  by (simp add: decode_gnss_def gnss_of_def kGnssPayloadSize_def codec_simps payload_verdict_def Let_def)

lemma camera_reads:
  assumes "24 \<le> length bs"
  shows "read_big_endian bs 20 = Inr (be_val (take 4 (drop 20 bs)) :: u32)"
    "read_big_endian bs 0 = Inr (cam_frame_id (camera_of bs))"
    "read_big_endian bs 8 = Inr (cam_width (camera_of bs))"
    "read_big_endian bs 12 = Inr (cam_height (camera_of bs))"
    "read_big_endian bs 16 = Inr (cam_exposure_time_us (camera_of bs))"
    "subspan bs kCameraMetaFixedPayloadSize = Inr (cam_extra_data (camera_of bs))"
  using assms by (simp_all add: codec_simps camera_of_def kCameraMetaFixedPayloadSize_def)

lemma camera_rebuild:
  "\<lparr>cam_frame_id = cam_frame_id m, cam_width = cam_width m, cam_height = cam_height m,
    cam_exposure_time_us = cam_exposure_time_us m, cam_extra_data = cam_extra_data m\<rparr> = m"
  by simp

lemma decode_camera_eq:
  "decode_camera bs = Inr (if length bs < 24 then payload_failure SizeMismatch
     else if camera_extra_size bs > kMaxCameraExtraDataSize then payload_failure ValueOutOfRange
     else if length bs \<noteq> 24 + camera_extra_size bs then payload_failure SizeMismatch
     else payload_verdict (CameraMeta (camera_of bs)) (validate_camera (camera_of bs)))"
proof (cases "length bs < 24")
  case True
  then show ?thesis by (simp add: decode_camera_def kCameraMetaFixedPayloadSize_def)
next
  case False
  then have len: "24 \<le> length bs" by simp
  obtain n where n: "camera_extra_size bs = n" by blast
  show ?thesis
    unfolding decode_camera_def camera_reads [OF len] cbind_Inr Let_def camera_rebuild
      camera_extra_size_def [symmetric] n payload_verdict_def
    using False by (simp add: kCameraMetaFixedPayloadSize_def)
qed

section \<open>The payload codec contract\<close>

lemma validate_camera_of:
  assumes "length bs = 24 + camera_extra_size bs"
  shows "validate_camera (camera_of bs) = PayloadNone \<longleftrightarrow>
    cam_width (camera_of bs) \<noteq> 0 \<and> cam_height (camera_of bs) \<noteq> 0
    \<and> camera_extra_size bs \<le> kMaxCameraExtraDataSize"
proof -
  have "length (cam_extra_data (camera_of bs)) = camera_extra_size bs"
    using assms by (simp add: camera_of_def)
  then show ?thesis by (auto simp: validate_camera_def not_le)
qed

lemma camera_extra_size_bytes:
  assumes "length (cam_extra_data m) \<le> kMaxCameraExtraDataSize"
  shows "camera_extra_size (camera_bytes m) = length (cam_extra_data m)"
proof -
  have "length (cam_extra_data m) < 2 ^ 32"
    using assms by (simp add: kMaxCameraExtraDataSize_def kMaxPayloadSize_def)
  then show ?thesis
    by (simp add: camera_extra_size_def camera_bytes_def unat_of_nat)
qed

definition payload_bytes :: "sensor_payload \<Rightarrow> bytes" where
  "payload_bytes p =
     (case p of ImuSample s \<Rightarrow> imu_bytes s | GnssFix f \<Rightarrow> gnss_bytes f | CameraMeta m \<Rightarrow> camera_bytes m)"

definition validate_payload :: "sensor_payload \<Rightarrow> sensor_payload_error" where
  "validate_payload p = (case p of ImuSample s \<Rightarrow> validate_imu s | GnssFix f \<Rightarrow> validate_gnss f
     | CameraMeta m \<Rightarrow> validate_camera m)"

lemma encode_sensor_payload_eq_Inr_iff:
  "encode_sensor_payload p = Inr bs \<longleftrightarrow> validate_payload p = PayloadNone \<and> bs = payload_bytes p"
  by (cases p) (auto simp: encode_sensor_payload_def validate_payload_def payload_bytes_def
      encode_imu_eq encode_gnss_eq encode_camera_eq validate_camera_def split: if_splits)

definition decode_payload_opt :: "message_type \<Rightarrow> bytes \<Rightarrow> sensor_payload option cpp" where
  "decode_payload_opt t bs = cbind (decode_sensor_payload t bs) (\<lambda>r. Inr (dsp_payload r))"

lemma type_distinct [simp]:
  "kImu \<noteq> kGnss" "kGnss \<noteq> kImu" "kImu \<noteq> kCameraMeta" "kCameraMeta \<noteq> kImu"
  "kGnss \<noteq> kCameraMeta" "kCameraMeta \<noteq> kGnss"
  by (simp_all add: kImu_def kGnss_def kCameraMeta_def)

lemma verdict_payload [simp]:
  "dsp_payload (payload_verdict p e) = (if e = PayloadNone then Some p else None)"
  "dsp_error (payload_verdict p e) = e"
  "dsp_payload (payload_failure e) = None"
  "dsp_error (payload_failure e) = e"
  "dsp_payload (payload_success p) = Some p"
  "dsp_error (payload_success p) = PayloadNone"
  by (simp_all add: payload_verdict_def payload_failure_def payload_success_def)

lemma decode_payload_returns: "\<exists>r. decode_sensor_payload t bs = Inr r"
  by (simp add: decode_sensor_payload_def decode_imu_eq decode_gnss_eq decode_camera_eq)

lemma decode_payload_bytes:
  assumes "validate_payload p = PayloadNone"
  shows "decode_sensor_payload (message_type_of p) (payload_bytes p) = Inr (payload_success p)"
proof (cases p)
  case (CameraMeta m)
  then have "length (cam_extra_data m) \<le> kMaxCameraExtraDataSize" "validate_camera m = PayloadNone"
    using assms by (auto simp: validate_payload_def validate_camera_def split: if_splits)
  then show ?thesis
    using CameraMeta camera_extra_size_bytes [of m]
    by (simp add: decode_sensor_payload_def message_type_of_def payload_bytes_def decode_camera_eq
        payload_verdict_def)
qed (use assms in \<open>simp_all add: decode_sensor_payload_def message_type_of_def payload_bytes_def
      validate_payload_def decode_imu_eq decode_gnss_eq payload_verdict_def\<close>)

lemma decode_payload_canonical:
  assumes "decode_sensor_payload t bs = Inr r" and "dsp_payload r = Some p"
  shows "message_type_of p = t \<and> validate_payload p = PayloadNone \<and> payload_bytes p = bs"
proof -
  consider "t = kImu" | "t = kGnss" | "t = kCameraMeta"
    using assms by (auto simp: decode_sensor_payload_def split: if_splits)
  then show ?thesis
    using assms
    by cases (auto simp: decode_sensor_payload_def message_type_of_def validate_payload_def
        payload_bytes_def decode_imu_eq decode_gnss_eq decode_camera_eq imu_bytes_of gnss_bytes_of
        camera_bytes_of split: if_splits)
qed

interpretation payload: typed_codec encode_sensor_payload decode_payload_opt message_type_of
proof
  show "\<exists>r. decode_payload_opt t bs = Inr r" for t bs
    using decode_payload_returns [of t bs] by (auto simp: decode_payload_opt_def)
  show "encode_sensor_payload v = Inr bs \<Longrightarrow>
      decode_payload_opt (message_type_of v) bs = Inr (Some v)" for v bs
    by (simp add: encode_sensor_payload_eq_Inr_iff decode_payload_opt_def decode_payload_bytes)
  show "decode_payload_opt t bs = Inr (Some v) \<Longrightarrow>
      encode_sensor_payload v = Inr bs \<and> message_type_of v = t" for t bs v
    using decode_payload_canonical [of t bs _ v]
    by (auto simp: decode_payload_opt_def encode_sensor_payload_eq_Inr_iff cbind_eq_Inr_iff)
qed

lemma payload_size: "validate_payload p = PayloadNone \<Longrightarrow> length (payload_bytes p) \<le> kMaxPayloadSize"
  by (cases p) (auto simp: payload_bytes_def validate_payload_def validate_camera_def
      kMaxCameraExtraDataSize_def kMaxPayloadSize_def kCameraMetaFixedPayloadSize_def split: if_splits)

section \<open>The literals denote the documented limits\<close>

lemma real_limits [simp]:
  "real64 f64_90 = 90" "real64 f64_m90 = - 90" "real64 f64_180 = 180" "real64 f64_m180 = - 180"
  "real32 f32_0 = 0"
  by (simp_all add: real64_def scaled64_def exp64_def man64_def neg64_def scaled_magnitude_def
      f64_90_def f64_m90_def f64_180_def f64_m180_def f32_0_def bit_numeral_rec)

lemma limits_finite [simp]:
  "isfinite64 f64_90" "isfinite64 f64_m90" "isfinite64 f64_180" "isfinite64 f64_m180" "isfinite32 f32_0"
  by (simp_all add: isfinite64_def exp64_def f64_90_def f64_m90_def f64_180_def f64_m180_def f32_0_def)

lemma validate_gnss_iff:
  "validate_gnss f = PayloadNone \<longleftrightarrow>
     isfinite64 (gnss_latitude_deg f) \<and> isfinite64 (gnss_longitude_deg f)
   \<and> isfinite64 (gnss_altitude_m f) \<and> isfinite32 (gnss_horizontal_accuracy_m f)
   \<and> isfinite32 (gnss_vertical_accuracy_m f)
   \<and> \<bar>real64 (gnss_latitude_deg f)\<bar> \<le> 90 \<and> \<bar>real64 (gnss_longitude_deg f)\<bar> \<le> 180
   \<and> 0 \<le> real32 (gnss_horizontal_accuracy_m f) \<and> 0 \<le> real32 (gnss_vertical_accuracy_m f)"
  by (auto simp: validate_gnss_def less64_real less32_real not_less)

lemma validate_imu_iff:
  "validate_imu s = PayloadNone \<longleftrightarrow>
     (\<forall>v \<in> {imu_linear_acceleration_mps2 s, imu_angular_velocity_rps s}.
        isfinite32 (vec_x v) \<and> isfinite32 (vec_y v) \<and> isfinite32 (vec_z v))"
  by (auto simp: validate_imu_def Let_def)

section \<open>Properties\<close>

text \<open>A concrete valid sample: the \<open>GnssFix\<close> at the limits of its ranges.\<close>

definition edge_fix :: gnss_fix where
  "edge_fix = \<lparr>gnss_latitude_deg = f64_m90, gnss_longitude_deg = f64_180, gnss_altitude_m = f64_90,
     gnss_horizontal_accuracy_m = f32_0, gnss_vertical_accuracy_m = f32_0\<rparr>"

lemma edge_fix_valid: "validate_payload (GnssFix edge_fix) = PayloadNone"
  by (simp add: validate_payload_def validate_gnss_iff edge_fix_def)

text \<open>What a valid sample is, in terms of the values: independent of the validation routines and of
  their comparisons of bit patterns.\<close>

definition sample_in_range :: "sensor_payload \<Rightarrow> bool" where
  "sample_in_range p =
     (case p of
        ImuSample s \<Rightarrow> list_all (\<lambda>v. isfinite32 (vec_x v) \<and> isfinite32 (vec_y v) \<and> isfinite32 (vec_z v))
          [imu_linear_acceleration_mps2 s, imu_angular_velocity_rps s]
      | GnssFix f \<Rightarrow>
          isfinite64 (gnss_latitude_deg f) \<and> isfinite64 (gnss_longitude_deg f) \<and> isfinite64 (gnss_altitude_m f)
          \<and> isfinite32 (gnss_horizontal_accuracy_m f) \<and> isfinite32 (gnss_vertical_accuracy_m f)
          \<and> \<bar>real64 (gnss_latitude_deg f)\<bar> \<le> 90 \<and> \<bar>real64 (gnss_longitude_deg f)\<bar> \<le> 180
          \<and> 0 \<le> real32 (gnss_horizontal_accuracy_m f) \<and> 0 \<le> real32 (gnss_vertical_accuracy_m f)
      | CameraMeta m \<Rightarrow> 0 < unat (cam_width m) \<and> 0 < unat (cam_height m)
          \<and> length (cam_extra_data m) \<le> kMaxCameraExtraDataSize)"

lemma validate_payload_iff: "validate_payload p = PayloadNone \<longleftrightarrow> sample_in_range p"
  by (cases p) (auto simp: validate_payload_def sample_in_range_def validate_imu_iff validate_gnss_iff
      validate_camera_def unat_gt_0)

lemma encode_outcome:
  "encode_sensor_payload p =
     (if \<exists>m. p = CameraMeta m \<and> kMaxCameraExtraDataSize < length (cam_extra_data m)
      then Inl (Length_error ''camera extra data exceeds the DriveFlow payload limit'')
      else if validate_payload p = PayloadNone then Inr (payload_bytes p)
      else Inl (Invalid_argument (payload_error_to_string (validate_payload p))))"
  by (cases p) (auto simp: encode_sensor_payload_def validate_payload_def payload_bytes_def
      encode_imu_eq encode_gnss_eq encode_camera_eq require_valid_def)

text \<open>C6. Round trip of the typed payloads, for every in-memory sample. When \<open>encode_sensor_payload\<close>
  returns bytes, the sample is in range (every number finite, coordinates and accuracies within
  their limits, image dimensions positive, extra data within its limit), the bytes fit the packet
  payload limit, and they decode under the sample's own message type to the same sample, bit for bit
  (floating point fields included). When it throws, the sample is out of range, and the exception is
  \<open>std::length_error\<close> for too much camera data and \<open>std::invalid_argument\<close> with the text of the
  validation error otherwise. So exactly the samples in range are encoded.\<close>

theorem payload_roundtrip:
  "case encode_sensor_payload p of
     Inr bs \<Rightarrow> sample_in_range p \<and> length bs \<le> kMaxPayloadSize
       \<and> decode_sensor_payload (message_type_of p) bs = Inr \<lparr>dsp_payload = Some p, dsp_error = PayloadNone\<rparr>
   | Inl e \<Rightarrow> \<not> sample_in_range p
       \<and> e = (if \<exists>m. p = CameraMeta m \<and> kMaxCameraExtraDataSize < length (cam_extra_data m)
              then Length_error ''camera extra data exceeds the DriveFlow payload limit''
              else Invalid_argument (payload_error_to_string (validate_payload p)))"
proof (cases "encode_sensor_payload p")
  case (Inr bs)
  then have v: "validate_payload p = PayloadNone" "bs = payload_bytes p"
    by (simp_all add: encode_sensor_payload_eq_Inr_iff)
  then have "sample_in_range p" by (simp add: validate_payload_iff)
  then show ?thesis
    using Inr v(2) payload_size [OF v(1)] decode_payload_bytes [OF v(1)] by (simp add: payload_success_def)
next
  case (Inl e)
  then have "validate_payload p \<noteq> PayloadNone"
    using encode_sensor_payload_eq_Inr_iff [of p "payload_bytes p"] by auto
  then have "\<not> sample_in_range p" by (simp add: validate_payload_iff)
  with Inl encode_outcome [of p] show ?thesis by (auto split: if_splits)
qed

lemma payload_roundtrip_witness:
  "encode_sensor_payload (GnssFix edge_fix) = Inr (payload_bytes (GnssFix edge_fix))
   \<and> decode_sensor_payload kGnss (payload_bytes (GnssFix edge_fix))
      = Inr \<lparr>dsp_payload = Some (GnssFix edge_fix), dsp_error = PayloadNone\<rparr>
   \<and> encode_sensor_payload (GnssFix (edge_fix\<lparr>gnss_latitude_deg := f64_180\<rparr>))
      = Inl (Invalid_argument ''sensor payload value is out of range'')"
proof -
  let ?bad = "GnssFix (edge_fix\<lparr>gnss_latitude_deg := f64_180\<rparr>)"
  have e: "encode_sensor_payload (GnssFix edge_fix) = Inr (payload_bytes (GnssFix edge_fix))"
    using edge_fix_valid by (simp add: encode_sensor_payload_eq_Inr_iff)
  have bad: "\<not> sample_in_range ?bad" by (simp add: sample_in_range_def)
  have v: "validate_payload ?bad = ValueOutOfRange"
    by (simp add: validate_payload_def validate_gnss_def edge_fix_def less64_real less32_real)
  have "encode_sensor_payload ?bad = Inl (Invalid_argument ''sensor payload value is out of range'')"
    using payload_roundtrip [of ?bad] bad v
    by (cases "encode_sensor_payload ?bad") (simp_all add: payload_error_to_string_def)
  then show ?thesis
    using payload_roundtrip [of "GnssFix edge_fix"] e by (simp add: message_type_of_def)
qed

text \<open>C7. What \<open>decode_sensor_payload\<close> accepts is valid and canonical: the decoded sample has the
  requested message type, passes the same validation the encoder applies, and re-encodes to exactly
  the bytes that were decoded.\<close>

theorem payload_decode_canonical:
  assumes "decode_sensor_payload t bs = Inr r" and "dsp_payload r = Some p"
  shows "message_type_of p = t \<and> validate_payload p = PayloadNone \<and> encode_sensor_payload p = Inr bs"
  using decode_payload_canonical [OF assms] by (simp add: encode_sensor_payload_eq_Inr_iff)

lemma payload_decode_canonical_witness:
  "\<exists>bs r. decode_sensor_payload kGnss bs = Inr r \<and> dsp_payload r = Some (GnssFix edge_fix)
    \<and> message_type_of (GnssFix edge_fix) = kGnss \<and> validate_payload (GnssFix edge_fix) = PayloadNone
    \<and> encode_sensor_payload (GnssFix edge_fix) = Inr bs"
proof -
  have "decode_sensor_payload kGnss (payload_bytes (GnssFix edge_fix))
      = Inr (payload_success (GnssFix edge_fix))"
    using decode_payload_bytes [OF edge_fix_valid] by (simp add: message_type_of_def)
  from payload_decode_canonical [OF this, of "GnssFix edge_fix"] this show ?thesis
    by (metis verdict_payload(5))
qed

text \<open>C9. Acceptance of GNSS bytes means what the schema documents, in real numbers: every field is
  finite, latitude lies in [-90, 90], longitude in [-180, 180] and both accuracies are at least 0;
  conversely 32 bytes whose fields satisfy this are accepted.\<close>

theorem gnss_accepted_iff_in_range:
  "(\<exists>r f. decode_sensor_payload kGnss bs = Inr r \<and> dsp_payload r = Some (GnssFix f)) \<longleftrightarrow>
     length bs = 32 \<and> isfinite64 (gnss_latitude_deg (gnss_of bs))
     \<and> isfinite64 (gnss_longitude_deg (gnss_of bs)) \<and> isfinite64 (gnss_altitude_m (gnss_of bs))
     \<and> isfinite32 (gnss_horizontal_accuracy_m (gnss_of bs))
     \<and> isfinite32 (gnss_vertical_accuracy_m (gnss_of bs))
     \<and> \<bar>real64 (gnss_latitude_deg (gnss_of bs))\<bar> \<le> 90 \<and> \<bar>real64 (gnss_longitude_deg (gnss_of bs))\<bar> \<le> 180
     \<and> 0 \<le> real32 (gnss_horizontal_accuracy_m (gnss_of bs))
     \<and> 0 \<le> real32 (gnss_vertical_accuracy_m (gnss_of bs))"
  using validate_gnss_iff [of "gnss_of bs"]
  by (auto simp: decode_sensor_payload_def decode_gnss_eq split: if_splits)

text \<open>The checks of each decoder, in order, with the error each raises.\<close>

definition payload_checks :: "message_type \<Rightarrow> bytes \<Rightarrow> (bool \<times> sensor_payload_error) list" where
  "payload_checks t bs =
     (if t = kImu then
        [(length bs \<noteq> kImuPayloadSize, SizeMismatch),
         (validate_imu (imu_of bs) \<noteq> PayloadNone, NonFiniteNumber)]
      else if t = kGnss then
        [(length bs \<noteq> kGnssPayloadSize, SizeMismatch),
         (validate_gnss (gnss_of bs) = NonFiniteNumber, NonFiniteNumber),
         (validate_gnss (gnss_of bs) = ValueOutOfRange, ValueOutOfRange)]
      else if t = kCameraMeta then
        [(length bs < kCameraMetaFixedPayloadSize, SizeMismatch),
         (kMaxCameraExtraDataSize < camera_extra_size bs, ValueOutOfRange),
         (length bs \<noteq> kCameraMetaFixedPayloadSize + camera_extra_size bs, SizeMismatch),
         (cam_width (camera_of bs) = 0 \<or> cam_height (camera_of bs) = 0, ValueOutOfRange)]
      else [(True, PayloadUnknownMessageType)])"

lemma validate_imu_cases: "validate_imu s = PayloadNone \<or> validate_imu s = NonFiniteNumber"
  by (simp add: validate_imu_def Let_def)

lemma validate_gnss_cases:
  "validate_gnss f = PayloadNone \<or> validate_gnss f = NonFiniteNumber \<or> validate_gnss f = ValueOutOfRange"
  by (simp add: validate_gnss_def)

lemma validate_camera_cases: "validate_camera m = PayloadNone \<or> validate_camera m = ValueOutOfRange"
  by (simp add: validate_camera_def)

lemma decode_payload_error_iff:
  "decode_sensor_payload t bs = Inr r \<Longrightarrow> dsp_payload r = None \<longleftrightarrow> dsp_error r \<noteq> PayloadNone"
  by (auto simp: decode_sensor_payload_def decode_imu_eq decode_gnss_eq decode_camera_eq
      payload_verdict_def payload_failure_def payload_success_def split: if_splits)

text \<open>C8. The payload decoder is total and memory safe on untrusted bytes of any claimed type: it
  returns without leaving the span, a sample is present exactly when the error is \<open>kNone\<close>, and the
  error is that of the first failing check of the type's schema.\<close>

theorem decode_payload_first_failure:
  "\<exists>r. decode_sensor_payload t bs = Inr r
    \<and> dsp_error r = (case find fst (payload_checks t bs) of None \<Rightarrow> PayloadNone | Some c \<Rightarrow> snd c)
    \<and> (dsp_payload r = None \<longleftrightarrow> dsp_error r \<noteq> PayloadNone)"
proof -
  obtain r where r: "decode_sensor_payload t bs = Inr r" using decode_payload_returns by blast
  consider "t = kImu" | "t = kGnss" | "t = kCameraMeta" | "t \<notin> {kImu, kGnss, kCameraMeta}" by blast
  then have "dsp_error r = (case find fst (payload_checks t bs) of None \<Rightarrow> PayloadNone | Some c \<Rightarrow> snd c)
    \<and> (dsp_payload r = None \<longleftrightarrow> dsp_error r \<noteq> PayloadNone)"
  proof cases
    case 1
    then show ?thesis using r validate_imu_cases [of "imu_of bs"]
      by (auto simp: decode_sensor_payload_def decode_imu_eq payload_checks_def kImuPayloadSize_def
          split: if_splits)
  next
    case 2
    then show ?thesis using r validate_gnss_cases [of "gnss_of bs"]
      by (auto simp: decode_sensor_payload_def decode_gnss_eq payload_checks_def kGnssPayloadSize_def
          split: if_splits)
  next
    case 3
    obtain n m where n: "camera_extra_size bs = n" and m: "camera_of bs = m" by blast
    have v: "validate_camera m = (if cam_width m = 0 \<or> cam_height m = 0 then ValueOutOfRange else PayloadNone)"
      if "length bs = 24 + n" "n \<le> kMaxCameraExtraDataSize"
      using that validate_camera_of [of bs] validate_camera_cases [of m] by (auto simp: n m)
    have "r = (if length bs < 24 then payload_failure SizeMismatch
       else if n > kMaxCameraExtraDataSize then payload_failure ValueOutOfRange
       else if length bs \<noteq> 24 + n then payload_failure SizeMismatch
       else payload_verdict (CameraMeta m) (validate_camera m))"
      using r unfolding decode_sensor_payload_def 3 decode_camera_eq n m by simp
    with 3 v show ?thesis
      by (simp add: payload_checks_def kCameraMetaFixedPayloadSize_def n m)
  next
    case 4
    then show ?thesis using r
      by (auto simp: decode_sensor_payload_def payload_checks_def split: if_splits)
  qed
  with r show ?thesis by (intro exI [of _ r] conjI) blast+
qed

end
