(* ===== verification/Simulator_Config.thy ===== *)
theory Simulator_Config
  imports Float_Text Udp_Socket Sensor_Payload
begin

text \<open>
  The configuration of the sensor simulator: the types of
  \<open>src/include/driveflow/simulator/sensor_simulator.hpp\<close>, and \<open>parse_simulator_config\<close> and
  \<open>validate_runtime_config\<close> of \<open>src/src/simulator/sensor_simulator.cpp\<close>. \<open>SensorType\<close> is an enum class,
  so a value that is no enumerator is representable. \<open>inet_pton\<close> is a parameter.
\<close>

section \<open>Data\<close>

datatype sensor_type = SensorType (raw_sensor: int)

definition kSensorImu :: sensor_type where "kSensorImu = SensorType 0"
definition kSensorGnss :: sensor_type where "kSensorGnss = SensorType 1"
definition kSensorCameraMeta :: sensor_type where "kSensorCameraMeta = SensorType 2"

record periodic_delay =
  pd_every :: u64
  pd_duration_ms :: int

record fault_config =
  fc_drop_every :: "u64 option"
  fc_duplicate_every :: "u64 option"
  fc_reorder_every :: "u64 option"
  fc_delay :: "periodic_delay option"
  fc_corrupt_every :: "u64 option"

record simulator_config =
  sc_sensor_type :: sensor_type
  sc_destination :: ipv4_endpoint
  sc_rate_hz :: float64
  sc_packet_count :: "u64 option"
  sc_camera_extra_data_bytes :: nat
  sc_faults :: fault_config

definition no_faults :: fault_config where
  "no_faults = \<lparr>fc_drop_every = None, fc_duplicate_every = None, fc_reorder_every = None,
     fc_delay = None, fc_corrupt_every = None\<rparr>"

definition kMaximumRateHz :: float64 where "kMaximumRateHz = Float64 0x412E848000000000"
definition kMaximumFaultDelay :: int where "kMaximumFaultDelay = 60000"
definition f64_zero :: float64 where "f64_zero = Float64 0"

section \<open>Helpers\<close>

definition is_ipv4_address :: "'w os \<Rightarrow> string \<Rightarrow> bool" where
  "is_ipv4_address os text = (case lib_inet_pton os (c_str text) of PtonOk _ \<Rightarrow> True | _ \<Rightarrow> False)"

definition default_rate_hz :: "sensor_type \<Rightarrow> float64" where
  "default_rate_hz sensor_type =
     (if sensor_type = kSensorImu then Float64 0x4069000000000000
      else if sensor_type = kSensorGnss then Float64 0x4024000000000000
      else Float64 0x403E000000000000)"

text \<open>\<open>!isfinite(rate) || rate <= 0.0 || rate > kMaximumRateHz\<close>.\<close>

definition bad_rate :: "float64 \<Rightarrow> bool" where
  "bad_rate rate \<longleftrightarrow> \<not> isfinite64 rate \<or> \<not> isnan64 rate \<and> scaled64 rate \<le> scaled64 f64_zero
     \<or> less64 kMaximumRateHz rate"

definition validate_interval :: "u64 option \<Rightarrow> string \<Rightarrow> 'a cpp \<Rightarrow> 'a cpp" where
  "validate_interval interval name =
     throw_if (interval = Some 0) (Invalid_argument (name @ '' must be positive''))"

definition validate_simulator_config :: "'w os \<Rightarrow> simulator_config \<Rightarrow> unit cpp" where
  "validate_simulator_config os c =
     throw_if (sc_sensor_type c \<noteq> kSensorImu \<and> sc_sensor_type c \<noteq> kSensorGnss
         \<and> sc_sensor_type c \<noteq> kSensorCameraMeta) (Invalid_argument ''unknown sensor type'')
     (throw_if (\<not> is_ipv4_address os (ep_address (sc_destination c)))
        (Invalid_argument ''destination must be an IPv4 address'')
     (throw_if (ep_port (sc_destination c) = 0)
        (Invalid_argument ''destination port must be between 1 and 65535'')
     (throw_if (bad_rate (sc_rate_hz c))
        (Invalid_argument ''rate must be greater than 0 and no more than 1000000 Hz'')
     (throw_if (sc_packet_count c = Some 0) (Invalid_argument ''packet count must be positive'')
     (throw_if (sc_camera_extra_data_bytes c > kMaxCameraExtraDataSize)
        (Invalid_argument ''camera extra data exceeds the protocol payload limit'')
     (throw_if (sc_sensor_type c \<noteq> kSensorCameraMeta \<and> sc_camera_extra_data_bytes c \<noteq> 0)
        (Invalid_argument ''camera extra data is only valid for CameraMeta'')
     (validate_interval (fc_drop_every (sc_faults c)) ''drop interval''
     (validate_interval (fc_duplicate_every (sc_faults c)) ''duplicate interval''
     (validate_interval (fc_reorder_every (sc_faults c)) ''reorder interval''
     (validate_interval (fc_corrupt_every (sc_faults c)) ''corrupt interval''
     (case fc_delay (sc_faults c) of
        None \<Rightarrow> Inr ()
      | Some delay \<Rightarrow>
          throw_if (pd_every delay = 0) (Invalid_argument ''delay interval must be positive'')
          (throw_if (pd_duration_ms delay \<le> 0 \<or> pd_duration_ms delay > kMaximumFaultDelay)
             (Invalid_argument ''delay must be between 1 and 60000 milliseconds'')
          (Inr ())))))))))))))"

section \<open>The command line\<close>

text \<open>The locals of \<open>parse_simulator_config\<close>.\<close>

record parse_state =
  ps_config :: simulator_config
  ps_has_sensor :: bool
  ps_has_explicit_rate :: bool
  ps_delay_every :: "u64 option"
  ps_delay_ms :: "u64 option"

definition initial_parse_state :: parse_state where
  "initial_parse_state =
     \<lparr>ps_config = \<lparr>sc_sensor_type = kSensorImu,
        sc_destination = \<lparr>ep_address = ''127.0.0.1'', ep_port = 9000\<rparr>, sc_rate_hz = f64_zero,
        sc_packet_count = None, sc_camera_extra_data_bytes = 0, sc_faults = no_faults\<rparr>,
      ps_has_sensor = False, ps_has_explicit_rate = False, ps_delay_every = None, ps_delay_ms = None\<rparr>"

text \<open>An interval: \<open>parse_number\<close> into a \<open>uint64_t\<close>, not zero.\<close>

definition parse_interval :: "string \<Rightarrow> u64 option" where
  "parse_interval text = (case parse_whole uint64_max text of
      None \<Rightarrow> None | Some v \<Rightarrow> if v = 0 then None else Some (word_of_int v))"

definition set_faults :: "parse_state \<Rightarrow> (fault_config \<Rightarrow> fault_config) \<Rightarrow> parse_state" where
  "set_faults s f = s\<lparr>ps_config := (ps_config s)\<lparr>sc_faults := f (sc_faults (ps_config s))\<rparr>\<rparr>"

definition with_interval ::
  "string \<Rightarrow> string \<Rightarrow> (u64 \<Rightarrow> parse_state) \<Rightarrow> string + parse_state" where
  "with_interval name text f = (case parse_interval text of
      None \<Rightarrow> Inl (name @ '' must be a positive integer'') | Some interval \<Rightarrow> Inr (f interval))"

definition apply_simulator_option :: "string \<Rightarrow> string \<Rightarrow> parse_state \<Rightarrow> string + parse_state" where
  "apply_simulator_option option text s =
     (let c = ps_config s in
      if option = ''--sensor'' then
        (if text = ''imu'' then Inr (s\<lparr>ps_config := c\<lparr>sc_sensor_type := kSensorImu\<rparr>, ps_has_sensor := True\<rparr>)
         else if text = ''gnss'' then Inr (s\<lparr>ps_config := c\<lparr>sc_sensor_type := kSensorGnss\<rparr>, ps_has_sensor := True\<rparr>)
         else if text = ''camera'' then
           Inr (s\<lparr>ps_config := c\<lparr>sc_sensor_type := kSensorCameraMeta\<rparr>, ps_has_sensor := True\<rparr>)
         else Inl ''sensor must be imu, gnss, or camera'')
      else if option = ''--destination'' then
        Inr (s\<lparr>ps_config := c\<lparr>sc_destination := (sc_destination c)\<lparr>ep_address := text\<rparr>\<rparr>\<rparr>)
      else if option = ''--port'' then
        (case parse_whole 65535 text of
           None \<Rightarrow> Inl ''port must be an integer between 1 and 65535''
         | Some v \<Rightarrow> Inr (s\<lparr>ps_config := c\<lparr>sc_destination := (sc_destination c)\<lparr>ep_port := word_of_int v\<rparr>\<rparr>\<rparr>))
      else if option = ''--rate-hz'' then
        (case parse_whole_double text of
           None \<Rightarrow> Inl ''rate-hz must be a number''
         | Some v \<Rightarrow> Inr (s\<lparr>ps_config := c\<lparr>sc_rate_hz := v\<rparr>, ps_has_explicit_rate := True\<rparr>))
      else if option = ''--count'' then
        (case parse_whole uint64_max text of
           None \<Rightarrow> Inl ''count must be a positive integer''
         | Some v \<Rightarrow> Inr (s\<lparr>ps_config := c\<lparr>sc_packet_count := Some (word_of_int v)\<rparr>\<rparr>))
      else if option = ''--camera-extra-bytes'' then
        (case parse_whole uint64_max text of
           None \<Rightarrow> Inl ''camera-extra-bytes must be a non-negative integer''
         | Some v \<Rightarrow> Inr (s\<lparr>ps_config := c\<lparr>sc_camera_extra_data_bytes := nat v\<rparr>\<rparr>))
      else if option = ''--drop-every'' then
        with_interval ''drop-every'' text (\<lambda>n. set_faults s (\<lambda>f. f\<lparr>fc_drop_every := Some n\<rparr>))
      else if option = ''--duplicate-every'' then
        with_interval ''duplicate-every'' text (\<lambda>n. set_faults s (\<lambda>f. f\<lparr>fc_duplicate_every := Some n\<rparr>))
      else if option = ''--reorder-every'' then
        with_interval ''reorder-every'' text (\<lambda>n. set_faults s (\<lambda>f. f\<lparr>fc_reorder_every := Some n\<rparr>))
      else if option = ''--delay-every'' then
        with_interval ''delay-every'' text (\<lambda>n. s\<lparr>ps_delay_every := Some n\<rparr>)
      else if option = ''--delay-ms'' then
        (case parse_whole uint64_max text of
           None \<Rightarrow> Inl ''delay-ms must be an integer between 1 and 60000''
         | Some v \<Rightarrow>
             if v = 0 \<or> v > kMaximumFaultDelay then Inl ''delay-ms must be an integer between 1 and 60000''
             else Inr (s\<lparr>ps_delay_ms := Some (word_of_int v)\<rparr>))
      else if option = ''--corrupt-every'' then
        with_interval ''corrupt-every'' text (\<lambda>n. set_faults s (\<lambda>f. f\<lparr>fc_corrupt_every := Some n\<rparr>))
      else Inl (''unknown option: '' @ option))"

fun parse_simulator_arguments :: "parse_state \<Rightarrow> string set \<Rightarrow> string list \<Rightarrow> string + parse_state" where
  "parse_simulator_arguments s seen [] = Inr s"
| "parse_simulator_arguments s seen [option] = Inl ''every option requires a value''"
| "parse_simulator_arguments s seen (option # text # arguments) =
     (if option \<in> seen then Inl (''option specified more than once: '' @ option)
      else (case apply_simulator_option option text s of
          Inl e \<Rightarrow> Inl e
        | Inr s \<Rightarrow> parse_simulator_arguments s (insert option seen) arguments))"

definition fail_if :: "bool \<Rightarrow> string \<Rightarrow> string + 'a \<Rightarrow> string + 'a" where
  "fail_if c e m = (if c then Inl e else m)"

definition parse_simulator_config :: "'w os \<Rightarrow> string list \<Rightarrow> string + simulator_config" where
  "parse_simulator_config os arguments =
     (case parse_simulator_arguments initial_parse_state {} arguments of
        Inl e \<Rightarrow> Inl e
      | Inr s \<Rightarrow>
          (let c = ps_config s in
           fail_if (\<not> ps_has_sensor s) ''--sensor is required''
           (let c = (if ps_has_explicit_rate s then c else c\<lparr>sc_rate_hz := default_rate_hz (sc_sensor_type c)\<rparr>) in
            fail_if (\<not> is_ipv4_address os (ep_address (sc_destination c))) ''destination must be an IPv4 address''
            (fail_if (ep_port (sc_destination c) = 0) ''port must be an integer between 1 and 65535''
            (fail_if (bad_rate (sc_rate_hz c)) ''rate-hz must be greater than 0 and no more than 1000000''
            (fail_if (sc_packet_count c = Some 0) ''count must be a positive integer''
            (fail_if (sc_camera_extra_data_bytes c > kMaxCameraExtraDataSize)
               ''camera-extra-bytes exceeds the protocol payload limit''
            (fail_if (sc_sensor_type c \<noteq> kSensorCameraMeta \<and> sc_camera_extra_data_bytes c \<noteq> 0)
               ''camera-extra-bytes is only valid for the camera sensor''
            (fail_if ((ps_delay_every s \<noteq> None) \<noteq> (ps_delay_ms s \<noteq> None))
               ''--delay-every and --delay-ms must be specified together''
            (case (ps_delay_every s, ps_delay_ms s) of
               (Some every, Some ms) \<Rightarrow>
                 Inr (c\<lparr>sc_faults := (sc_faults c)\<lparr>fc_delay := Some \<lparr>pd_every = every, pd_duration_ms = sint ms\<rparr>\<rparr>\<rparr>)
             | _ \<Rightarrow> Inr c))))))))))"


section \<open>The parser and the checks of the simulator agree\<close>

definition known_sensor :: "sensor_type \<Rightarrow> bool" where
  "known_sensor t \<longleftrightarrow> t = kSensorImu \<or> t = kSensorGnss \<or> t = kSensorCameraMeta"

definition positive_intervals :: "fault_config \<Rightarrow> bool" where
  "positive_intervals f \<longleftrightarrow> fc_drop_every f \<noteq> Some 0 \<and> fc_duplicate_every f \<noteq> Some 0
     \<and> fc_reorder_every f \<noteq> Some 0 \<and> fc_corrupt_every f \<noteq> Some 0"

definition parse_ok :: "parse_state \<Rightarrow> bool" where
  "parse_ok s \<longleftrightarrow> known_sensor (sc_sensor_type (ps_config s)) \<and> positive_intervals (sc_faults (ps_config s))
     \<and> fc_delay (sc_faults (ps_config s)) = None \<and> ps_delay_every s \<noteq> Some 0
     \<and> (\<forall>ms. ps_delay_ms s = Some ms \<longrightarrow> 0 < sint ms \<and> sint ms \<le> kMaximumFaultDelay)"

lemma parse_interval_nonzero: "parse_interval text = Some n \<Longrightarrow> n \<noteq> 0"
proof -
  assume "parse_interval text = Some n"
  then obtain v where v: "parse_whole uint64_max text = Some v" "v \<noteq> 0" "n = word_of_int v"
    by (auto simp: parse_interval_def split: option.splits if_splits)
  then have "0 < v \<and> v < 2 ^ 64" using parse_whole_bounds [OF v(1)] by (simp add: uint64_max_def)
  then have "uint n = v" by (simp add: v(3) uint_word_of_int)
  then show ?thesis using v(2) by auto
qed

lemma with_interval_Inr:
  "with_interval name text f = Inr s \<longleftrightarrow> (\<exists>n. parse_interval text = Some n \<and> s = f n)"
  by (auto simp: with_interval_def split: option.splits)

lemma small_sint: "0 \<le> v \<Longrightarrow> v \<le> kMaximumFaultDelay \<Longrightarrow> sint (word_of_int v :: u64) = v"
  by (simp add: kMaximumFaultDelay_def sint_uint signed_take_bit_int_eq_self uint_word_of_int)

lemma apply_simulator_option_ok:
  assumes "apply_simulator_option option text s = Inr t" "parse_ok s"
  shows "parse_ok t"
proof -
  have sint: "0 < sint (word_of_int v :: u64) \<and> sint (word_of_int v :: u64) \<le> kMaximumFaultDelay"
    if "parse_whole uint64_max text = Some v" "v \<noteq> 0" "\<not> v > kMaximumFaultDelay" for v
    using parse_whole_bounds [OF that(1)] that(2,3) by (simp add: small_sint)
  show ?thesis
    using assms
    by (auto simp: apply_simulator_option_def with_interval_Inr set_faults_def parse_ok_def known_sensor_def
        positive_intervals_def Let_def sint split: if_splits option.splits
        dest: parse_interval_nonzero)
qed

lemma parse_simulator_arguments_ok:
  "parse_simulator_arguments s seen args = Inr t \<Longrightarrow> parse_ok s \<Longrightarrow> parse_ok t"
  by (induction s seen args rule: parse_simulator_arguments.induct)
    (auto split: if_splits sum.splits dest: apply_simulator_option_ok)

lemma fail_if_Inr [simp]: "fail_if c e m = Inr x \<longleftrightarrow> \<not> c \<and> m = Inr x"
  by (simp add: fail_if_def)

lemma default_rate_good: "\<not> bad_rate (default_rate_hz t)"
proof -
  have "\<not> bad_rate (Float64 0x4069000000000000)" "\<not> bad_rate (Float64 0x4024000000000000)"
    "\<not> bad_rate (Float64 0x403E000000000000)"
    by (simp_all add: bad_rate_def isfinite64_def isnan64_def exp64_def man64_def scaled64_def neg64_def
        scaled_magnitude_def less64_def kMaximumRateHz_def f64_zero_def)
  then show ?thesis by (simp add: default_rate_hz_def)
qed

text \<open>What a successful parse has checked.\<close>

lemma parse_simulator_config_Inr:
  assumes "parse_simulator_config os args = Inr c"
  obtains s c0 d where "parse_simulator_arguments initial_parse_state {} args = Inr s"
    "c0 = (if ps_has_explicit_rate s then ps_config s
           else (ps_config s)\<lparr>sc_rate_hz := default_rate_hz (sc_sensor_type (ps_config s))\<rparr>)"
    "is_ipv4_address os (ep_address (sc_destination c0))" "ep_port (sc_destination c0) \<noteq> 0"
    "\<not> bad_rate (sc_rate_hz c0)" "sc_packet_count c0 \<noteq> Some 0"
    "sc_camera_extra_data_bytes c0 \<le> kMaxCameraExtraDataSize"
    "sc_sensor_type c0 = kSensorCameraMeta \<or> sc_camera_extra_data_bytes c0 = 0"
    "c = c0\<lparr>sc_faults := (sc_faults c0)\<lparr>fc_delay := d\<rparr>\<rparr> \<or> c = c0 \<and> d = None"
    "\<forall>p. d = Some p \<longrightarrow> (\<exists>ms. ps_delay_every s = Some (pd_every p) \<and> ps_delay_ms s = Some ms
       \<and> pd_duration_ms p = sint ms)"
proof -
  obtain s where s: "parse_simulator_arguments initial_parse_state {} args = Inr s"
    using assms by (auto simp: parse_simulator_config_def split: sum.splits)
  define c0 where "c0 = (if ps_has_explicit_rate s then ps_config s
           else (ps_config s)\<lparr>sc_rate_hz := default_rate_hz (sc_sensor_type (ps_config s))\<rparr>)"
  have checks: "is_ipv4_address os (ep_address (sc_destination c0))" "ep_port (sc_destination c0) \<noteq> 0"
    "\<not> bad_rate (sc_rate_hz c0)" "sc_packet_count c0 \<noteq> Some 0"
    "sc_camera_extra_data_bytes c0 \<le> kMaxCameraExtraDataSize"
    "sc_sensor_type c0 = kSensorCameraMeta \<or> sc_camera_extra_data_bytes c0 = 0"
    and c: "(case (ps_delay_every s, ps_delay_ms s) of
               (Some every, Some ms) \<Rightarrow>
                 Inr (c0\<lparr>sc_faults := (sc_faults c0)\<lparr>fc_delay := Some \<lparr>pd_every = every, pd_duration_ms = sint ms\<rparr>\<rparr>\<rparr>)
             | _ \<Rightarrow> Inr c0) = (Inr c :: string + simulator_config)"
    using assms unfolding parse_simulator_config_def s Let_def c0_def [symmetric] sum.case
    by (simp_all only: fail_if_Inr not_less simp_thms de_Morgan_conj)
  show thesis
  proof (cases "ps_delay_every s = None \<or> ps_delay_ms s = None")
    case True
    then have "c = c0" using c by (auto split: option.splits)
    then show thesis using that [where d = None, OF s c0_def checks] by simp
  next
    case False
    then obtain every ms where e: "ps_delay_every s = Some every" "ps_delay_ms s = Some ms" by auto
    then have "c = c0\<lparr>sc_faults := (sc_faults c0)\<lparr>fc_delay := Some \<lparr>pd_every = every, pd_duration_ms = sint ms\<rparr>\<rparr>\<rparr>"
      using c by simp
    then show thesis
      using that [where d = "Some \<lparr>pd_every = every, pd_duration_ms = sint ms\<rparr>", OF s c0_def checks] e
      by simp
  qed
qed

lemma apply_simulator_option_rate:
  "apply_simulator_option option text s = Inr t \<Longrightarrow> option \<noteq> ''--rate-hz'' \<Longrightarrow>
   ps_has_explicit_rate t = ps_has_explicit_rate s"
  by (auto simp: apply_simulator_option_def with_interval_Inr set_faults_def Let_def
      split: if_splits option.splits)

lemma parse_simulator_arguments_rate:
  "parse_simulator_arguments s seen xs = Inr t \<Longrightarrow> ''--rate-hz'' \<notin> set xs \<Longrightarrow>
   ps_has_explicit_rate t = ps_has_explicit_rate s"
proof (induction s seen xs rule: parse_simulator_arguments.induct)
  case (3 s seen name v arguments)
  then obtain u where u: "name \<notin> seen" "apply_simulator_option name v s = Inr u"
    by (auto split: if_splits sum.splits)
  then have "ps_has_explicit_rate u = ps_has_explicit_rate s"
    using 3(3) by (intro apply_simulator_option_rate) auto
  moreover have "ps_has_explicit_rate t = ps_has_explicit_rate u"
    using 3(1) [OF u] 3(2,3) u by simp
  ultimately show ?case by simp
qed auto

lemma good_rate_positive: "\<not> bad_rate x \<Longrightarrow> isfinite64 x \<and> 0 < real64 x"
proof -
  assume "\<not> bad_rate x"
  then have f: "isfinite64 x" "\<not> isnan64 x \<longrightarrow> scaled64 f64_zero < scaled64 x"
    by (auto simp: bad_rate_def)
  then have "\<not> isnan64 x" by (simp add: isfinite64_def isnan64_def)
  moreover have "scaled64 f64_zero = 0"
    by (simp add: scaled64_def scaled_magnitude_def exp64_def man64_def f64_zero_def)
  ultimately show ?thesis using f by (simp add: real64_def)
qed

lemma validate_simulator_config_Inr:
  "validate_simulator_config os c = Inr () \<longleftrightarrow>
     known_sensor (sc_sensor_type c) \<and> is_ipv4_address os (ep_address (sc_destination c))
     \<and> ep_port (sc_destination c) \<noteq> 0 \<and> \<not> bad_rate (sc_rate_hz c) \<and> sc_packet_count c \<noteq> Some 0
     \<and> sc_camera_extra_data_bytes c \<le> kMaxCameraExtraDataSize
     \<and> (sc_sensor_type c = kSensorCameraMeta \<or> sc_camera_extra_data_bytes c = 0)
     \<and> positive_intervals (sc_faults c)
     \<and> (\<forall>p. fc_delay (sc_faults c) = Some p \<longrightarrow>
          pd_every p \<noteq> 0 \<and> 0 < pd_duration_ms p \<and> pd_duration_ms p \<le> kMaximumFaultDelay)"
  unfolding validate_simulator_config_def known_sensor_def positive_intervals_def validate_interval_def
  by (cases "fc_delay (sc_faults c)") (auto simp: not_less not_le)

text \<open>What the command line parser accepts, the simulator accepts: every configuration
  \<open>parse_simulator_config\<close> returns passes all checks of \<open>run_simulator\<close>, and has a finite positive
  rate; without \<open>--rate-hz\<close> the rate is the default of the sensor.\<close>

theorem parsed_simulator_config_valid:
  assumes "parse_simulator_config os args = Inr c"
  shows "validate_simulator_config os c = Inr () \<and> isfinite64 (sc_rate_hz c) \<and> 0 < real64 (sc_rate_hz c)
    \<and> (''--rate-hz'' \<notin> set args \<longrightarrow> sc_rate_hz c = default_rate_hz (sc_sensor_type c))"
proof -
  obtain s c0 d where p: "parse_simulator_arguments initial_parse_state {} args = Inr s"
    "c0 = (if ps_has_explicit_rate s then ps_config s
           else (ps_config s)\<lparr>sc_rate_hz := default_rate_hz (sc_sensor_type (ps_config s))\<rparr>)"
    "is_ipv4_address os (ep_address (sc_destination c0))" "ep_port (sc_destination c0) \<noteq> 0"
    "\<not> bad_rate (sc_rate_hz c0)" "sc_packet_count c0 \<noteq> Some 0"
    "sc_camera_extra_data_bytes c0 \<le> kMaxCameraExtraDataSize"
    "sc_sensor_type c0 = kSensorCameraMeta \<or> sc_camera_extra_data_bytes c0 = 0"
    "c = c0\<lparr>sc_faults := (sc_faults c0)\<lparr>fc_delay := d\<rparr>\<rparr> \<or> c = c0 \<and> d = None"
    "\<forall>p. d = Some p \<longrightarrow> (\<exists>ms. ps_delay_every s = Some (pd_every p) \<and> ps_delay_ms s = Some ms
       \<and> pd_duration_ms p = sint ms)"
    using assms by (rule parse_simulator_config_Inr)
  have "parse_ok initial_parse_state"
    by (simp add: parse_ok_def initial_parse_state_def known_sensor_def positive_intervals_def no_faults_def)
  then have ok: "parse_ok s" by (rule parse_simulator_arguments_ok [OF p(1)])
  have c0: "sc_sensor_type c0 = sc_sensor_type (ps_config s)" "sc_faults c0 = sc_faults (ps_config s)"
    by (simp_all add: p(2))
  have "validate_simulator_config os c = Inr ()"
    unfolding validate_simulator_config_Inr using p(3-10) ok c0
    by (auto simp: parse_ok_def positive_intervals_def)
  moreover have "isfinite64 (sc_rate_hz c) \<and> 0 < real64 (sc_rate_hz c)"
    using good_rate_positive [OF p(5)] p(9) by auto
  moreover have "sc_rate_hz c = default_rate_hz (sc_sensor_type c)" if "''--rate-hz'' \<notin> set args"
    using parse_simulator_arguments_rate [OF p(1) that] p(9)
    by (auto simp: initial_parse_state_def p(2))
  ultimately show ?thesis by blast
qed

text \<open>A camera at its default rate, dropping every fifth packet and delaying every third by 20 ms.\<close>

definition toy_simulator_config :: simulator_config where
  "toy_simulator_config = \<lparr>sc_sensor_type = kSensorCameraMeta,
     sc_destination = \<lparr>ep_address = ''127.0.0.1'', ep_port = 9000\<rparr>, sc_rate_hz = Float64 0x403E000000000000,
     sc_packet_count = Some 8, sc_camera_extra_data_bytes = 2,
     sc_faults = no_faults\<lparr>fc_drop_every := Some 5, fc_delay := Some \<lparr>pd_every = 3, pd_duration_ms = 20\<rparr>\<rparr>\<rparr>"

definition toy_simulator_arguments :: "string list" where
  "toy_simulator_arguments = [''--sensor'', ''camera'', ''--count'', ''8'', ''--camera-extra-bytes'', ''2'',
     ''--drop-every'', ''5'', ''--delay-every'', ''3'', ''--delay-ms'', ''20'']"

lemma toy_simulator_numbers:
  "parse_whole uint64_max ''8'' = Some 8" "parse_whole uint64_max ''2'' = Some 2"
  "parse_whole uint64_max ''5'' = Some 5" "parse_whole uint64_max ''3'' = Some 3"
  "parse_whole uint64_max ''20'' = Some 20"
  by code_simp+

lemma toy_simulator_parses: "parse_simulator_config toy_os toy_simulator_arguments = Inr toy_simulator_config"
  by (simp add: toy_simulator_arguments_def parse_simulator_config_def apply_simulator_option_def
      with_interval_def parse_interval_def toy_simulator_numbers set_faults_def initial_parse_state_def
      default_rate_hz_def kSensorCameraMeta_def kSensorImu_def kSensorGnss_def fail_if_def
      is_ipv4_address_def toy_os_def toy_pton_def c_str_def NUL_char_def kMaximumFaultDelay_def
      toy_simulator_config_def no_faults_def Let_def kMaxCameraExtraDataSize_def kMaxPayloadSize_def kCameraMetaFixedPayloadSize_def
      default_rate_good [of kSensorCameraMeta, simplified default_rate_hz_def kSensorCameraMeta_def
        kSensorImu_def kSensorGnss_def, simplified])

theorem parsed_simulator_config_valid_witness:
  "validate_simulator_config toy_os toy_simulator_config = Inr () \<and> isfinite64 (Float64 0x403E000000000000)
   \<and> 0 < real64 (Float64 0x403E000000000000)"
  using parsed_simulator_config_valid [OF toy_simulator_parses]
  by (simp add: toy_simulator_config_def)

end
