(* ===== verification/Fault_Injector.thy ===== *)
theory Fault_Injector
  imports Simulator_Config "HOL-Library.Multiset" "HOL-Library.Sublist"
begin

text \<open>
  \<open>FaultInjector\<close> of \<open>src/src/simulator/sensor_simulator.cpp\<close>: the deterministic drop, duplicate,
  corrupt, delay and reorder rules on the packets of a simulated source, and its refinement of a
  description of the whole stream. A remainder by zero is undefined: it is \<open>Out_of_bounds\<close>.
\<close>

section \<open>Data\<close>

record pending_packet =
  pp_bytes :: bytes
  pp_duplicate :: bool
  pp_corrupted :: bool
  pp_delay :: int

record injection_batch =
  ib_packets :: "pending_packet list"
  ib_packets_dropped :: u64
  ib_reorder_events :: u64

record fault_injector =
  fi_config :: fault_config
  fi_held_packet :: pending_packet
  fi_has_held_packet :: bool

definition empty_packet :: pending_packet where
  "empty_packet = \<lparr>pp_bytes = [], pp_duplicate = False, pp_corrupted = False, pp_delay = 0\<rparr>"

definition empty_batch :: injection_batch where
  "empty_batch = \<lparr>ib_packets = [], ib_packets_dropped = 0, ib_reorder_events = 0\<rparr>"

definition new_injector :: "fault_config \<Rightarrow> fault_injector" where
  "new_injector config = \<lparr>fi_config = config, fi_held_packet = empty_packet, fi_has_held_packet = False\<rparr>"

section \<open>Operations\<close>

definition matches_interval :: "u64 option \<Rightarrow> u64 \<Rightarrow> bool cpp" where
  "matches_interval interval sequence_number = (case interval of
      None \<Rightarrow> Inr False
    | Some n \<Rightarrow> if n = 0 then Inl Out_of_bounds else Inr (sequence_number mod n = 0))"

definition delay_for :: "fault_config \<Rightarrow> u64 \<Rightarrow> int cpp" where
  "delay_for config sequence_number = (case fc_delay config of
      None \<Rightarrow> Inr 0
    | Some delay \<Rightarrow>
        if pd_every delay = 0 then Inl Out_of_bounds
        else if sequence_number mod pd_every delay = 0 then Inr (pd_duration_ms delay) else Inr 0)"

text \<open>\<open>bytes.back() ^= 0x01U\<close>.\<close>

definition corrupt_last :: "bytes \<Rightarrow> bytes" where
  "corrupt_last bs = (if bs = [] then [] else butlast bs @ [last bs XOR 1])"

definition process :: "fault_injector \<Rightarrow> u64 \<Rightarrow> bytes \<Rightarrow> (injection_batch \<times> fault_injector) cpp" where
  "process injector sequence_number bytes =
     (let config = fi_config injector in
      cbind (matches_interval (fc_drop_every config) sequence_number) (\<lambda>dropped.
      if dropped then Inr (empty_batch\<lparr>ib_packets_dropped := 1\<rparr>, injector) else
      cbind (matches_interval (fc_duplicate_every config) sequence_number) (\<lambda>duplicate.
      cbind (matches_interval (fc_corrupt_every config) sequence_number) (\<lambda>corrupted.
      cbind (delay_for config sequence_number) (\<lambda>delay.
      let packet = \<lparr>pp_bytes = (if corrupted then corrupt_last bytes else bytes), pp_duplicate = duplicate,
                    pp_corrupted = corrupted, pp_delay = delay\<rparr> in
      if fi_has_held_packet injector then
        Inr (empty_batch\<lparr>ib_packets := [packet, fi_held_packet injector], ib_reorder_events := 1\<rparr>,
             injector\<lparr>fi_held_packet := empty_packet, fi_has_held_packet := False\<rparr>)
      else
        cbind (matches_interval (fc_reorder_every config) sequence_number) (\<lambda>reordered.
        if reordered then
          Inr (empty_batch, injector\<lparr>fi_held_packet := packet, fi_has_held_packet := True\<rparr>)
        else Inr (empty_batch\<lparr>ib_packets := [packet]\<rparr>, injector)))))))"

definition finish :: "fault_injector \<Rightarrow> injection_batch \<times> fault_injector" where
  "finish injector =
     (if fi_has_held_packet injector then
        (empty_batch\<lparr>ib_packets := [fi_held_packet injector]\<rparr>,
         injector\<lparr>fi_held_packet := empty_packet, fi_has_held_packet := False\<rparr>)
      else (empty_batch, injector))"

text \<open>A run of the injector over the generated packets, with and without the final flush.\<close>

fun process_all :: "fault_injector \<Rightarrow> (u64 \<times> bytes) list \<Rightarrow> (injection_batch list \<times> fault_injector) cpp" where
  "process_all injector [] = Inr ([], injector)"
| "process_all injector ((sequence_number, bytes) # rest) =
     cbind (process injector sequence_number bytes) (\<lambda>(batch, injector).
     cbind (process_all injector rest) (\<lambda>(batches, injector).
     Inr (batch # batches, injector)))"

definition inject_stream :: "fault_config \<Rightarrow> (u64 \<times> bytes) list \<Rightarrow> injection_batch list cpp" where
  "inject_stream config generated =
     cbind (process_all (new_injector config) generated) (\<lambda>(batches, injector).
     Inr (batches @ [fst (finish injector)]))"

section \<open>The stream as a whole\<close>

definition due :: "u64 option \<Rightarrow> u64 \<Rightarrow> bool" where
  "due interval n = (case interval of None \<Rightarrow> False | Some k \<Rightarrow> unat k dvd unat n)"

definition intervals_valid :: "fault_config \<Rightarrow> bool" where
  "intervals_valid f \<longleftrightarrow> positive_intervals f \<and> (\<forall>p. fc_delay f = Some p \<longrightarrow> pd_every p \<noteq> 0)"

definition marked :: "fault_config \<Rightarrow> u64 \<times> bytes \<Rightarrow> pending_packet" where
  "marked f g = (case g of (n, bs) \<Rightarrow>
     \<lparr>pp_bytes = (if due (fc_corrupt_every f) n then corrupt_last bs else bs),
      pp_duplicate = due (fc_duplicate_every f) n, pp_corrupted = due (fc_corrupt_every f) n,
      pp_delay = (if due (map_option pd_every (fc_delay f)) n
        then case fc_delay f of Some p \<Rightarrow> pd_duration_ms p | None \<Rightarrow> 0 else 0)\<rparr>)"

text \<open>Adjacent swaps: a selected element goes behind its successor, which is not selected again.\<close>

fun swapped :: "('a \<Rightarrow> bool) \<Rightarrow> 'a list \<Rightarrow> 'a list" where
  "swapped P (x # y # xs) = (if P x then y # x # swapped P xs else x # swapped P (y # xs))"
| "swapped P xs = xs"

fun swaps :: "('a \<Rightarrow> bool) \<Rightarrow> 'a list \<Rightarrow> nat" where
  "swaps P (x # y # xs) = (if P x then Suc (swaps P xs) else swaps P (y # xs))"
| "swaps P xs = 0"

abbreviation survivors :: "fault_config \<Rightarrow> (u64 \<times> bytes) list \<Rightarrow> (u64 \<times> bytes) list" where
  "survivors f gs \<equiv> filter (\<lambda>g. \<not> due (fc_drop_every f) (fst g)) gs"

definition faulted :: "fault_config \<Rightarrow> (u64 \<times> bytes) list \<Rightarrow> (u64 \<times> bytes) list" where
  "faulted f gs = swapped (\<lambda>g. due (fc_reorder_every f) (fst g)) (survivors f gs)"

lemma swapped_Cons: "\<not> P x \<Longrightarrow> swapped P (x # xs) = x # swapped P xs"
  by (cases xs) auto

lemma swaps_Cons: "\<not> P x \<Longrightarrow> swaps P (x # xs) = swaps P xs"
  by (cases xs) auto

lemma mset_swapped: "mset (swapped P xs) = mset xs"
  by (induction P xs rule: swapped.induct) auto

lemma length_swapped [simp]: "length (swapped P xs) = length xs"
  by (induction P xs rule: swapped.induct) auto

text \<open>No element moves by more than one place.\<close>

lemma swapped_near:
  "i < length xs \<Longrightarrow> \<exists>j < length xs. swapped P xs ! i = xs ! j \<and> i \<le> Suc j \<and> j \<le> Suc i"
proof (induction P xs arbitrary: i rule: swapped.induct)
  case (1 P x y xs)
  show ?case
  proof (cases "P x")
    case True
    show ?thesis
    proof (cases "i < 2")
      case True
      with \<open>P x\<close> show ?thesis by (cases i) (auto intro: exI [of _ 1] exI [of _ 0])
    next
      case False
      then obtain k where k: "i = Suc (Suc k)" by (metis Suc_1 add_2_eq_Suc le_Suc_ex not_less)
      then obtain j where "j < length xs" "swapped P xs ! k = xs ! j" "k \<le> Suc j" "j \<le> Suc k"
        using 1 True by auto
      then show ?thesis using True k by (auto intro!: exI [of _ "Suc (Suc j)"])
    qed
  next
    case False
    show ?thesis
    proof (cases i)
      case 0
      then show ?thesis using False by auto
    next
      case (Suc k)
      then obtain j where "j < length (y # xs)" "swapped P (y # xs) ! k = (y # xs) ! j" "k \<le> Suc j" "j \<le> Suc k"
        using 1 False by auto
      then show ?thesis using False Suc by (auto intro!: exI [of _ "Suc j"])
    qed
  qed
qed auto

section \<open>The injector implements it\<close>

lemma matches_interval_due: "interval \<noteq> Some 0 \<Longrightarrow> matches_interval interval n = Inr (due interval n)"
  by (cases interval) (auto simp: matches_interval_def due_def unat_mod dvd_eq_mod_eq_0 word_unat_eq_iff)

lemma delay_for_due:
  assumes "intervals_valid f"
  shows "delay_for f n = Inr (if due (map_option pd_every (fc_delay f)) n
    then case fc_delay f of Some p \<Rightarrow> pd_duration_ms p | None \<Rightarrow> 0 else 0)"
  using assms
  by (cases "fc_delay f")
    (auto simp: intervals_valid_def delay_for_def due_def unat_mod dvd_eq_mod_eq_0 word_unat_eq_iff)

text \<open>The injector after some packets: \<open>h\<close> is the packet it holds.\<close>

definition injector_state :: "fault_config \<Rightarrow> (u64 \<times> bytes) option \<Rightarrow> fault_injector" where
  "injector_state f h = (case h of None \<Rightarrow> new_injector f
     | Some g \<Rightarrow> \<lparr>fi_config = f, fi_held_packet = marked f g, fi_has_held_packet = True\<rparr>)"

definition held_list :: "'a option \<Rightarrow> 'a list" where
  "held_list h = (case h of None \<Rightarrow> [] | Some g \<Rightarrow> [g])"

lemma held_list_simps [simp]: "held_list None = []" "held_list (Some g) = [g]"
  by (simp_all add: held_list_def)

lemma process_state:
  assumes "intervals_valid f"
  shows "process (injector_state f h) n bs = Inr
    (if due (fc_drop_every f) n then (empty_batch\<lparr>ib_packets_dropped := 1\<rparr>, injector_state f h)
     else (case h of
         Some g \<Rightarrow> (empty_batch\<lparr>ib_packets := [marked f (n, bs), marked f g], ib_reorder_events := 1\<rparr>,
           injector_state f None)
       | None \<Rightarrow> if due (fc_reorder_every f) n then (empty_batch, injector_state f (Some (n, bs)))
           else (empty_batch\<lparr>ib_packets := [marked f (n, bs)]\<rparr>, injector_state f None)))"
proof -
  have m: "matches_interval (fc_drop_every f) k = Inr (due (fc_drop_every f) k)"
    "matches_interval (fc_duplicate_every f) k = Inr (due (fc_duplicate_every f) k)"
    "matches_interval (fc_reorder_every f) k = Inr (due (fc_reorder_every f) k)"
    "matches_interval (fc_corrupt_every f) k = Inr (due (fc_corrupt_every f) k)" for k
    using assms by (auto simp: intervals_valid_def positive_intervals_def intro!: matches_interval_due)
  show ?thesis
    by (cases h)
      (simp_all add: process_def injector_state_def new_injector_def m delay_for_due [OF assms] Let_def marked_def)
qed

lemma finish_state:
  "finish (injector_state f h) =
     (empty_batch\<lparr>ib_packets := map (marked f) (held_list h)\<rparr>, injector_state f None)"
  by (cases h) (simp_all add: finish_def injector_state_def new_injector_def empty_batch_def)

lemma empty_batch_fields [simp]:
  "ib_packets empty_batch = []" "ib_packets_dropped empty_batch = 0" "ib_reorder_events empty_batch = 0"
  by (simp_all add: empty_batch_def)

text \<open>What the batches of a run hold in total.\<close>

definition batch_packets :: "injection_batch list \<Rightarrow> pending_packet list" where
  "batch_packets bs = concat (map ib_packets bs)"

definition batches_dropped :: "injection_batch list \<Rightarrow> u64" where
  "batches_dropped bs = sum_list (map ib_packets_dropped bs)"

definition batches_reordered :: "injection_batch list \<Rightarrow> u64" where
  "batches_reordered bs = sum_list (map ib_reorder_events bs)"

lemmas batch_totals = batch_packets_def batches_dropped_def batches_reordered_def

definition dropped_packets :: "fault_config \<Rightarrow> (u64 \<times> bytes) list \<Rightarrow> (u64 \<times> bytes) list" where
  "dropped_packets f gs = filter (\<lambda>g. due (fc_drop_every f) (fst g)) gs"

abbreviation selected :: "fault_config \<Rightarrow> u64 \<times> bytes \<Rightarrow> bool" where
  "selected f \<equiv> \<lambda>g. due (fc_reorder_every f) (fst g)"

lemma process_all_state:
  assumes "intervals_valid f" "\<forall>g. h = Some g \<longrightarrow> selected f g"
  shows "\<exists>batches h'. process_all (injector_state f h) gs = Inr (batches, injector_state f h')
    \<and> length batches = length gs \<and> (\<forall>g. h' = Some g \<longrightarrow> selected f g)
    \<and> batch_packets batches @ map (marked f) (held_list h')
        = map (marked f) (swapped (selected f) (held_list h @ survivors f gs))
    \<and> batches_dropped batches = of_nat (length (dropped_packets f gs))
    \<and> batches_reordered batches = of_nat (swaps (selected f) (held_list h @ survivors f gs))"
  using assms(2)
proof (induction gs arbitrary: h)
  case Nil
  then show ?case by (cases h) (auto simp: batch_totals dropped_packets_def)
next
  case (Cons g gs)
  obtain n bs where g: "g = (n, bs)" by (cases g)
  obtain batch h1 where step: "process (injector_state f h) n bs = Inr (batch, injector_state f h1)"
    and h1: "\<forall>g. h1 = Some g \<longrightarrow> selected f g"
    and out: "ib_packets batch @ map (marked f) (swapped (selected f) (held_list h1 @ survivors f gs))
      = map (marked f) (swapped (selected f) (held_list h @ survivors f (g # gs)))"
    and dropped: "ib_packets_dropped batch = (if due (fc_drop_every f) n then 1 else 0)"
    and swapped: "ib_reorder_events batch + of_nat (swaps (selected f) (held_list h1 @ survivors f gs))
      = of_nat (swaps (selected f) (held_list h @ survivors f (g # gs)))"
  proof -
    note step = process_state [OF assms(1)]
    show thesis
    proof (cases "due (fc_drop_every f) n")
      case True
      then show thesis using Cons.prems g 
        by (intro that [of "empty_batch\<lparr>ib_packets_dropped := 1\<rparr>" h]) (auto simp: step)
    next
      case live: False
      show thesis
      proof (cases h)
        case (Some p)
        then show thesis using Cons.prems live g 
          by (intro that [of "empty_batch\<lparr>ib_packets := [marked f (n, bs), marked f p], ib_reorder_events := 1\<rparr>" None])
            (auto simp: step)
      next
        case None
        show thesis
        proof (cases "due (fc_reorder_every f) n")
          case True
          then show thesis using None live g 
            by (intro that [of empty_batch "Some (n, bs)"]) (auto simp: step)
        next
          case False
          then show thesis using None live g
            by (intro that [of "empty_batch\<lparr>ib_packets := [marked f (n, bs)]\<rparr>" None])
              (auto simp: step swapped_Cons swaps_Cons)
        qed
      qed
    qed
  qed
  obtain batches h' where rest: "process_all (injector_state f h1) gs = Inr (batches, injector_state f h')"
    "length batches = length gs" "\<forall>g. h' = Some g \<longrightarrow> selected f g"
    "batch_packets batches @ map (marked f) (held_list h')
        = map (marked f) (swapped (selected f) (held_list h1 @ survivors f gs))"
    "batches_dropped batches = of_nat (length (dropped_packets f gs))"
    "batches_reordered batches = of_nat (swaps (selected f) (held_list h1 @ survivors f gs))"
    using Cons.IH [OF h1] by blast
  show ?case
    using rest(2,3) rest(4,5,6) [symmetric] dropped out swapped
    by (intro exI [of _ "batch # batches"] exI [of _ h'])
      (simp add: g step rest(1) batch_totals dropped_packets_def)
qed

lemma inject_stream_state:
  assumes "intervals_valid f"
  shows "\<exists>batches. inject_stream f gs = Inr batches
    \<and> batch_packets batches = map (marked f) (faulted f gs)
    \<and> batches_dropped batches = of_nat (length (dropped_packets f gs))
    \<and> batches_reordered batches = of_nat (swaps (selected f) (survivors f gs))"
proof -
  have start: "new_injector f = injector_state f None" by (simp add: injector_state_def)
  obtain batches h' where "process_all (injector_state f None) gs = Inr (batches, injector_state f h')"
    "batch_packets batches @ map (marked f) (held_list h')
        = map (marked f) (swapped (selected f) (survivors f gs))"
    "batches_dropped batches = of_nat (length (dropped_packets f gs))"
    "batches_reordered batches = of_nat (swaps (selected f) (survivors f gs))"
    using process_all_state [OF assms, where h = None and gs = gs] by auto
  then show ?thesis
    by (simp add: inject_stream_def start finish_state batch_totals faulted_def)
qed

text \<open>C34. The fault injector makes exactly the documented faults: for every generated stream and all
  valid intervals, pushing the packets through \<open>process\<close> and \<open>finish\<close> never has undefined behaviour
  and hands out, in order, the stream without the dropped packets, with each selected packet moved
  behind its undropped successor (and no packet lost, doubled or moved by more than one place), each
  marked as duplicated, corrupted or delayed by its own sequence number alone; the counters are the
  number of dropped packets and of completed swaps.\<close>

theorem injector_refines_stream:
  assumes "intervals_valid f"
  shows "\<exists>batches. inject_stream f gs = Inr batches
    \<and> batch_packets batches = map (marked f) (faulted f gs)
    \<and> mset (faulted f gs) = mset (survivors f gs)
    \<and> (\<forall>i < length (survivors f gs). \<exists>j < length (survivors f gs).
         faulted f gs ! i = survivors f gs ! j \<and> i \<le> Suc j \<and> j \<le> Suc i)
    \<and> batches_dropped batches = of_nat (length (dropped_packets f gs))
    \<and> batches_reordered batches = of_nat (swaps (selected f) (survivors f gs))"
  using inject_stream_state [OF assms, of gs] swapped_near [of _ "survivors f gs" "selected f"]
  by (auto simp: faulted_def mset_swapped simp del: mset_filter)

text \<open>The example of the documentation: of eight packets the fifth is dropped, every third is sent
  twice, and every second follows its successor.\<close>

definition example_faults :: fault_config where
  "example_faults = no_faults\<lparr>fc_drop_every := Some 5, fc_duplicate_every := Some 3,
     fc_reorder_every := Some 2, fc_delay := Some \<lparr>pd_every = 4, pd_duration_ms = 5\<rparr>\<rparr>"

definition example_stream :: "(u64 \<times> bytes) list" where
  "example_stream = [(1, [1]), (2, [2]), (3, [3]), (4, [4]), (5, [5]), (6, [6]), (7, [7]), (8, [8])]"

lemma example_injection:
  "map_sum (\<lambda>e. e) (\<lambda>bs. map (\<lambda>p. (pp_bytes p, pp_duplicate p, pp_delay p)) (batch_packets bs))
     (inject_stream example_faults example_stream)
   = Inr [([1], False, 0), ([3], True, 0), ([2], False, 0), ([6], True, 0), ([4], False, 5),
          ([7], False, 0), ([8], False, 5)]"
  by (simp add: inject_stream_def example_stream_def example_faults_def no_faults_def new_injector_def
      process_def matches_interval_def delay_for_def batch_packets_def empty_batch_def finish_def Let_def)

theorem injector_refines_stream_witness:
  "\<exists>batches. inject_stream example_faults example_stream = Inr batches
    \<and> map pp_bytes (batch_packets batches) = [[1], [3], [2], [6], [4], [7], [8]]
    \<and> batches_dropped batches = 1"
proof -
  have "intervals_valid example_faults"
    by (simp add: intervals_valid_def positive_intervals_def example_faults_def no_faults_def)
  from injector_refines_stream [OF this, of example_stream]
  obtain bs where "inject_stream example_faults example_stream = Inr bs"
    "batches_dropped bs = of_nat (length (dropped_packets example_faults example_stream))" by blast
  moreover have "map pp_bytes (batch_packets bs) = [[1], [3], [2], [6], [4], [7], [8]]"
  proof -
    have "map fst (map (\<lambda>p. (pp_bytes p, pp_duplicate p, pp_delay p)) (batch_packets bs))
      = [[1], [3], [2], [6], [4], [7], [8]]"
      using example_injection calculation(1) by simp
    then show ?thesis by (simp add: comp_def)
  qed
  ultimately show ?thesis
    by (simp add: dropped_packets_def example_stream_def example_faults_def no_faults_def due_def dvd_eq_mod_eq_0)
qed

end
