(* ===== verification/Simulator.thy ===== *)
theory Simulator
  imports Fault_Injector Ieee_Arith Packet
begin

text \<open>
  The sensor simulator of \<open>src/src/simulator/sensor_simulator.cpp\<close>: \<open>run_simulator\<close> and what it
  calls, over the system calls of \<open>Os_Io\<close>. The stop predicate is any callable (or none), sleeping
  is a parameter. The loops wait on the clock and on the predicate, so they take fuel; \<open>None\<close> is
  a run that has not returned yet.
\<close>

section \<open>Actions that may not return\<close>

type_synonym ('w, 'a) run = "'w machine \<Rightarrow> ('a cpp \<times> 'w machine) option"

definition run_return :: "'a \<Rightarrow> ('w, 'a) run" where "run_return x s = Some (Inr x, s)"

definition run_io :: "('w, 'a) io \<Rightarrow> ('w, 'a) run" where "run_io m s = Some (m s)"

definition run_bind :: "('w, 'a) run \<Rightarrow> ('a \<Rightarrow> ('w, 'b) run) \<Rightarrow> ('w, 'b) run" where
  "run_bind m f s = (case m s of
      None \<Rightarrow> None
    | Some (Inl e, s') \<Rightarrow> Some (Inl e, s')
    | Some (Inr x, s') \<Rightarrow> f x s')"

text \<open>A local socket: closed when the scope is left, by an exception or not.\<close>

definition run_scoped :: "'w os \<Rightarrow> fd \<Rightarrow> ('w, 'a) run \<Rightarrow> ('w, 'a) run" where
  "run_scoped os socket m s = (case m s of None \<Rightarrow> None | Some (r, s') \<Rightarrow> Some (r, io_close os socket s'))"

section \<open>The clock\<close>

text \<open>
  Time points and durations are \<open>int64_t\<close> nanoseconds; a sum outside that range is undefined. The
  environment of a run: the system, \<open>std::this_thread::sleep_until\<close>, and the stop predicate, which
  may throw.
\<close>

record 'w host =
  host_os :: "'w os"
  host_sleep_until :: "int \<Rightarrow> 'w \<Rightarrow> 'w"
  host_stop :: "'w \<Rightarrow> bool cpp \<times> 'w"

definition int64_value :: "int \<Rightarrow> int cpp" where
  "int64_value x = (if - (2 ^ 63) \<le> x \<and> x < 2 ^ 63 then Inr x else Inl Out_of_bounds)"

definition nanoseconds_of_ms :: "int \<Rightarrow> int" where "nanoseconds_of_ms ms = ms * 1000000"

definition clock_now :: "'w host \<Rightarrow> ('w, int) io" where
  "clock_now h = io_bind (io_call (lib_steady_now (host_os h))) (\<lambda>n. io_return (sint n))"

definition current_timestamp_ns :: "'w host \<Rightarrow> ('w, u64) io" where
  "current_timestamp_ns h = io_bind (clock_now h) (\<lambda>n. io_return (word_of_int n))"

definition ask_stop :: "'w host \<Rightarrow> ('w, bool) io" where
  "ask_stop h s = (case host_stop h (m_world s) of (r, w) \<Rightarrow> (r, s\<lparr>m_world := w\<rparr>))"

definition sleep_until :: "'w host \<Rightarrow> int \<Rightarrow> ('w, unit) io" where
  "sleep_until h wakeup s = (Inr (), s\<lparr>m_world := host_sleep_until h wakeup (m_world s)\<rparr>)"

definition kStopPollInterval :: int where "kStopPollInterval = nanoseconds_of_ms 10"

fun wait_until_or_stop :: "nat \<Rightarrow> 'w host \<Rightarrow> int \<Rightarrow> ('w, bool) run" where
  "wait_until_or_stop 0 h deadline = (\<lambda>s. None)"
| "wait_until_or_stop (Suc fuel) h deadline =
     run_bind (run_io (ask_stop h)) (\<lambda>stopping.
     if stopping then run_return True else
     run_bind (run_io (clock_now h)) (\<lambda>now.
     if deadline \<le> now then run_return False else
     run_bind (run_io (io_cpp (int64_value (now + kStopPollInterval)))) (\<lambda>wakeup.
     run_bind (run_io (sleep_until h (if deadline < wakeup then deadline else wakeup))) (\<lambda>_.
     wait_until_or_stop fuel h deadline))))"

section \<open>Samples\<close>

definition f32_zero :: float32 where "f32_zero = Float32 0"

definition make_sensor_sample :: "sensor_type \<Rightarrow> u64 \<Rightarrow> nat \<Rightarrow> sensor_payload" where
  "make_sensor_sample sensor_type sequence_number camera_extra_bytes =
     (if sensor_type = kSensorCameraMeta then
        CameraMeta \<lparr>cam_frame_id = sequence_number, cam_width = 1920, cam_height = 1080,
          cam_exposure_time_us = 8000,
          cam_extra_data = map (\<lambda>index. of_nat (index mod 256)) [0..<camera_extra_bytes]\<rparr>
      else if sensor_type = kSensorGnss then
        GnssFix \<lparr>gnss_latitude_deg = Float64 0x403F3AFB7E90FF97,
          gnss_longitude_deg = Float64 0x405E5E5119CE075F,
          gnss_altitude_m = Float64 0x4010000000000000,
          gnss_horizontal_accuracy_m = Float32 0x3FC00000,
          gnss_vertical_accuracy_m = Float32 0x40200000\<rparr>
      else
        ImuSample \<lparr>imu_linear_acceleration_mps2 = \<lparr>vec_x = f32_zero, vec_y = f32_zero, vec_z = Float32 0x411CF5C3\<rparr>,
          imu_angular_velocity_rps = \<lparr>vec_x = Float32 0x3C23D70A, vec_y = Float32 0xBCA3D70A,
            vec_z = Float32 0x3CF5C28F\<rparr>\<rparr>)"

definition simulator_sensor_name :: "sensor_type \<Rightarrow> string" where
  "simulator_sensor_name sensor_type =
     (if sensor_type = kSensorImu then ''imu''
      else if sensor_type = kSensorGnss then ''gnss''
      else if sensor_type = kSensorCameraMeta then ''camera''
      else ''unknown'')"

section \<open>Sending\<close>

record simulation_summary =
  ss_packets_generated :: u64
  ss_packets_sent :: u64
  ss_packets_dropped :: u64
  ss_duplicate_packets_sent :: u64
  ss_reorder_events :: u64
  ss_delayed_packets :: u64
  ss_corrupted_packets_sent :: u64

definition empty_summary :: simulation_summary where
  "empty_summary = \<lparr>ss_packets_generated = 0, ss_packets_sent = 0, ss_packets_dropped = 0,
     ss_duplicate_packets_sent = 0, ss_reorder_events = 0, ss_delayed_packets = 0,
     ss_corrupted_packets_sent = 0\<rparr>"

text \<open>The wait before a delayed packet: whether it was interrupted.\<close>

definition delay_packet :: "nat \<Rightarrow> 'w host \<Rightarrow> pending_packet \<Rightarrow> simulation_summary \<Rightarrow> ('w, bool \<times> simulation_summary) run" where
  "delay_packet fuel h packet summary =
     (if pp_delay packet > 0 then
        let summary = summary\<lparr>ss_delayed_packets := ss_delayed_packets summary + 1\<rparr> in
        run_bind (run_io (clock_now h)) (\<lambda>now.
        run_bind (run_io (io_cpp (int64_value (now + nanoseconds_of_ms (pp_delay packet))))) (\<lambda>deadline.
        run_bind (wait_until_or_stop fuel h deadline) (\<lambda>stopping.
        run_return (stopping, summary))))
      else run_return (False, summary))"

definition count_first :: "pending_packet \<Rightarrow> simulation_summary \<Rightarrow> simulation_summary" where
  "count_first packet summary =
     summary\<lparr>ss_packets_sent := ss_packets_sent summary + 1,
       ss_corrupted_packets_sent := ss_corrupted_packets_sent summary + (if pp_corrupted packet then 1 else 0)\<rparr>"

definition count_duplicate :: "pending_packet \<Rightarrow> simulation_summary \<Rightarrow> simulation_summary" where
  "count_duplicate packet summary =
     summary\<lparr>ss_packets_sent := ss_packets_sent summary + 1,
       ss_duplicate_packets_sent := ss_duplicate_packets_sent summary + 1,
       ss_corrupted_packets_sent := ss_corrupted_packets_sent summary + (if pp_corrupted packet then 1 else 0)\<rparr>"

text \<open>The body of the loop after the wait: the packet once or twice.\<close>

definition send_copies :: "'w host \<Rightarrow> fd \<Rightarrow> ipv4_endpoint \<Rightarrow> pending_packet \<Rightarrow> simulation_summary
    \<Rightarrow> ('w, simulation_summary) io" where
  "send_copies h socket destination packet summary =
     io_bind (send_to (host_os h) socket (pp_bytes packet) destination) (\<lambda>_.
     let summary = count_first packet summary in
     if pp_duplicate packet then
       io_bind (send_to (host_os h) socket (pp_bytes packet) destination) (\<lambda>_.
       io_return (count_duplicate packet summary))
     else io_return summary)"

fun send_packets :: "nat \<Rightarrow> 'w host \<Rightarrow> ipv4_endpoint \<Rightarrow> fd \<Rightarrow> simulation_summary \<Rightarrow> pending_packet list
    \<Rightarrow> ('w, bool \<times> simulation_summary) run" where
  "send_packets fuel h destination socket summary [] = run_return (True, summary)"
| "send_packets fuel h destination socket summary (packet # packets) =
     run_bind (run_io (ask_stop h)) (\<lambda>stopping.
     if stopping then run_return (False, summary) else
     run_bind (delay_packet fuel h packet summary) (\<lambda>(stopping, summary).
     if stopping then run_return (False, summary) else
     run_bind (run_io (send_copies h socket destination packet summary)) (\<lambda>summary.
     send_packets fuel h destination socket summary packets)))"

definition send_batch :: "nat \<Rightarrow> 'w host \<Rightarrow> ipv4_endpoint \<Rightarrow> fd \<Rightarrow> injection_batch \<Rightarrow> simulation_summary
    \<Rightarrow> ('w, bool \<times> simulation_summary) run" where
  "send_batch fuel h destination socket batch summary =
     run_bind (send_packets fuel h destination socket summary (ib_packets batch)) (\<lambda>(sent, summary).
     run_return (sent, if sent
       then summary\<lparr>ss_reorder_events := ss_reorder_events summary + ib_reorder_events batch\<rparr>
       else summary))"

section \<open>The run\<close>

definition f64_one :: float64 where "f64_one = Float64 0x3FF0000000000000"
definition f64_giga :: float64 where "f64_giga = Float64 0x41CDCD6500000000"

text \<open>
  \<open>duration_cast<nanoseconds>(duration<double>{1.0 / rate_hz})\<close>: the quotient times \<open>1e9\<close>, cut to an
  \<open>int64_t\<close>; the conversion of a value out of range is undefined.
\<close>

definition simulation_period :: "float64 \<Rightarrow> int cpp" where
  "simulation_period rate_hz =
     (let seconds = f64_divide f64_one rate_hz; nanoseconds = f64_times seconds f64_giga in
      if isfinite64 seconds \<and> isfinite64 nanoseconds then int64_value (scaled64 nanoseconds div 2 ^ 1074)
      else Inl Out_of_bounds)"

definition generate_packet :: "'w host \<Rightarrow> simulator_config \<Rightarrow> u64 \<Rightarrow> ('w, bytes) io" where
  "generate_packet h config sequence_number =
     (let sample = make_sensor_sample (sc_sensor_type config) sequence_number (sc_camera_extra_data_bytes config) in
      io_bind (io_cpp (encode_sensor_payload sample)) (\<lambda>payload.
      io_bind (current_timestamp_ns h) (\<lambda>timestamp_ns.
      io_cpp (encode_packet (message_type_of sample) sequence_number timestamp_ns payload))))"

text \<open>The locals of \<open>run_simulator\<close> that its loop changes.\<close>

record simulation =
  sim_injector :: fault_injector
  sim_summary :: simulation_summary
  sim_next_deadline :: int

definition more_to_generate :: "simulator_config \<Rightarrow> simulation_summary \<Rightarrow> bool" where
  "more_to_generate config summary = (case sc_packet_count config of
      None \<Rightarrow> True | Some n \<Rightarrow> ss_packets_generated summary < n)"

text \<open>One packet: generated, passed through the injector and sent; whether the run was stopped.\<close>

definition simulate_packet :: "nat \<Rightarrow> 'w host \<Rightarrow> simulator_config \<Rightarrow> fd \<Rightarrow> simulation
    \<Rightarrow> ('w, bool \<times> simulation) run" where
  "simulate_packet fuel h config socket sim =
     (let sequence_number = ss_packets_generated (sim_summary sim) + 1 in
      run_bind (run_io (generate_packet h config sequence_number)) (\<lambda>packet.
      let summary = (sim_summary sim)\<lparr>ss_packets_generated := ss_packets_generated (sim_summary sim) + 1\<rparr> in
      run_bind (run_io (io_cpp (process (sim_injector sim) sequence_number packet))) (\<lambda>(batch, injector).
      let summary = summary\<lparr>ss_packets_dropped := ss_packets_dropped summary + ib_packets_dropped batch\<rparr> in
      run_bind (send_batch fuel h (sc_destination config) socket batch summary) (\<lambda>(sent, summary).
      run_return (\<not> sent, sim\<lparr>sim_injector := injector, sim_summary := summary\<rparr>)))))"

fun simulation_loop :: "nat \<Rightarrow> nat \<Rightarrow> 'w host \<Rightarrow> simulator_config \<Rightarrow> fd \<Rightarrow> int \<Rightarrow> simulation
    \<Rightarrow> ('w, bool \<times> simulation) run" where
  "simulation_loop 0 fuel h config socket period sim = (\<lambda>s. None)"
| "simulation_loop (Suc rounds) fuel h config socket period sim =
     run_bind (run_io (ask_stop h)) (\<lambda>stopping.
     if stopping \<or> \<not> more_to_generate config (sim_summary sim) then run_return (False, sim) else
     run_bind (simulate_packet fuel h config socket sim) (\<lambda>(stopped, sim).
     if stopped then run_return (True, sim) else
     if sc_packet_count config = Some (ss_packets_generated (sim_summary sim)) then run_return (False, sim) else
     run_bind (run_io (io_cpp (int64_value (sim_next_deadline sim + period)))) (\<lambda>deadline.
     let sim = sim\<lparr>sim_next_deadline := deadline\<rparr> in
     run_bind (wait_until_or_stop fuel h deadline) (\<lambda>stopping.
     if stopping then run_return (True, sim)
     else simulation_loop rounds fuel h config socket period sim))))"

text \<open>After the loop: the flush of the held packet, unless the run was stopped.\<close>

definition finish_simulation :: "nat \<Rightarrow> 'w host \<Rightarrow> simulator_config \<Rightarrow> fd \<Rightarrow> bool \<Rightarrow> simulation
    \<Rightarrow> ('w, simulation_summary) run" where
  "finish_simulation fuel h config socket stopped sim =
     (if stopped then run_return (sim_summary sim) else
      run_bind (run_io (ask_stop h)) (\<lambda>stopping.
      if stopping then run_return (sim_summary sim) else
      run_bind (send_batch fuel h (sc_destination config) socket (fst (finish (sim_injector sim))) (sim_summary sim))
        (\<lambda>(_, summary). run_return summary)))"

text \<open>\<open>callable\<close> is \<open>bool(stop_requested)\<close>.\<close>

definition run_simulator :: "nat \<Rightarrow> 'w host \<Rightarrow> bool \<Rightarrow> simulator_config \<Rightarrow> ('w, simulation_summary) run" where
  "run_simulator fuel h callable config =
     run_bind (run_io (io_cpp (validate_simulator_config (host_os h) config))) (\<lambda>_.
     run_bind (run_io (io_cpp (throw_if (\<not> callable) (Invalid_argument ''stop predicate must be callable'') (Inr ())))) (\<lambda>_.
     run_bind (run_io (udp_open (host_os h))) (\<lambda>socket. run_scoped (host_os h) socket (
     run_bind (run_io (io_cpp (simulation_period (sc_rate_hz config)))) (\<lambda>period.
     run_bind (run_io (clock_now h)) (\<lambda>now.
     run_bind (simulation_loop fuel fuel h config socket period
         \<lparr>sim_injector = new_injector (sc_faults config), sim_summary = empty_summary, sim_next_deadline = now\<rparr>)
       (\<lambda>(stopped, sim). finish_simulation fuel h config socket stopped sim)))))))"

end
