(* ===== verification/Stream_Text.thy ===== *)
theory Stream_Text
  imports Decimal Ieee_Arith
begin

text \<open>
  What \<open>operator<<\<close> of an output stream writes, for the types the applications under \<open>src/apps\<close>
  print: unsigned integers in base ten, and floating point values in the default notation (six
  significant digits, as \<open>%g\<close>) and in the fixed notation with two decimals (\<open>%.2f\<close>). A \<open>float\<close> is
  printed as the \<open>double\<close> of the same value. Values are exact fractions \<open>n / d\<close>, rounded half to
  even, as the platform's C library does.
\<close>

section \<open>Digits\<close>

definition unsigned_text :: "'a :: len word \<Rightarrow> string" where
  "unsigned_text v = show_decimal (unat v)"

definition pad_zeros :: "nat \<Rightarrow> string \<Rightarrow> string" where
  "pad_zeros k ds = replicate (k - length ds) (CHR ''0'') @ ds"

definition strip_zeros :: "string \<Rightarrow> string" where
  "strip_zeros ds = rev (dropWhile (\<lambda>c. c = CHR ''0'') (rev ds))"

section \<open>Fixed notation\<close>

definition fixed_text :: "nat \<Rightarrow> nat \<Rightarrow> nat \<Rightarrow> string" where
  "fixed_text k n d =
     (let q = round_half_even (n * 10 ^ k) d in
      show_decimal (q div 10 ^ k) @ CHR ''.'' # pad_zeros k (show_decimal (q mod 10 ^ k)))"

section \<open>Default notation\<close>

text \<open>The decimal exponent of \<open>n / d\<close> for a positive \<open>n\<close>: \<open>10 ^ x \<le> n / d < 10 ^ (x + 1)\<close>.\<close>

definition decimal_exponent :: "nat \<Rightarrow> nat \<Rightarrow> int" where
  "decimal_exponent n d =
     (if d \<le> n then int (length (show_decimal (n div d))) - 1
      else - int (length (show_decimal ((d - 1) div n))))"

text \<open>Six significant digits as a number, and the exponent of the first of them.\<close>

definition round_at :: "nat \<Rightarrow> nat \<Rightarrow> int \<Rightarrow> nat" where
  "round_at n d x =
     (if x \<le> 5 then round_half_even (n * 10 ^ nat (5 - x)) d
      else round_half_even n (d * 10 ^ nat (x - 5)))"

definition significant_digits :: "nat \<Rightarrow> nat \<Rightarrow> nat \<times> int" where
  "significant_digits n d =
     (if n = 0 then (0, 0)
      else let x = decimal_exponent n d; q = round_at n d x in
           if q = 10 ^ 6 then (10 ^ 5, x + 1) else (q, x))"

definition point_text :: "string \<Rightarrow> string \<Rightarrow> string" where
  "point_text whole fraction =
     (let fraction = strip_zeros fraction in
      whole @ (if fraction = [] then [] else CHR ''.'' # fraction))"

definition general_text :: "nat \<Rightarrow> nat \<Rightarrow> string" where
  "general_text n d =
     (let (q, x) = significant_digits n d; ds = pad_zeros 6 (show_decimal q) in
      if 0 \<le> x \<and> x < 6 then point_text (take (nat x + 1) ds) (drop (nat x + 1) ds)
      else if - 4 \<le> x \<and> x < 0 then point_text ''0'' (replicate (nat (- x) - 1) (CHR ''0'') @ ds)
      else point_text (take 1 ds) (drop 1 ds) @ CHR ''e'' # (if x < 0 then CHR ''-'' else CHR ''+'')
        # pad_zeros 2 (show_decimal (nat \<bar>x\<bar>)))"

section \<open>Floating point values\<close>

definition sign_text :: "bool \<Rightarrow> string" where
  "sign_text negative = (if negative then ''-'' else [])"

definition float_text :: "float32 \<Rightarrow> string" where
  "float_text v = sign_text (neg32 v)
     @ (if isnan32 v then ''nan'' else if \<not> isfinite32 v then ''inf''
        else general_text (nat \<bar>scaled32 v\<bar>) (2 ^ 149))"

definition double_text :: "float64 \<Rightarrow> string" where
  "double_text v = sign_text (neg64 v)
     @ (if isnan64 v then ''nan'' else if \<not> isfinite64 v then ''inf''
        else general_text (nat \<bar>scaled64 v\<bar>) (2 ^ 1074))"

definition double_fixed2 :: "float64 \<Rightarrow> string" where
  "double_fixed2 v = sign_text (neg64 v)
     @ (if isnan64 v then ''nan'' else if \<not> isfinite64 v then ''inf''
        else fixed_text 2 (nat \<bar>scaled64 v\<bar>) (2 ^ 1074))"

section \<open>Reading the text back\<close>

lemma is_digit_zero [simp]: "is_digit (CHR ''0'')" "digit_value (CHR ''0'') = 0"
  by (simp_all add: is_digit_def digit_value_def)

lemma decimal_value_append:
  "decimal_value (ds @ es) = decimal_value ds * 10 ^ length es + decimal_value es"
  by (induction es rule: rev_induct) (simp_all add: algebra_simps flip: append_assoc)

lemma decimal_value_zeros [simp]: "decimal_value (replicate k (CHR ''0'')) = 0"
proof (induction k)
  case (Suc k)
  have "replicate (Suc k) (CHR ''0'') = replicate k (CHR ''0'') @ [CHR ''0'']"
    by (simp add: replicate_append_same)
  then show ?case using Suc by (simp only: decimal_value_simps is_digit_zero)
qed simp

lemma decimal_value_pad [simp]: "decimal_value (pad_zeros k ds) = decimal_value ds"
  by (simp add: pad_zeros_def decimal_value_append)

lemma length_pad_zeros: "length ds \<le> k \<Longrightarrow> length (pad_zeros k ds) = k"
  by (simp add: pad_zeros_def)

text \<open>The number of digits.\<close>

lemma show_decimal_length:
  "0 < n \<Longrightarrow> 10 ^ (length (show_decimal n) - 1) \<le> n \<and> n < 10 ^ length (show_decimal n)"
proof (induction n rule: show_decimal.induct)
  case (1 n)
  show ?case
  proof (cases "n < 10")
    case True
    then show ?thesis using 1 by (subst (1 2) show_decimal.simps) simp
  next
    case False
    then have ih: "10 ^ (length (show_decimal (n div 10)) - 1) \<le> n div 10"
      "n div 10 < 10 ^ length (show_decimal (n div 10))" using 1 by auto
    have len: "length (show_decimal n) = Suc (length (show_decimal (n div 10)))"
      using False by (subst show_decimal.simps) simp
    obtain m where m: "length (show_decimal (n div 10)) = Suc m"
      using show_decimal_nonempty [of "n div 10"] by (cases "show_decimal (n div 10)") auto
    define t where "t = (10 :: nat) ^ m"
    have "10 * t \<le> n \<and> n < 100 * t" using ih unfolding m by (simp flip: t_def) linarith
    then show ?thesis unfolding len m by (simp add: t_def)
  qed
qed

section \<open>Six significant digits\<close>

lemma decimal_exponent_bounds:
  assumes "0 < n" "0 < d"
  shows "0 \<le> decimal_exponent n d \<Longrightarrow>
      d * 10 ^ nat (decimal_exponent n d) \<le> n \<and> n < d * 10 ^ (nat (decimal_exponent n d) + 1)"
    and "decimal_exponent n d < 0 \<Longrightarrow>
      d \<le> n * 10 ^ nat (- decimal_exponent n d) \<and> n * 10 ^ (nat (- decimal_exponent n d) - 1) < d"
proof -
  have large: "nat (decimal_exponent n d) = length (show_decimal (n div d)) - 1
      \<and> 10 ^ (length (show_decimal (n div d)) - 1) \<le> n div d \<and> n div d < 10 ^ length (show_decimal (n div d))"
    if "d \<le> n"
    using that assms show_decimal_length [of "n div d"] show_decimal_nonempty [of "n div d"]
    by (simp add: decimal_exponent_def div_greater_zero_iff nat_diff_distrib Suc_leI)
  have small: "nat (- decimal_exponent n d) = length (show_decimal ((d - 1) div n))
      \<and> 10 ^ (length (show_decimal ((d - 1) div n)) - 1) \<le> (d - 1) div n
      \<and> (d - 1) div n < 10 ^ length (show_decimal ((d - 1) div n))" if "n < d"
    using that assms show_decimal_length [of "(d - 1) div n"]
    by (simp add: decimal_exponent_def div_greater_zero_iff)
  have sign: "0 \<le> decimal_exponent n d \<longleftrightarrow> d \<le> n"
    using show_decimal_nonempty [of "n div d"] show_decimal_nonempty [of "(d - 1) div n"]
    by (auto simp: decimal_exponent_def Suc_leI)
  show "d * 10 ^ nat (decimal_exponent n d) \<le> n \<and> n < d * 10 ^ (nat (decimal_exponent n d) + 1)"
    if "0 \<le> decimal_exponent n d"
    using that large sign show_decimal_nonempty [of "n div d"] assms(2)
    by (auto simp: less_eq_div_iff_mult_less_eq div_less_iff_less_mult mult.commute)
  show "d \<le> n * 10 ^ nat (- decimal_exponent n d) \<and> n * 10 ^ (nat (- decimal_exponent n d) - 1) < d"
    if "decimal_exponent n d < 0"
    using that small sign assms
    by (auto simp: less_eq_div_iff_mult_less_eq div_less_iff_less_mult mult.commute)
qed

lemma round_at_bounds:
  assumes "0 < n" "0 < d"
  shows "10 ^ 5 \<le> round_at n d (decimal_exponent n d)" "round_at n d (decimal_exponent n d) \<le> 10 ^ 6"
proof -
  define x where "x = decimal_exponent n d"
  note b = decimal_exponent_bounds [OF assms, folded x_def]
  have scaled: "10 ^ 5 * (d * 10 ^ nat (x - 5)) \<le> n * 10 ^ nat (5 - x)
      \<and> n * 10 ^ nat (5 - x) < 10 ^ 6 * (d * 10 ^ nat (x - 5))"
  proof (cases "0 \<le> x")
    case True
    have "(10 :: nat) ^ 5 * 10 ^ nat (x - 5) = 10 ^ nat x * 10 ^ nat (5 - x)"
      using True by (simp only: power_add [symmetric]) (intro arg_cong [where f = "power 10"], linarith)
    then have p: "10 ^ 5 * (d * 10 ^ nat (x - 5)) = d * 10 ^ nat x * 10 ^ nat (5 - x)"
      "10 ^ 6 * (d * 10 ^ nat (x - 5)) = d * 10 ^ (nat x + 1) * 10 ^ nat (5 - x)"
      by (simp_all add: mult.left_commute)
    show ?thesis unfolding p using b(1) [OF True] by (auto intro: mult_le_mono1)
  next
    case False
    have z: "nat (x - 5) = 0" using False by simp
    have e: "(10 :: nat) ^ nat (5 - x) = 10 ^ 5 * 10 ^ nat (- x)" "(10 :: nat) ^ nat (5 - x) = 10 ^ 6 * 10 ^ (nat (- x) - 1)"
      using False by (simp_all only: power_add [symmetric]) (intro arg_cong [where f = "power 10"], linarith)+
    have "10 ^ 5 * d \<le> n * 10 ^ nat (5 - x)" unfolding e(1) using b(2) False by simp
    moreover have "n * 10 ^ nat (5 - x) < 10 ^ 6 * d" unfolding e(2) using b(2) False by simp
    ultimately show ?thesis unfolding z by simp
  qed
  have r: "round_at n d x = round_half_even (n * 10 ^ nat (5 - x)) (d * 10 ^ nat (x - 5))"
    by (simp add: round_at_def)
  have D: "0 < d * 10 ^ nat (x - 5)" using assms(2) by simp
  show "10 ^ 5 \<le> round_at n d (decimal_exponent n d)"
    unfolding x_def [symmetric] r by (rule round_half_even_ge [OF D]) (rule scaled [THEN conjunct1])
  show "round_at n d (decimal_exponent n d) \<le> 10 ^ 6"
    unfolding x_def [symmetric] r by (rule round_half_even_le [OF D]) (rule scaled [THEN conjunct2])
qed

text \<open>The printed digits: six, without leading zeros, and off by at most half of the last one.\<close>

lemma significant_digits_bounds:
  assumes "0 < n" "0 < d" "significant_digits n d = (q, x)"
  shows "10 ^ 5 \<le> q \<and> q < 10 ^ 6"
    and "2 * \<bar>int q * (int d * 10 ^ nat (x - 5)) - int n * 10 ^ nat (5 - x)\<bar> \<le> int d * 10 ^ nat (x - 5)"
proof -
  define y where "y = decimal_exponent n d"
  define D N where "D = d * 10 ^ nat (y - 5)" and "N = n * 10 ^ nat (5 - y)"
  have D: "0 < D" using assms(2) by (simp add: D_def)
  have r: "round_at n d y = round_half_even N D" by (simp add: round_at_def D_def N_def)
  note b = round_at_bounds [OF assms(1,2), folded y_def]
  have err: "2 * \<bar>int (round_half_even N D * D) - int N\<bar> \<le> int D" by (rule round_half_even_error [OF D])
  have cases: "(q, x) = (if round_half_even N D = 10 ^ 6 then (10 ^ 5, y + 1) else (round_half_even N D, y))"
    using assms(1,3) unfolding significant_digits_def Let_def y_def [symmetric] r by simp
  have "10 ^ 5 \<le> q \<and> q < 10 ^ 6
    \<and> 2 * \<bar>int q * (int d * 10 ^ nat (x - 5)) - int n * 10 ^ nat (5 - x)\<bar> \<le> int d * 10 ^ nat (x - 5)"
  proof (cases "round_half_even N D = 10 ^ 6")
    case False
    then show ?thesis using cases b err unfolding r by (auto simp: D_def N_def)
  next
    case True
    then have q: "q = 10 ^ 5" "x = y + 1" using cases by simp_all
    show ?thesis
    proof (cases "5 \<le> y")
      case large: True
      then have e: "nat (x - 5) = Suc (nat (y - 5))" "nat (5 - x) = 0" "nat (5 - y) = 0" using q(2) by auto
      define M where "M = int d * 10 ^ nat (y - 5)"
      have "2 * \<bar>1000000 * M - int n\<bar> \<le> M" using err True by (simp add: D_def N_def e M_def)
      moreover have "0 \<le> M" by (simp add: M_def)
      ultimately have "2 * \<bar>1000000 * M - int n\<bar> \<le> 10 * M" by linarith
      then show ?thesis by (simp add: q(1) e M_def)
    next
      case small: False
      then have e: "nat (5 - y) = Suc (nat (5 - x))" "nat (x - 5) = 0" "nat (y - 5) = 0" using q(2) by auto
      define M where "M = int n * 10 ^ nat (5 - x)"
      have "2 * \<bar>1000000 * int d - 10 * M\<bar> \<le> int d"
        using err True by (simp add: D_def N_def e M_def mult.left_commute)
      moreover have "\<bar>1000000 * int d - 10 * M\<bar> = 10 * \<bar>100000 * int d - M\<bar>"
        using abs_mult [of 10 "100000 * int d - M"] by (simp add: algebra_simps)
      ultimately have "2 * \<bar>100000 * int d - M\<bar> \<le> int d" by simp
      then show ?thesis by (simp add: q(1) e M_def)
    qed
  qed
  then show "10 ^ 5 \<le> q \<and> q < 10 ^ 6"
    and "2 * \<bar>int q * (int d * 10 ^ nat (x - 5)) - int n * 10 ^ nat (5 - x)\<bar> \<le> int d * 10 ^ nat (x - 5)"
    by blast+
qed

end
