(* ===== verification/Console.thy ===== *)
theory Console
  imports Simulator Stream_Text "HOL-Library.Sublist"
begin

text \<open>
  What the \<open>main\<close> functions of \<open>src/apps\<close> share: a process is a machine with its standard output
  and error streams; an application returns a value (in the end its exit code), throws, or has not
  returned yet (\<open>None\<close>). Console output never fails the program. \<open>tool_try\<close> is the
  \<open>catch (const std::exception&)\<close> of every \<open>main\<close>; it does not catch undefined behaviour.
\<close>

section \<open>Processes\<close>

record 'w shell =
  pr_machine :: "'w machine"
  pr_out :: string
  pr_err :: string

type_synonym ('w, 'a) tool = "'w shell \<Rightarrow> ('a cpp \<times> 'w shell) option"

definition tool_return :: "'a \<Rightarrow> ('w, 'a) tool" where "tool_return x p = Some (Inr x, p)"

definition tool_run :: "('w, 'a) run \<Rightarrow> ('w, 'a) tool" where
  "tool_run m p = (case m (pr_machine p) of
      None \<Rightarrow> None
    | Some (r, s) \<Rightarrow> Some (r, p\<lparr>pr_machine := s\<rparr>))"

definition tool_io :: "('w, 'a) io \<Rightarrow> ('w, 'a) tool" where "tool_io m = tool_run (run_io m)"

definition tool_bind :: "('w, 'a) tool \<Rightarrow> ('a \<Rightarrow> ('w, 'b) tool) \<Rightarrow> ('w, 'b) tool" where
  "tool_bind m f p = (case m p of
      None \<Rightarrow> None
    | Some (Inl e, p') \<Rightarrow> Some (Inl e, p')
    | Some (Inr x, p') \<Rightarrow> f x p')"

definition print_out :: "string \<Rightarrow> ('w, unit) tool" where
  "print_out t p = Some (Inr (), p\<lparr>pr_out := pr_out p @ t\<rparr>)"

definition print_err :: "string \<Rightarrow> ('w, unit) tool" where
  "print_err t p = Some (Inr (), p\<lparr>pr_err := pr_err p @ t\<rparr>)"

text \<open>A local socket: closed when the scope is left, by an exception or not.\<close>

definition tool_scoped :: "'w os \<Rightarrow> fd \<Rightarrow> ('w, 'a) tool \<Rightarrow> ('w, 'a) tool" where
  "tool_scoped os socket m p = (case m p of
      None \<Rightarrow> None
    | Some (r, p') \<Rightarrow> Some (r, p'\<lparr>pr_machine := io_close os socket (pr_machine p')\<rparr>))"

definition tool_try :: "('w, 'a) tool \<Rightarrow> (cpp_exception \<Rightarrow> ('w, 'a) tool) \<Rightarrow> ('w, 'a) tool" where
  "tool_try m handler p = (case m p of
      None \<Rightarrow> None
    | Some (Inr x, p') \<Rightarrow> Some (Inr x, p')
    | Some (Inl e, p') \<Rightarrow> if e = Out_of_bounds then Some (Inl e, p') else handler e p')"

section \<open>What the applications share\<close>

definition newline :: string where "newline = [CHR 0x0A]"

text \<open>\<open>std::exception::what()\<close>; the text of an error number is a parameter.\<close>

definition exception_what :: "(string \<Rightarrow> string) \<Rightarrow> cpp_exception \<Rightarrow> string" where
  "exception_what error_text e = (case e of
      Out_of_bounds \<Rightarrow> []
    | Invalid_argument m \<Rightarrow> m
    | Length_error m \<Rightarrow> m
    | Runtime_error m \<Rightarrow> m
    | System_error operation \<Rightarrow> operation @ '': '' @ error_text operation)"

definition endpoint_text :: "ipv4_endpoint \<Rightarrow> string" where
  "endpoint_text e = ep_address e @ '':'' @ unsigned_text (ep_port e)"

text \<open>\<open>std::signal\<close> for \<open>SIGINT\<close> and then \<open>SIGTERM\<close>: whether the handler was installed.\<close>

type_synonym 'w signals = "nat \<Rightarrow> 'w \<Rightarrow> bool \<times> 'w"

definition SIGINT :: nat where "SIGINT = 2"
definition SIGTERM :: nat where "SIGTERM = 15"

definition install_signal_handlers :: "'w signals \<Rightarrow> ('w, bool) io" where
  "install_signal_handlers signal =
     io_bind (io_call (signal SIGINT)) (\<lambda>installed.
     if installed then io_call (signal SIGTERM) else io_return False)"

section \<open>Rules\<close>

named_theorems tool_simps "unfolding applications"

lemma tool_basic [simp, tool_simps]:
  "tool_return x p = Some (Inr x, p)"
  "print_out t p = Some (Inr (), p\<lparr>pr_out := pr_out p @ t\<rparr>)"
  "print_err t p = Some (Inr (), p\<lparr>pr_err := pr_err p @ t\<rparr>)"
  "tool_io m p = Some (fst (m (pr_machine p)), p\<lparr>pr_machine := snd (m (pr_machine p))\<rparr>)"
  by (simp_all add: tool_return_def print_out_def print_err_def tool_io_def tool_run_def run_io_def
      split: prod.split)

text \<open>Applications that leave the open descriptors as they found them.\<close>

definition tool_neutral :: "('w, 'a) tool \<Rightarrow> bool" where
  "tool_neutral m \<longleftrightarrow> (\<forall>p r q. m p = Some (r, q) \<longrightarrow> m_open (pr_machine q) = m_open (pr_machine p))"

named_theorems tool_neutral_intros "applications without leaks"

lemma tool_neutral_basic [tool_neutral_intros]:
  "tool_neutral (tool_return x)" "tool_neutral (print_out t)" "tool_neutral (print_err t)"
  "fd_neutral m \<Longrightarrow> tool_neutral (tool_io m)"
  by (auto simp: tool_neutral_def fd_neutral_def)

lemma tool_neutral_bind [tool_neutral_intros]:
  "tool_neutral m \<Longrightarrow> (\<And>x. tool_neutral (f x)) \<Longrightarrow> tool_neutral (tool_bind m f)"
  unfolding tool_neutral_def tool_bind_def by (fastforce split: option.splits sum.splits)

lemma tool_neutral_try [tool_neutral_intros]:
  "tool_neutral m \<Longrightarrow> (\<And>e. tool_neutral (handler e)) \<Longrightarrow> tool_neutral (tool_try m handler)"
  unfolding tool_neutral_def tool_try_def by (fastforce split: option.splits sum.splits if_splits)

lemma tool_neutral_if [tool_neutral_intros]:
  "(c \<Longrightarrow> tool_neutral m) \<Longrightarrow> (\<not> c \<Longrightarrow> tool_neutral n) \<Longrightarrow> tool_neutral (if c then m else n)"
  by simp

text \<open>A socket that is opened, used and closed.\<close>

lemma tool_neutral_socket:
  assumes "opens_one m" "\<And>d. tool_neutral (f d)"
  shows "tool_neutral (tool_bind (tool_io m) (\<lambda>d. tool_scoped os d (f d)))"
  unfolding tool_neutral_def
proof (intro allI impI)
  fix p r q
  assume run: "tool_bind (tool_io m) (\<lambda>d. tool_scoped os d (f d)) p = Some (r, q)"
  show "m_open (pr_machine q) = m_open (pr_machine p)"
  proof (cases "m (pr_machine p)")
    case (Pair x s)
    then have o: "case x of Inl e \<Rightarrow> m_open s = m_open (pr_machine p)
        | Inr d \<Rightarrow> 0 \<le> d \<and> m_open s = d # m_open (pr_machine p)"
      using assms(1) [unfolded opens_one_def, rule_format, of "pr_machine p"] by simp
    show ?thesis
    proof (cases x)
      case (Inl e)
      then show ?thesis using run o Pair by (auto simp: tool_bind_def)
    next
      case (Inr d)
      then have "tool_scoped os d (f d) (p\<lparr>pr_machine := s\<rparr>) = Some (r, q)"
        using run Pair by (simp add: tool_bind_def)
      then obtain q' where q': "f d (p\<lparr>pr_machine := s\<rparr>) = Some (r, q')"
        "q = q'\<lparr>pr_machine := io_close os d (pr_machine q')\<rparr>"
        by (auto simp: tool_scoped_def split: option.splits prod.splits)
      then have "m_open (pr_machine q') = d # m_open (pr_machine p)" "0 \<le> d"
        using assms(2) [of d] o Inr by (fastforce simp: tool_neutral_def)+
      then show ?thesis by (simp add: q'(2) io_close_def)
    qed
  qed
qed

section \<open>Actions without undefined behaviour\<close>

definition io_defined :: "('w, 'a) io \<Rightarrow> bool" where
  "io_defined m \<longleftrightarrow> (\<forall>s. fst (m s) \<noteq> Inl Out_of_bounds)"

lemma io_definedD: "io_defined m \<Longrightarrow> fst (m s) \<noteq> Inl Out_of_bounds"
  by (simp add: io_defined_def)

lemma io_defined_basic [intro!, simp]:
  "io_defined (io_return x)" "io_defined (io_call f)" "io_defined (io_check op r)" "io_defined (io_opened d)"
  "e \<noteq> Out_of_bounds \<Longrightarrow> io_defined (io_throw e)" "c \<noteq> Inl Out_of_bounds \<Longrightarrow> io_defined (io_cpp c)"
  by (simp_all add: io_defined_def io_call_eq io_check_def split: sum.split)

lemma io_defined_bind [intro!]: "io_defined m \<Longrightarrow> (\<And>x. io_defined (f x)) \<Longrightarrow> io_defined (io_bind m f)"
  by (auto simp: io_defined_def io_bind_eq split: sum.split)

lemma io_defined_guarded [intro!]: "io_defined m \<Longrightarrow> io_defined (io_guarded os ds m)"
  by (auto simp: io_defined_def io_guarded_def split: sum.split prod.split dest: arg_cong [of _ _ fst])

lemma address_defined [simp]: "to_sockaddr os e \<noteq> Inl Out_of_bounds" "from_sockaddr os a \<noteq> Inl Out_of_bounds"
  by (auto simp: to_sockaddr_def from_sockaddr_def split: pton_result.splits sum.splits)

lemma socket_defined [intro!, simp]:
  "io_defined (udp_open os)" "io_defined (bind_to os e)" "io_defined (local_endpoint os d)"
  "io_defined (send_to os d b e)" "io_defined (set_non_blocking os d)"
  unfolding udp_open_def bind_to_def local_endpoint_def send_to_def set_non_blocking_def by auto

section \<open>Outcomes\<close>

text \<open>
  \<open>tool_post m P\<close>: when \<open>m\<close> ends, it has only appended to the output and not reached undefined
  behaviour; an exception leaves the error stream alone; a result \<open>x\<close> satisfies \<open>P x clean\<close>, where
  \<open>clean\<close> tells whether nothing was written to the error stream.
\<close>

definition tool_post :: "('w, 'a) tool \<Rightarrow> ('a \<Rightarrow> bool \<Rightarrow> bool) \<Rightarrow> bool" where
  "tool_post m P \<longleftrightarrow> (\<forall>p r q. m p = Some (r, q) \<longrightarrow> prefix (pr_out p) (pr_out q)
     \<and> (case r of Inl e \<Rightarrow> e \<noteq> Out_of_bounds \<and> pr_err q = pr_err p
        | Inr x \<Rightarrow> P x (pr_err q = pr_err p)))"

definition tool_total :: "('w, 'a) tool \<Rightarrow> bool" where "tool_total m \<longleftrightarrow> (\<forall>p. m p \<noteq> None)"

named_theorems tool_post_intros "outcomes of applications"

lemma tool_postD:
  assumes "tool_post m P" "m p = Some (r, q)"
  shows "prefix (pr_out p) (pr_out q)" "r = Inl e \<Longrightarrow> e \<noteq> Out_of_bounds \<and> pr_err q = pr_err p"
    "r = Inr x \<Longrightarrow> P x (pr_err q = pr_err p)"
  using assms(1) [unfolded tool_post_def, rule_format, OF assms(2)] by auto

lemma tool_post_return [tool_post_intros]: "P x True \<Longrightarrow> tool_post (tool_return x) P"
  by (simp add: tool_post_def)

lemma tool_post_print [tool_post_intros]:
  "P () True \<Longrightarrow> tool_post (print_out t) P"
  "t \<noteq> [] \<Longrightarrow> P () False \<Longrightarrow> tool_post (print_err t) P"
  by (auto simp: tool_post_def)

lemma tool_post_io [tool_post_intros]:
  assumes "\<And>s. fst (m s) \<noteq> Inl Out_of_bounds" "\<And>x s. fst (m s) = Inr x \<Longrightarrow> P x True"
  shows "tool_post (tool_io m) P"
  using assms by (auto simp: tool_post_def split: sum.split)

lemma tool_post_bind [tool_post_intros]:
  assumes "tool_post m (\<lambda>x clean. clean \<and> tool_post (f x) P)"
  shows "tool_post (tool_bind m f) P"
  unfolding tool_post_def
proof (intro allI impI)
  fix p r q
  assume run: "tool_bind m f p = Some (r, q)"
  then obtain r1 p1 where m: "m p = Some (r1, p1)" by (auto simp: tool_bind_def split: option.splits)
  note first = tool_postD [OF assms m]
  show "prefix (pr_out p) (pr_out q) \<and> (case r of Inl e \<Rightarrow> e \<noteq> Out_of_bounds \<and> pr_err q = pr_err p
      | Inr x \<Rightarrow> P x (pr_err q = pr_err p))"
  proof (cases r1)
    case (Inl e)
    then show ?thesis using run m first by (auto simp: tool_bind_def)
  next
    case (Inr x)
    then have f: "f x p1 = Some (r, q)" using run m by (simp add: tool_bind_def)
    have x: "pr_err p1 = pr_err p" "tool_post (f x) P" using first(3) [OF Inr] by simp_all
    show ?thesis
      using prefix_order.trans [OF first(1) tool_postD(1) [OF x(2) f]] tool_postD(2,3) [OF x(2) f]
      by (simp add: x(1) split: sum.split)
  qed
qed

lemma tool_post_refuse [tool_post_intros]:
  "P x False \<Longrightarrow> t \<noteq> [] \<Longrightarrow> tool_post (tool_bind (print_err t) (\<lambda>_. tool_return x)) P"
  by (simp add: tool_post_def tool_bind_def)

lemma tool_post_scoped [tool_post_intros]: "tool_post m P \<Longrightarrow> tool_post (tool_scoped os d m) P"
  using tool_postD [of m P]
  by (simp add: tool_post_def [of "tool_scoped _ _ _"] tool_scoped_def split: option.splits prod.splits sum.split)

text \<open>The catch block of every \<open>main\<close>.\<close>

definition tool_failed :: "string \<Rightarrow> (string \<Rightarrow> string) \<Rightarrow> 'a \<Rightarrow> cpp_exception \<Rightarrow> ('w, 'a) tool" where
  "tool_failed label error_text code e =
     tool_bind (print_err (label @ exception_what error_text e @ newline)) (\<lambda>_. tool_return code)"

lemma tool_post_try [tool_post_intros]:
  assumes "tool_post m P" "P code False"
  shows "tool_post (tool_try m (tool_failed label error_text code)) P"
  unfolding tool_post_def
proof (intro allI impI)
  fix p r q
  assume run: "tool_try m (tool_failed label error_text code) p = Some (r, q)"
  then obtain r1 p1 where m: "m p = Some (r1, p1)" by (auto simp: tool_try_def split: option.splits)
  show "prefix (pr_out p) (pr_out q) \<and> (case r of Inl e \<Rightarrow> e \<noteq> Out_of_bounds \<and> pr_err q = pr_err p
      | Inr x \<Rightarrow> P x (pr_err q = pr_err p))"
    using tool_postD [OF assms(1) m] run m assms(2)
    by (cases r1) (auto simp: tool_try_def tool_failed_def tool_bind_def newline_def)
qed

lemma tool_post_mono: "tool_post m P \<Longrightarrow> (\<And>x clean. P x clean \<Longrightarrow> Q x clean) \<Longrightarrow> tool_post m Q"
  by (auto simp: tool_post_def split: sum.splits)

text \<open>With its catch block a program always ends with an exit code.\<close>

lemma tool_try_returns:
  assumes "tool_post m P" "tool_try m (tool_failed label error_text code) p = Some (r, q)"
  shows "\<exists>x. r = Inr x"
proof -
  obtain r1 p1 where m: "m p = Some (r1, p1)" using assms(2) by (auto simp: tool_try_def split: option.splits)
  show ?thesis
    using tool_postD(2) [OF assms(1) m] assms(2) m
    by (cases r1) (auto simp: tool_try_def tool_failed_def tool_bind_def)
qed

lemma tool_total_intros [tool_post_intros]:
  "tool_total (tool_return x)" "tool_total (print_out t)" "tool_total (print_err t)" "tool_total (tool_io m)"
  "tool_total n \<Longrightarrow> (\<And>x. tool_total (f x)) \<Longrightarrow> tool_total (tool_bind n f)"
  "tool_total n \<Longrightarrow> tool_total (tool_scoped os d n)"
  "tool_total k \<Longrightarrow> (\<And>e. tool_total (handler e)) \<Longrightarrow> tool_total (tool_try k handler)"
  by (auto simp: tool_total_def tool_bind_def tool_scoped_def tool_try_def split: option.splits sum.splits)

lemma tool_failed_rules [tool_post_intros, tool_neutral_intros]:
  "tool_total (tool_failed label error_text code e)" "tool_neutral (tool_failed label error_text code e)"
  by (auto simp: tool_failed_def tool_total_def tool_bind_def tool_neutral_def)

section \<open>Inverting runs\<close>

lemma tool_bind_Inr [tool_simps]:
  "tool_bind m f p = Some (Inr y, q) \<longleftrightarrow> (\<exists>x u. m p = Some (Inr x, u) \<and> f x u = Some (Inr y, q))"
  by (auto simp: tool_bind_def split: option.split sum.split)

lemma tool_scoped_Some [tool_simps]:
  "tool_scoped os d m p = Some (r, q) \<longleftrightarrow>
     (\<exists>u. m p = Some (r, u) \<and> q = u\<lparr>pr_machine := io_close os d (pr_machine u)\<rparr>)"
  by (auto simp: tool_scoped_def split: option.split)

lemma tool_try_Inr [tool_simps]:
  "tool_try m (tool_failed label error_text k) p = Some (Inr code, q) \<longleftrightarrow>
     m p = Some (Inr code, q) \<or> code = k \<and> (\<exists>e u. m p = Some (Inl e, u) \<and> e \<noteq> Out_of_bounds
       \<and> q = u\<lparr>pr_err := pr_err u @ label @ exception_what error_text e @ newline\<rparr>)"
  by (auto simp: tool_try_def tool_failed_def tool_bind_def split: option.split sum.split)

end
