(* ===== verification/Udp_Tools.thy ===== *)
theory Udp_Tools
  imports Console
begin

text \<open>
  The two command line tools \<open>src/apps/udp_sender_main.cpp\<close> and \<open>src/apps/udp_receiver_main.cpp\<close>:
  one sends an inertial sample, the other waits for one datagram and prints what it holds. Their
  arguments are those after the program's name. They return their exit code.
\<close>

section \<open>Arguments\<close>

definition unsigned_int_max :: int where "unsigned_int_max = 4294967295"

definition parse_port :: "string \<Rightarrow> u16 cpp" where
  "parse_port t = (case from_chars unsigned_int_max t of
      ([], Inr v) \<Rightarrow>
        if v > 65535 then Inl (Invalid_argument ''port must be an integer between 0 and 65535'')
        else Inr (word_of_int v)
    | _ \<Rightarrow> Inl (Invalid_argument ''port must be an integer between 0 and 65535''))"

section \<open>The sender\<close>

definition sender_sample :: sensor_payload where
  "sender_sample = ImuSample
     \<lparr>imu_linear_acceleration_mps2 = \<lparr>vec_x = Float32 0, vec_y = Float32 0, vec_z = Float32 0x411CF5C3\<rparr>,
      imu_angular_velocity_rps = \<lparr>vec_x = Float32 0x3C23D70A, vec_y = Float32 0xBCA3D70A,
        vec_z = Float32 0x3CF5C28F\<rparr>\<rparr>"

definition sender_timestamp_ns :: "'w os \<Rightarrow> ('w, u64) io" where
  "sender_timestamp_ns os = io_call (lib_steady_now os)"

definition sender_packet :: "'w os \<Rightarrow> ('w, bytes) io" where
  "sender_packet os =
     io_bind (io_cpp (encode_sensor_payload sender_sample)) (\<lambda>payload.
     io_bind (sender_timestamp_ns os) (\<lambda>timestamp_ns.
     io_cpp (encode_packet (message_type_of sender_sample) 1 timestamp_ns payload)))"

definition sender_body :: "'w os \<Rightarrow> string \<Rightarrow> string \<Rightarrow> ('w, int) tool" where
  "sender_body os address port =
     tool_bind (tool_io (io_cpp (parse_port port))) (\<lambda>port.
     let destination = \<lparr>ep_address = address, ep_port = port\<rparr> in
     tool_bind (tool_io (sender_packet os)) (\<lambda>packet.
     tool_bind (tool_io (udp_open os)) (\<lambda>socket. tool_scoped os socket (
     tool_bind (tool_io (send_to os socket packet destination)) (\<lambda>_.
     tool_bind (print_out (''sent '' @ show_decimal (length packet) @ '' bytes to '' @ endpoint_text destination @ newline)) (\<lambda>_.
     tool_return 0))))))"

definition udp_sender_main :: "'w os \<Rightarrow> (string \<Rightarrow> string) \<Rightarrow> string list \<Rightarrow> ('w, int) tool" where
  "udp_sender_main os error_text args = (case args of
      [address, port] \<Rightarrow>
        tool_try (sender_body os address port) (tool_failed ''send failed: '' error_text 2)
    | _ \<Rightarrow>
        tool_bind (print_err (''usage: driveflow_udp_sender <IPv4-address> <port>'' @ newline)) (\<lambda>_.
        tool_return 1))"

section \<open>The receiver\<close>

definition vector_text :: "vector3f \<Rightarrow> string" where
  "vector_text v = ''('' @ float_text (vec_x v) @ '','' @ float_text (vec_y v) @ '','' @ float_text (vec_z v) @ '')''"

definition sensor_payload_text :: "sensor_payload \<Rightarrow> string" where
  "sensor_payload_text p = (case p of
      ImuSample m \<Rightarrow>
        '' acceleration='' @ vector_text (imu_linear_acceleration_mps2 m)
        @ '' angular_velocity='' @ vector_text (imu_angular_velocity_rps m)
    | GnssFix g \<Rightarrow>
        '' latitude='' @ double_text (gnss_latitude_deg g)
        @ '' longitude='' @ double_text (gnss_longitude_deg g)
        @ '' altitude_m='' @ double_text (gnss_altitude_m g)
    | CameraMeta c \<Rightarrow>
        '' frame_id='' @ unsigned_text (cam_frame_id c) @ '' dimensions='' @ unsigned_text (cam_width c)
        @ ''x'' @ unsigned_text (cam_height c)
        @ '' extra_bytes='' @ show_decimal (length (cam_extra_data c)))"

definition received_text :: "received_datagram \<Rightarrow> packet \<Rightarrow> string" where
  "received_text datagram p =
     ''received packet from '' @ endpoint_text (rd_source datagram)
     @ '' type='' @ unsigned_text (raw_type (hdr_message_type (pkt_header p)))
     @ '' sequence='' @ unsigned_text (hdr_sequence_number (pkt_header p))
     @ '' payload_bytes='' @ show_decimal (length (pkt_payload p))"

text \<open>What happens to the datagram: the exit codes 2 and 3 are returns inside the try block.\<close>

definition report_datagram :: "received_datagram \<Rightarrow> ('w, int) tool" where
  "report_datagram datagram =
     tool_bind (tool_io (io_cpp (decode_packet (rd_bytes datagram)))) (\<lambda>decoded_packet.
     case dr_packet decoded_packet of
       None \<Rightarrow>
         tool_bind (print_err (''rejected packet from '' @ endpoint_text (rd_source datagram) @ '': ''
           @ decode_error_to_string (dr_error decoded_packet) @ newline)) (\<lambda>_. tool_return 2)
     | Some p \<Rightarrow>
         tool_bind (tool_io (io_cpp (decode_sensor_payload (hdr_message_type (pkt_header p)) (pkt_payload p)))) (\<lambda>decoded_payload.
         case dsp_payload decoded_payload of
           None \<Rightarrow>
             tool_bind (print_err (''rejected sensor payload from '' @ endpoint_text (rd_source datagram) @ '': ''
               @ payload_error_to_string (dsp_error decoded_payload) @ newline)) (\<lambda>_. tool_return 3)
         | Some payload \<Rightarrow>
             tool_bind (print_out (received_text datagram p)) (\<lambda>_.
             tool_bind (print_out (sensor_payload_text payload)) (\<lambda>_.
             tool_bind (print_out newline) (\<lambda>_. tool_return 0)))))"

definition receiver_body :: "'w os \<Rightarrow> string \<Rightarrow> string \<Rightarrow> ('w, int) tool" where
  "receiver_body os address port =
     tool_bind (tool_io (io_cpp (parse_port port))) (\<lambda>port.
     tool_bind (tool_io (bind_to os \<lparr>ep_address = address, ep_port = port\<rparr>)) (\<lambda>socket. tool_scoped os socket (
     tool_bind (tool_io (local_endpoint os socket)) (\<lambda>actual.
     tool_bind (print_out (''listening on '' @ endpoint_text actual @ newline)) (\<lambda>_.
     tool_bind (tool_io (receive os socket kMaxUdpPayloadSize)) (\<lambda>datagram.
     report_datagram datagram))))))"

definition udp_receiver_main :: "'w os \<Rightarrow> (string \<Rightarrow> string) \<Rightarrow> string list \<Rightarrow> ('w, int) tool" where
  "udp_receiver_main os error_text args = (case args of
      [address, port] \<Rightarrow>
        tool_try (receiver_body os address port) (tool_failed ''receive failed: '' error_text 4)
    | _ \<Rightarrow>
        tool_bind (print_err (''usage: driveflow_udp_receiver <bind-IPv4-address> <port>'' @ newline)) (\<lambda>_.
        tool_return 1))"

end
