(* ===== verification/Sample_Processor.thy ===== *)
theory Sample_Processor
  imports Sensor_Payload Received
begin

text \<open>
  \<open>SensorSampleProcessor\<close> of \<open>src/src/runtime/sensor_sample_processor.cpp\<close>: decodes the payload of a
  received packet, counts the outcome and hands the typed sample to a user handler.

  The handler is a parameter: it transforms the user's own state and either returns or throws
  (\<open>handler_result\<close>). The counters are atomics that are only ever incremented, one relaxed
  \<open>fetch_add\<close> each, so the totals of concurrent calls do not depend on how they interleave; a call
  is modelled as one step. Fields: \<open>ss_\<close> for \<open>SensorSample\<close>, \<open>pm_\<close> for
  \<open>SensorSampleProcessorMetrics\<close>, \<open>spr_\<close> for the processor.
\<close>

section \<open>Data\<close>

record sensor_sample =
  ss_sequence_number :: u64
  ss_source_timestamp_ns :: u64
  ss_receive_timestamp_ns :: u64
  ss_source :: ipv4_endpoint
  ss_listener :: ipv4_endpoint
  ss_payload :: sensor_payload

record processor_metrics =
  pm_packets_examined :: u64
  pm_samples_decoded :: u64
  pm_payloads_rejected :: u64
  pm_imu_samples :: u64
  pm_gnss_samples :: u64
  pm_camera_meta_samples :: u64

datatype handler_result = Returned | Threw

type_synonym 'u handler = "'u \<Rightarrow> sensor_sample \<Rightarrow> 'u \<times> handler_result"

record 'u processor =
  spr_handler :: "'u handler"
  spr_metrics :: processor_metrics
  spr_user :: 'u

text \<open>What \<open>process\<close> does: return an error code, or let the handler's exception propagate.\<close>

datatype process_result = Processed sensor_payload_error | Propagated

definition zero_processor_metrics :: processor_metrics where
  "zero_processor_metrics = \<lparr>pm_packets_examined = 0, pm_samples_decoded = 0, pm_payloads_rejected = 0,
     pm_imu_samples = 0, pm_gnss_samples = 0, pm_camera_meta_samples = 0\<rparr>"

section \<open>Operations\<close>

text \<open>\<open>None\<close> stands for an empty \<open>std::function\<close>.\<close>

definition new_processor :: "'u handler option \<Rightarrow> 'u \<Rightarrow> 'u processor cpp" where
  "new_processor sample_handler user = (case sample_handler of
      None \<Rightarrow> Inl (Invalid_argument ''sensor sample handler must not be empty'')
    | Some h \<Rightarrow> Inr \<lparr>spr_handler = h, spr_metrics = zero_processor_metrics, spr_user = user\<rparr>)"

definition count_sample_type :: "message_type \<Rightarrow> processor_metrics \<Rightarrow> processor_metrics" where
  "count_sample_type type m =
     (if type = kImu then m\<lparr>pm_imu_samples := pm_imu_samples m + 1\<rparr>
      else if type = kGnss then m\<lparr>pm_gnss_samples := pm_gnss_samples m + 1\<rparr>
      else if type = kCameraMeta then m\<lparr>pm_camera_meta_samples := pm_camera_meta_samples m + 1\<rparr>
      else m)"

definition make_sample :: "received_packet \<Rightarrow> sensor_payload \<Rightarrow> sensor_sample" where
  "make_sample p payload =
     \<lparr>ss_sequence_number = rp_sequence_number p, ss_source_timestamp_ns = rp_source_timestamp_ns p,
      ss_receive_timestamp_ns = rp_receive_timestamp_ns p, ss_source = rp_source p,
      ss_listener = rp_listener p, ss_payload = payload\<rparr>"

definition process :: "'u processor \<Rightarrow> received_packet \<Rightarrow> ('u processor \<times> process_result) cpp" where
  "process st p =
     (let m = spr_metrics st; m = m\<lparr>pm_packets_examined := pm_packets_examined m + 1\<rparr>
      in cbind (decode_sensor_payload (hdr_message_type (pkt_header (rp_packet p))) (pkt_payload (rp_packet p)))
        (\<lambda>decoded. case dsp_payload decoded of
           None \<Rightarrow> Inr (st\<lparr>spr_metrics := m\<lparr>pm_payloads_rejected := pm_payloads_rejected m + 1\<rparr>\<rparr>,
                        Processed (dsp_error decoded))
         | Some payload \<Rightarrow>
             (let sample = make_sample p payload;
                  m = m\<lparr>pm_samples_decoded := pm_samples_decoded m + 1\<rparr>;
                  m = count_sample_type (message_type_of (ss_payload sample)) m;
                  (user, result) = spr_handler st (spr_user st) sample
              in Inr (st\<lparr>spr_metrics := m, spr_user := user\<rparr>,
                      case result of Returned \<Rightarrow> Processed PayloadNone | Threw \<Rightarrow> Propagated))))"

text \<open>Calls one after another; an exception of the handler does not stop the caller's worker.\<close>

fun process_all :: "'u processor \<Rightarrow> received_packet list \<Rightarrow> ('u processor \<times> process_result list) cpp" where
  "process_all st [] = Inr (st, [])"
| "process_all st (p # ps) = cbind (process st p) (\<lambda>(st, r). cbind (process_all st ps) (\<lambda>(st, rs). Inr (st, r # rs)))"

lemma process_all_snoc:
  "process_all st (ps @ [p]) = cbind (process_all st ps) (\<lambda>(st, rs).
     cbind (process st p) (\<lambda>(st, r). Inr (st, rs @ [r])))"
proof (induction ps arbitrary: st)
  case (Cons q ps)
  then show ?case by (cases "process st q") (auto simp: cbind_def split: sum.splits)
qed (auto simp: cbind_def split: sum.splits)

section \<open>What a packet contains\<close>

definition sample_of :: "received_packet \<Rightarrow> sensor_sample option" where
  "sample_of p =
     (case decode_sensor_payload (hdr_message_type (pkt_header (rp_packet p))) (pkt_payload (rp_packet p)) of
        Inl e \<Rightarrow> None | Inr r \<Rightarrow> map_option (make_sample p) (dsp_payload r))"

definition samples_of :: "received_packet list \<Rightarrow> sensor_sample list" where
  "samples_of ps = concat (map (\<lambda>p. case sample_of p of None \<Rightarrow> [] | Some s \<Rightarrow> [s]) ps)"

definition of_type :: "message_type \<Rightarrow> sensor_sample list \<Rightarrow> nat" where
  "of_type t ss = length (filter (\<lambda>s. message_type_of (ss_payload s) = t) ss)"

lemma samples_of_simps [simp]:
  "samples_of [] = []"
  "samples_of (p # ps) = (case sample_of p of None \<Rightarrow> [] | Some s \<Rightarrow> [s]) @ samples_of ps"
  by (simp_all add: samples_of_def)

lemma process_rejects:
  assumes "sample_of p = None"
  shows "\<exists>e. e \<noteq> PayloadNone \<and> process st p = Inr (st\<lparr>spr_metrics := (spr_metrics st)
    \<lparr>pm_packets_examined := pm_packets_examined (spr_metrics st) + 1,
     pm_payloads_rejected := pm_payloads_rejected (spr_metrics st) + 1\<rparr>\<rparr>, Processed e)"
proof -
  obtain r where r: "decode_sensor_payload (hdr_message_type (pkt_header (rp_packet p)))
      (pkt_payload (rp_packet p)) = Inr r" using decode_payload_returns by blast
  then have "dsp_payload r = None" using assms by (simp add: sample_of_def)
  moreover have "dsp_error r \<noteq> PayloadNone"
    using decode_payload_error_iff [OF r] calculation by blast
  ultimately show ?thesis by (simp add: process_def r Let_def)
qed

lemma process_accepts:
  assumes "sample_of p = Some s"
  shows "process st p = Inr (st\<lparr>spr_metrics := count_sample_type (message_type_of (ss_payload s))
      ((spr_metrics st)\<lparr>pm_packets_examined := pm_packets_examined (spr_metrics st) + 1,
        pm_samples_decoded := pm_samples_decoded (spr_metrics st) + 1\<rparr>),
      spr_user := fst (spr_handler st (spr_user st) s)\<rparr>,
    case snd (spr_handler st (spr_user st) s) of Returned \<Rightarrow> Processed PayloadNone | Threw \<Rightarrow> Propagated)"
  using assms by (auto simp: sample_of_def process_def Let_def case_prod_beta split: sum.splits)

section \<open>Accounting\<close>

definition add_samples :: "processor_metrics \<Rightarrow> nat \<Rightarrow> sensor_sample list \<Rightarrow> processor_metrics" where
  "add_samples m n ss =
     \<lparr>pm_packets_examined = pm_packets_examined m + of_nat n,
      pm_samples_decoded = pm_samples_decoded m + of_nat (length ss),
      pm_payloads_rejected = pm_payloads_rejected m + of_nat n - of_nat (length ss),
      pm_imu_samples = pm_imu_samples m + of_nat (of_type kImu ss),
      pm_gnss_samples = pm_gnss_samples m + of_nat (of_type kGnss ss),
      pm_camera_meta_samples = pm_camera_meta_samples m + of_nat (of_type kCameraMeta ss)\<rparr>"

lemma message_type_of_cases:
  "message_type_of p = kImu \<or> message_type_of p = kGnss \<or> message_type_of p = kCameraMeta"
  by (cases p) (simp_all add: message_type_of_def)

lemma add_samples_Cons:
  "add_samples (count_sample_type (message_type_of (ss_payload s))
      (m\<lparr>pm_packets_examined := pm_packets_examined m + 1, pm_samples_decoded := pm_samples_decoded m + 1\<rparr>)) n ss
    = add_samples m (Suc n) (s # ss)"
  using message_type_of_cases [of "ss_payload s"]
  by (auto simp: add_samples_def count_sample_type_def of_type_def algebra_simps)

lemma add_samples_reject:
  "add_samples (m\<lparr>pm_packets_examined := pm_packets_examined m + 1,
      pm_payloads_rejected := pm_payloads_rejected m + 1\<rparr>) n ss = add_samples m (Suc n) ss"
  by (simp add: add_samples_def algebra_simps)

lemma process_all_accounts:
  "\<exists>rs. process_all st ps = Inr (st\<lparr>spr_metrics := add_samples (spr_metrics st) (length ps) (samples_of ps),
      spr_user := foldl (\<lambda>u s. fst (spr_handler st u s)) (spr_user st) (samples_of ps)\<rparr>, rs)
    \<and> list_all2 (\<lambda>p r. sample_of p = None \<longleftrightarrow> (\<exists>e. r = Processed e \<and> e \<noteq> PayloadNone)) ps rs"
proof (induction ps arbitrary: st)
  case Nil
  show ?case by (simp add: add_samples_def of_type_def)
next
  case (Cons p ps)
  show ?case
  proof (cases "sample_of p")
    case None
    then obtain e where e: "e \<noteq> PayloadNone" "process st p = Inr (st\<lparr>spr_metrics := (spr_metrics st)
      \<lparr>pm_packets_examined := pm_packets_examined (spr_metrics st) + 1,
       pm_payloads_rejected := pm_payloads_rejected (spr_metrics st) + 1\<rparr>\<rparr>, Processed e)"
      using process_rejects by blast
    then show ?thesis
      using Cons.IH [of "st\<lparr>spr_metrics := (spr_metrics st)
        \<lparr>pm_packets_examined := pm_packets_examined (spr_metrics st) + 1,
         pm_payloads_rejected := pm_payloads_rejected (spr_metrics st) + 1\<rparr>\<rparr>"] None
      by (auto simp: add_samples_reject)
  next
    case (Some s)
    let ?st = "st\<lparr>spr_metrics := count_sample_type (message_type_of (ss_payload s))
        ((spr_metrics st)\<lparr>pm_packets_examined := pm_packets_examined (spr_metrics st) + 1,
          pm_samples_decoded := pm_samples_decoded (spr_metrics st) + 1\<rparr>),
        spr_user := fst (spr_handler st (spr_user st) s)\<rparr>"
    show ?thesis
      using Cons.IH [of ?st] Some
      by (auto simp: process_accepts [OF Some] add_samples_Cons split: handler_result.split)
  qed
qed

lemma of_type_sum: "of_type kImu ss + of_type kGnss ss + of_type kCameraMeta ss = length ss"
proof (induction ss)
  case (Cons s ss)
  then show ?case using message_type_of_cases [of "ss_payload s"] by (auto simp: of_type_def)
qed (simp add: of_type_def)

text \<open>C16. Processing any list of packets returns. The handler is called once for each packet whose
  payload decodes, in order, with the decoded sample, and for no other packet; a packet is answered
  with an error exactly when it has no sample; a throwing handler changes nothing but the answer.
  The counters balance: examined is decoded plus rejected, decoded is the sum over the three types.\<close>

theorem processing_accounts:
  assumes "new_processor (Some h) u = Inr st"
  shows "\<exists>st' rs. process_all st ps = Inr (st', rs)
    \<and> spr_user st' = foldl (\<lambda>u s. fst (h u s)) u (samples_of ps)
    \<and> list_all2 (\<lambda>p r. sample_of p = None \<longleftrightarrow> (\<exists>e. r = Processed e \<and> e \<noteq> PayloadNone)) ps rs
    \<and> pm_packets_examined (spr_metrics st') = of_nat (length ps)
    \<and> pm_samples_decoded (spr_metrics st') = of_nat (length (samples_of ps))
    \<and> pm_imu_samples (spr_metrics st') = of_nat (of_type kImu (samples_of ps))
    \<and> pm_packets_examined (spr_metrics st') = pm_samples_decoded (spr_metrics st') + pm_payloads_rejected (spr_metrics st')
    \<and> pm_samples_decoded (spr_metrics st') = pm_imu_samples (spr_metrics st')
        + pm_gnss_samples (spr_metrics st') + pm_camera_meta_samples (spr_metrics st')"
proof -
  have st: "spr_metrics st = zero_processor_metrics" "spr_handler st = h" "spr_user st = u"
    using assms by (auto simp: new_processor_def)
  have "of_nat (length (samples_of ps)) = (of_nat (of_type kImu (samples_of ps))
      + of_nat (of_type kGnss (samples_of ps)) + of_nat (of_type kCameraMeta (samples_of ps)) :: u64)"
    unfolding of_type_sum [of "samples_of ps", symmetric] by simp
  then show ?thesis
    using process_all_accounts [of st ps] st
    by (auto simp: add_samples_def zero_processor_metrics_def algebra_simps)
qed

text \<open>A handler that counts its calls and throws on every second one; a valid IMU packet and one with
  a truncated payload.\<close>

definition picky :: "nat handler" where
  "picky n s = (n + 1, if even n then Returned else Threw)"

definition imu_packet :: "bytes \<Rightarrow> received_packet" where
  "imu_packet payload =
     \<lparr>rp_packet = \<lparr>pkt_header = \<lparr>hdr_magic = kPacketMagic, hdr_version = kProtocolVersion,
        hdr_message_type = kImu, hdr_sequence_number = 0, hdr_source_timestamp_ns = 0,
        hdr_payload_length = 0, hdr_crc32 = 0\<rparr>, pkt_payload = payload\<rparr>,
      rp_source = \<lparr>ep_address = ''127.0.0.1'', ep_port = 5\<rparr>,
      rp_listener = \<lparr>ep_address = ''127.0.0.1'', ep_port = 9000\<rparr>, rp_receive_timestamp_ns = 0\<rparr>"

definition picky_start :: "nat processor" where
  "picky_start = \<lparr>spr_handler = picky, spr_metrics = zero_processor_metrics, spr_user = 0\<rparr>"

lemma picky_start: "new_processor (Some picky) 0 = Inr picky_start"
  by (simp add: new_processor_def picky_start_def)

lemma processing_accounts_witness:
  "\<exists>st' rs. process_all picky_start [imu_packet (replicate 24 0), imu_packet [1], imu_packet (replicate 24 0)] = Inr (st', rs)
    \<and> spr_user st' = 2 \<and> pm_packets_examined (spr_metrics st') = 3 \<and> pm_samples_decoded (spr_metrics st') = 2"
proof -
  let ?ps = "[imu_packet (replicate 24 0), imu_packet [1], imu_packet (replicate 24 0)]"
  have "length (samples_of ?ps) = 2" "foldl (\<lambda>u s. fst (picky u s)) 0 (samples_of ?ps) = 2" by code_simp+
  then show ?thesis
    using processing_accounts [OF picky_start, of ?ps] by (elim exE conjE) (intro exI conjI, assumption, simp_all)
qed

end
