(* ===== verification/Simulator_Period.thy ===== *)
theory Simulator_Period
  imports Simulator
begin

text \<open>
  The sending period of the simulator over the reals: the two roundings of \<open>1.0 / rate_hz\<close> in
  nanoseconds, the rates for which the conversion to \<open>int64_t\<close> is defined, and a rate the checks
  accept for which it is not.
\<close>

lemma f64_one_giga: "real64 f64_one = 1" "real64 f64_giga = 10 ^ 9" "0 \<le> scaled64 f64_one" "0 \<le> scaled64 f64_giga"
  by (simp_all add: real64_def scaled64_def neg64_def scaled_magnitude_def exp64_def man64_def f64_one_def f64_giga_def)

lemma scaled64_floor: "scaled64 x div 2 ^ 1074 = \<lfloor>real64 x\<rfloor>"
  using floor_divide_of_int_eq [of "scaled64 x" "2 ^ 1074", where ?'a = real]
  unfolding real64_def by (simp only: of_int_power of_int_numeral)

lemma simulation_period_value:
  assumes "1 / 2 ^ 800 \<le> real64 rate" "real64 rate \<le> 2 ^ 800"
  obtains ns where "simulation_period rate = int64_value \<lfloor>ns\<rfloor>"
    "10 ^ 9 / (4 * real64 rate) \<le> ns" "ns \<le> 4 * 10 ^ 9 / real64 rate"
proof -
  let ?r = "real64 rate" let ?s = "f64_divide f64_one rate" let ?n = "f64_times ?s f64_giga"
  have r: "0 < ?r" by (rule less_le_trans [OF _ assms(1)]) simp
  have inv: "1 / 2 ^ 800 \<le> 1 / ?r" "1 / ?r \<le> 2 ^ 800"
    using assms r by (simp_all add: field_simps)
  have s: "rounds_to ?s (1 / ?r)"
  proof (rule f64_divide_rounds [of f64_one rate, unfolded f64_one_giga])
    have "(1 :: real) / 2 ^ 1000 \<le> 1 / 2 ^ 800" by simp
    then show "1 / 2 ^ 1000 \<le> 1 / ?r" using inv(1) by (rule order_trans)
    have "(2 :: real) ^ 800 < 2 ^ 900" by simp
    with inv(2) show "1 / ?r < 2 ^ 900" by (rule le_less_trans)
  qed (use real64_pos [OF r] f64_one_giga in simp_all)
  have "0 < 1 / ?r" using r by simp
  note sb = rounds_to_bounds [OF s this]
  from half_gt_zero [OF \<open>0 < 1 / ?r\<close>] sb(1) have "0 < real64 ?s" by (rule less_le_trans)
  then have pos: "0 < real64 ?s * 10 ^ 9" by simp
  have n: "rounds_to ?n (real64 ?s * 10 ^ 9)"
  proof (rule f64_times_rounds [of ?s f64_giga, unfolded f64_one_giga])
    have "(1 :: real) / 2 ^ 1000 \<le> 1 / 2 ^ 800 / 2 * 10 ^ 9" by simp
    also have "\<dots> \<le> real64 ?s * 10 ^ 9" using inv(1) sb(1) by simp
    finally show "1 / 2 ^ 1000 \<le> real64 ?s * 10 ^ 9" .
    have "real64 ?s * 10 ^ 9 \<le> 2 * 2 ^ 800 * 10 ^ 9" using inv(2) sb(2) by simp
    also have "(2 * 2 ^ 800 * 10 ^ 9 :: real) < 2 ^ 900" by simp
    finally show "real64 ?s * 10 ^ 9 < 2 ^ 900" .
  qed (use sb f64_one_giga in simp_all)
  have nb: "real64 ?s * 10 ^ 9 / 2 \<le> real64 ?n" "real64 ?n \<le> 2 * (real64 ?s * 10 ^ 9)"
    by (rule rounds_to_bounds [OF n pos])+
  have "isfinite64 ?s" "isfinite64 ?n" using s n by (simp_all only: rounds_to_def)
  then have "simulation_period rate = int64_value \<lfloor>real64 ?n\<rfloor>"
    by (simp only: simulation_period_def Let_def scaled64_floor simp_thms if_True)
  moreover have "10 ^ 9 / (4 * ?r) \<le> real64 ?n"
    using nb(1) sb(1) by (simp add: field_simps)
  moreover have "real64 ?n \<le> 4 * 10 ^ 9 / ?r"
    using nb(2) sb(2) by (simp add: field_simps)
  ultimately show thesis by (rule that)
qed

text \<open>From one packet a minute on, the period is defined, and right up to a factor of four.\<close>

lemma simulation_period_defined:
  assumes "1 / 60 \<le> real64 rate" "real64 rate \<le> 10 ^ 6"
  shows "\<exists>p. simulation_period rate = Inr p \<and> 0 \<le> p \<and> real_of_int p \<le> 4 * 10 ^ 9 / real64 rate"
proof -
  have r: "0 < real64 rate" by (rule less_le_trans [OF _ assms(1)]) simp
  have lo: "1 / 2 ^ 800 \<le> real64 rate" by (rule order_trans [OF _ assms(1)]) simp
  have hi: "real64 rate \<le> 2 ^ 800" by (rule order_trans [OF assms(2)]) simp
  obtain ns where ns: "simulation_period rate = int64_value \<lfloor>ns\<rfloor>"
    "10 ^ 9 / (4 * real64 rate) \<le> ns" "ns \<le> 4 * 10 ^ 9 / real64 rate"
    using simulation_period_value [OF lo hi] by blast
  have "0 \<le> 10 ^ 9 / (4 * real64 rate)" using r by simp
  then have nonneg: "0 \<le> ns" using ns(2) by (rule order_trans)
  have "4 * 10 ^ 9 / real64 rate \<le> 4 * 10 ^ 9 * 60"
    using assms(1) r by (simp add: field_simps)
  then have "ns < 2 ^ 63" using ns(3) by simp
  then have "\<lfloor>ns\<rfloor> < 2 ^ 63" by (simp add: floor_less_iff)
  then have "int64_value \<lfloor>ns\<rfloor> = Inr \<lfloor>ns\<rfloor>" using nonneg by (simp add: int64_value_def)
  moreover have "real_of_int \<lfloor>ns\<rfloor> \<le> 4 * 10 ^ 9 / real64 rate" using ns(3) by (rule order_trans [OF of_int_floor_le])
  ultimately show ?thesis using ns(1) nonneg by auto
qed

text \<open>Below one packet in two thousand years, the period does not fit.\<close>

lemma simulation_period_overflows:
  assumes "1 / 2 ^ 800 \<le> real64 rate" "real64 rate \<le> 1 / 2 ^ 36"
  shows "simulation_period rate = Inl Out_of_bounds"
proof -
  have r: "0 < real64 rate" by (rule less_le_trans [OF _ assms(1)]) simp
  have hi: "real64 rate \<le> 2 ^ 800" by (rule order_trans [OF assms(2)]) simp
  obtain ns where ns: "simulation_period rate = int64_value \<lfloor>ns\<rfloor>" "10 ^ 9 / (4 * real64 rate) \<le> ns"
    using simulation_period_value [OF assms(1) hi] by blast
  have "2 ^ 63 \<le> 10 ^ 9 / (4 * real64 rate)" using assms(2) r by (simp add: field_simps)
  then have "2 ^ 63 \<le> ns" using ns(2) by (rule order_trans)
  then have "2 ^ 63 \<le> \<lfloor>ns\<rfloor>" by (simp add: le_floor_iff)
  then show ?thesis by (simp add: ns(1) int64_value_def)
qed

end
