(* ===== verification/Simulator_Host.thy ===== *)
theory Simulator_Host
  imports Simulator_Period
begin

text \<open>
  A host for evaluating the simulator: its world is a clock and the list of the datagrams sent.
  Sleeping moves the clock, nobody asks to stop. On it a run of two packets is evaluated.
\<close>

type_synonym sim_world = "u64 \<times> (bytes \<times> sockaddr) list"

definition sim_os :: "sim_world os" where
  "sim_os =
     \<lparr>sys_socket = (\<lambda>w. (Inr 3, w)),
      sys_bind = (\<lambda>d a w. (Inr (), w)),
      sys_getsockname = (\<lambda>d w. (Inr \<lparr>sin_addr = 0x7F000001, sin_port = [0x23, 0x28]\<rparr>, w)),
      sys_fcntl_getfl = (\<lambda>d w. (Inr 2, w)),
      sys_fcntl_setfl = (\<lambda>d fl w. (Inr (), w)),
      sys_recvmsg = (\<lambda>d n w. (Inl EAGAIN, w)),
      sys_sendto = (\<lambda>d b a (c, log). (Inr (length b), (c, log @ [(b, a)]))),
      sys_close = (\<lambda>d w. w),
      sys_epoll_create = (\<lambda>w. (Inr 4, w)),
      sys_epoll_add = (\<lambda>e d ev w. (Inr (), w)),
      sys_epoll_wait = (\<lambda>e n ms w. (Inr [], w)),
      lib_inet_pton = toy_pton,
      lib_inet_ntop = (\<lambda>a. Inr ''127.0.0.1''),
      lib_steady_now = (\<lambda>(c, log). (c, (c, log)))\<rparr>"

definition sim_host :: "sim_world host" where
  "sim_host = \<lparr>host_os = sim_os,
     host_sleep_until = (\<lambda>t (c, log). (if sint c < t \<and> t < 2 ^ 63 then word_of_int t else c, log)),
     host_stop = (\<lambda>w. (Inr False, w))\<rparr>"

definition sim_start :: "sim_world machine" where
  "sim_start = \<lparr>m_world = (1000, []), m_open = []\<rparr>"

text \<open>Two inertial samples at 1000 Hz; the first follows the second, which is sent twice.\<close>

definition two_packets :: simulator_config where
  "two_packets = \<lparr>sc_sensor_type = kSensorImu,
     sc_destination = \<lparr>ep_address = ''127.0.0.1'', ep_port = 9000\<rparr>, sc_rate_hz = Float64 0x408F400000000000,
     sc_packet_count = Some 2, sc_camera_extra_data_bytes = 0,
     sc_faults = no_faults\<lparr>fc_reorder_every := Some 1, fc_duplicate_every := Some 2\<rparr>\<rparr>"

definition loopback :: sockaddr where
  "loopback = \<lparr>sin_addr = 0x7F000001, sin_port = be_bytes (9000 :: u16)\<rparr>"

lemma two_packets_rate: "real64 (sc_rate_hz two_packets) = 1000" "\<not> bad_rate (sc_rate_hz two_packets)"
  by (simp_all add: two_packets_def real64_def scaled64_def neg64_def scaled_magnitude_def exp64_def man64_def
      bad_rate_def isfinite64_def isnan64_def less64_def kMaximumRateHz_def f64_zero_def)

lemma two_packets_period: "\<exists>p. simulation_period (sc_rate_hz two_packets) = Inr p \<and> 0 \<le> p \<and> p \<le> 4000000"
  using simulation_period_defined [of "sc_rate_hz two_packets"] two_packets_rate(1) by (simp add: of_int_le_numeral_iff)

section \<open>Generating a packet\<close>

definition simulated_packet :: "simulator_config \<Rightarrow> u64 \<Rightarrow> u64 \<Rightarrow> bytes" where
  "simulated_packet config n ts =
     (let p = make_sensor_sample (sc_sensor_type config) n (sc_camera_extra_data_bytes config)
      in packet_bytes (message_type_of p) n ts (payload_bytes p))"

text \<open>Every simulated sample is a valid payload of its sensor.\<close>

lemma sample_valid:
  assumes "k \<le> kMaxCameraExtraDataSize"
  shows "validate_payload (make_sensor_sample t n k) = PayloadNone"
  using assms
  by (simp add: make_sensor_sample_def validate_payload_def validate_camera_def validate_gnss_iff validate_imu_def
      f32_zero_def isfinite32_def isfinite64_def exp32_def exp64_def man32_def man64_def
      real64_def real32_def scaled64_def scaled32_def neg64_def neg32_def scaled_magnitude_def)

lemma current_timestamp_eq:
  "current_timestamp_ns h s = (Inr (fst (lib_steady_now (host_os h) (m_world s))),
     s\<lparr>m_world := snd (lib_steady_now (host_os h) (m_world s))\<rparr>)"
  by (simp add: current_timestamp_ns_def clock_now_def io_bind_eq io_call_eq)

lemma generate_packet_ok:
  assumes "sc_camera_extra_data_bytes config \<le> kMaxCameraExtraDataSize"
  shows "generate_packet h config n s =
    (Inr (simulated_packet config n (fst (lib_steady_now (host_os h) (m_world s)))),
     s\<lparr>m_world := snd (lib_steady_now (host_os h) (m_world s))\<rparr>)"
proof -
  let ?p = "make_sensor_sample (sc_sensor_type config) n (sc_camera_extra_data_bytes config)"
  have v: "validate_payload ?p = PayloadNone" by (rule sample_valid [OF assms])
  have "encode_sensor_payload ?p = Inr (payload_bytes ?p)"
    using v by (simp add: encode_sensor_payload_eq_Inr_iff)
  moreover have "encode_packet (message_type_of ?p) n ts (payload_bytes ?p)
      = Inr (packet_bytes (message_type_of ?p) n ts (payload_bytes ?p))" for ts
    using payload_size [OF v] by (auto simp: encode_packet_eq_Inr_iff message_type_of_def split: sensor_payload.split)
  ultimately show ?thesis
    by (simp add: generate_packet_def Let_def io_bind_eq current_timestamp_eq simulated_packet_def)
qed

section \<open>Evaluating a run\<close>

lemma sim_host_actions [simp]:
  "ask_stop sim_host s = (Inr False, s)"
  "clock_now sim_host s = (Inr (sint (fst (m_world s))), s)"
  "sleep_until sim_host t s = (Inr (), s\<lparr>m_world :=
     (if sint (fst (m_world s)) < t \<and> t < 2 ^ 63 then word_of_int t else fst (m_world s), snd (m_world s))\<rparr>)"
  by (cases "m_world s"; simp add: ask_stop_def clock_now_def sleep_until_def sim_host_def sim_os_def io_bind_eq io_call_eq)+

lemma sim_wait:
  assumes "sint c \<le> d" "d < sint c + kStopPollInterval" "0 \<le> sint c" "sint c + kStopPollInterval < 2 ^ 63"
  shows "wait_until_or_stop (Suc (Suc n)) sim_host d \<lparr>m_world = (c, sent), m_open = fds\<rparr>
    = Some (Inr False, \<lparr>m_world = (word_of_int d, sent), m_open = fds\<rparr>)"
proof (cases "d = sint c")
  case True
  then show ?thesis by (simp add: run_bind_def run_io_def run_return_def)
next
  case False
  have "0 \<le> d" "d < 2 ^ 63" using assms by linarith+
  then have "sint (word_of_int d :: u64) = d"
    by (simp add: sint_uint signed_take_bit_int_eq_self uint_word_of_int)
  then show ?thesis using assms False
    by (simp add: run_bind_def run_io_def run_return_def int64_value_def kStopPollInterval_def nanoseconds_of_ms_def)
qed

lemma sim_send_to:
  assumes "length b \<le> kMaxUdpPayloadSize"
  shows "send_to (host_os sim_host) d b \<lparr>ep_address = ''127.0.0.1'', ep_port = 9000\<rparr> \<lparr>m_world = (c, sent), m_open = fds\<rparr>
    = (Inr (), \<lparr>m_world = (c, sent @ [(b, loopback)]), m_open = fds\<rparr>)"
  using assms
  by (simp add: send_to_def io_bind_eq io_call_eq io_check_def to_sockaddr_def sim_host_def sim_os_def toy_pton_def
      c_str_def NUL_char_def loopback_def)

definition two_packets_bytes :: "u64 \<Rightarrow> u64 \<Rightarrow> bytes" where
  "two_packets_bytes = simulated_packet two_packets"

lemma two_packets_size: "length (two_packets_bytes n ts) \<le> kMaxUdpPayloadSize"
  by (simp add: two_packets_bytes_def simulated_packet_def Let_def two_packets_def make_sensor_sample_def
      kSensorImu_def kSensorGnss_def kSensorCameraMeta_def payload_bytes_def kMaxUdpPayloadSize_def)

definition two_packets_summary :: simulation_summary where
  "two_packets_summary = empty_summary\<lparr>ss_packets_generated := 2, ss_packets_sent := 3,
     ss_duplicate_packets_sent := 1, ss_reorder_events := 1\<rparr>"

lemma two_packets_valid: "validate_simulator_config (host_os sim_host) two_packets = Inr ()"
  unfolding validate_simulator_config_Inr
  using two_packets_rate(2)
  by (simp add: two_packets_def known_sensor_def positive_intervals_def no_faults_def is_ipv4_address_def
      sim_host_def sim_os_def toy_pton_def c_str_def NUL_char_def)

text \<open>One round: a packet is generated and processed, and the batch is sent.\<close>

lemma two_packets_first:
  assumes "injector = new_injector (sc_faults two_packets)"
  shows "simulate_packet n sim_host two_packets d
      \<lparr>sim_injector = injector, sim_summary = empty_summary, sim_next_deadline = t\<rparr> \<lparr>m_world = (c, sent), m_open = fds\<rparr>
    = Some (Inr (False, \<lparr>sim_injector = injector\<lparr>fi_held_packet := \<lparr>pp_bytes = two_packets_bytes 1 c,
          pp_duplicate = False, pp_corrupted = False, pp_delay = 0\<rparr>, fi_has_held_packet := True\<rparr>,
        sim_summary = empty_summary\<lparr>ss_packets_generated := 1\<rparr>, sim_next_deadline = t\<rparr>),
      \<lparr>m_world = (c, sent), m_open = fds\<rparr>)"
proof -
  have "generate_packet sim_host two_packets 1 \<lparr>m_world = (c, sent), m_open = fds\<rparr>
      = (Inr (two_packets_bytes 1 c), \<lparr>m_world = (c, sent), m_open = fds\<rparr>)"
    by (subst generate_packet_ok) (simp_all add: two_packets_bytes_def sim_host_def sim_os_def two_packets_def)
  then show ?thesis
    by (simp add: assms simulate_packet_def empty_summary_def run_bind_def run_io_def run_return_def process_def
        new_injector_def two_packets_def no_faults_def matches_interval_def delay_for_def Let_def send_batch_def
        empty_batch_def)
qed

lemma two_packets_second:
  assumes "injector = (new_injector (sc_faults two_packets))\<lparr>fi_held_packet := \<lparr>pp_bytes = b,
          pp_duplicate = False, pp_corrupted = False, pp_delay = 0\<rparr>, fi_has_held_packet := True\<rparr>"
    and "length b \<le> kMaxUdpPayloadSize"
  shows "simulate_packet n sim_host two_packets d
      \<lparr>sim_injector = injector, sim_summary = empty_summary\<lparr>ss_packets_generated := 1\<rparr>, sim_next_deadline = t\<rparr>
      \<lparr>m_world = (c, sent), m_open = fds\<rparr>
    = Some (Inr (False, \<lparr>sim_injector = new_injector (sc_faults two_packets),
        sim_summary = two_packets_summary, sim_next_deadline = t\<rparr>),
      \<lparr>m_world = (c, sent @ [(two_packets_bytes 2 c, loopback), (two_packets_bytes 2 c, loopback), (b, loopback)]),
       m_open = fds\<rparr>)"
proof -
  have g: "generate_packet sim_host two_packets 2 \<lparr>m_world = (c, sent), m_open = fds\<rparr>
      = (Inr (two_packets_bytes 2 c), \<lparr>m_world = (c, sent), m_open = fds\<rparr>)"
    by (subst generate_packet_ok) (simp_all add: two_packets_bytes_def sim_host_def sim_os_def two_packets_def)
  note send = sim_send_to [OF two_packets_size] sim_send_to [OF assms(2)]
  show ?thesis
    using g send
    by (simp add: assms(1) simulate_packet_def empty_summary_def run_bind_def run_io_def run_return_def process_def
        new_injector_def two_packets_def no_faults_def matches_interval_def delay_for_def Let_def send_batch_def
        empty_batch_def delay_packet_def send_copies_def io_bind_eq count_first_def count_duplicate_def
        two_packets_summary_def empty_packet_def)
qed

lemma two_packets_run:
  "\<exists>c. run_simulator 3 sim_host True two_packets sim_start = Some (Inr two_packets_summary,
     \<lparr>m_world = (c, [(two_packets_bytes 2 c, loopback), (two_packets_bytes 2 c, loopback),
        (two_packets_bytes 1 1000, loopback)]), m_open = []\<rparr>)"
proof -
  obtain p where p: "simulation_period (sc_rate_hz two_packets) = Inr p" "0 \<le> p" "p \<le> 4000000"
    using two_packets_period by blast
  let ?opened = "\<lparr>m_world = (1000, []), m_open = [3]\<rparr> :: sim_world machine"
  let ?start = "\<lparr>sim_injector = new_injector (sc_faults two_packets), sim_summary = empty_summary, sim_next_deadline = 1000\<rparr>"
  have opened: "udp_open (host_os sim_host) sim_start = (Inr 3, ?opened)"
    by (simp add: udp_open_def io_bind_eq io_call_eq io_check_def sim_host_def sim_os_def sim_start_def)
  have deadline: "int64_value (1000 + p) = Inr (1000 + p)" using p by (simp add: int64_value_def)
  have wait: "wait_until_or_stop 3 sim_host (1000 + p) ?opened
      = Some (Inr False, \<lparr>m_world = (word_of_int (1000 + p), []), m_open = [3]\<rparr>)"
    using p sim_wait [where c = 1000 and d = "1000 + p" and n = 1 and sent = "[]" and fds = "[3]"]
    by (simp add: kStopPollInterval_def nanoseconds_of_ms_def numeral_3_eq_3)
  note first = two_packets_first [OF refl]
  note second = two_packets_second [OF refl two_packets_size]
  have count: "sc_packet_count two_packets = Some 2" by (simp add: two_packets_def)
  have rounds: "simulation_loop (Suc (Suc n)) 3 sim_host two_packets 3 p ?start ?opened
    = Some (Inr (False, \<lparr>sim_injector = new_injector (sc_faults two_packets), sim_summary = two_packets_summary,
          sim_next_deadline = 1000 + p\<rparr>),
        \<lparr>m_world = (word_of_int (1000 + p), [(two_packets_bytes 2 (word_of_int (1000 + p)), loopback),
          (two_packets_bytes 2 (word_of_int (1000 + p)), loopback), (two_packets_bytes 1 1000, loopback)]), m_open = [3]\<rparr>)" for n
    by (simp add: run_bind_def run_io_def run_return_def first second deadline wait more_to_generate_def count Let_def)
      (simp add: empty_summary_def two_packets_summary_def)
  have loop: "simulation_loop 3 3 sim_host two_packets 3 p ?start ?opened
    = Some (Inr (False, \<lparr>sim_injector = new_injector (sc_faults two_packets), sim_summary = two_packets_summary,
          sim_next_deadline = 1000 + p\<rparr>),
        \<lparr>m_world = (word_of_int (1000 + p), [(two_packets_bytes 2 (word_of_int (1000 + p)), loopback),
          (two_packets_bytes 2 (word_of_int (1000 + p)), loopback), (two_packets_bytes 1 1000, loopback)]), m_open = [3]\<rparr>)"
    using rounds [of 1] by (simp only: numeral_3_eq_3 One_nat_def)
  have idle: "finish (new_injector f) = (empty_batch, new_injector f)" for f
    by (simp add: finish_def new_injector_def)
  have close: "sys_close (host_os sim_host) d w = w" for d w by (simp add: sim_host_def sim_os_def)
  show ?thesis
    by (simp add: run_simulator_def two_packets_valid run_bind_def run_io_def run_return_def run_scoped_def p(1)
        opened loop finish_simulation_def send_batch_def idle io_close_def close)
qed

section \<open>A rate without a period\<close>

text \<open>\<open>--rate-hz 9.1e-13\<close> (here exactly \<open>2 ^ -40\<close>) passes every check, but its period is no \<open>int64_t\<close> of
  nanoseconds: \<open>run_simulator\<close> converts it nevertheless.\<close>

definition slow_config :: simulator_config where
  "slow_config = two_packets\<lparr>sc_rate_hz := Float64 0x3D70000000000000\<rparr>"

lemma slow_rate: "real64 (sc_rate_hz slow_config) = 1 / 2 ^ 40" "\<not> bad_rate (sc_rate_hz slow_config)"
  by (simp_all add: slow_config_def real64_def scaled64_def neg64_def scaled_magnitude_def exp64_def man64_def
      bad_rate_def isfinite64_def isnan64_def less64_def kMaximumRateHz_def f64_zero_def)

theorem accepted_rate_without_period:
  "validate_simulator_config (host_os sim_host) slow_config = Inr ()
   \<and> (\<forall>fuel. \<exists>t. run_simulator fuel sim_host True slow_config sim_start = Some (Inl Out_of_bounds, t))"
proof -
  have valid: "validate_simulator_config (host_os sim_host) slow_config = Inr ()"
    using two_packets_valid slow_rate(2) unfolding validate_simulator_config_Inr by (simp add: slow_config_def)
  have period: "simulation_period (sc_rate_hz slow_config) = Inl Out_of_bounds"
    by (rule simulation_period_overflows; unfold slow_rate(1)) simp_all
  have "udp_open (host_os sim_host) sim_start = (Inr 3, \<lparr>m_world = (1000, []), m_open = [3]\<rparr>)"
    by (simp add: udp_open_def io_bind_eq io_call_eq io_check_def sim_host_def sim_os_def sim_start_def)
  then show ?thesis
    using valid by (simp add: run_simulator_def run_bind_def run_io_def run_scoped_def period)
qed

end
