(* ===== verification/Simulator_Run.thy ===== *)
theory Simulator_Run
  imports Simulator_Host
begin

text \<open>
  What a run of the simulator sends and counts: the datagrams the system accepted, related to the
  stream that the fault injector makes of the generated packets.
\<close>

section \<open>Results of runs\<close>

lemma run_bind_Inr:
  "run_bind m f s = Some (Inr y, t) \<longleftrightarrow> (\<exists>x u. m s = Some (Inr x, u) \<and> f x u = Some (Inr y, t))"
  by (auto simp: run_bind_def split: option.splits prod.splits sum.splits)

lemma run_io_bind_Inr:
  "run_bind (run_io m) f s = Some (Inr y, t) \<longleftrightarrow> (\<exists>x u. m s = (Inr x, u) \<and> f x u = Some (Inr y, t))"
  by (auto simp: run_bind_Inr run_io_def)

lemma run_io_Inr [simp]: "run_io m s = Some (Inr x, u) \<longleftrightarrow> m s = (Inr x, u)"
  by (auto simp: run_io_def)

lemma run_return_Inr [simp]: "run_return x s = Some (Inr y, t) \<longleftrightarrow> y = x \<and> t = s"
  by (auto simp: run_return_def)

lemma io_cpp_Inr [simp]: "io_cpp m s = (Inr x, u) \<longleftrightarrow> m = Inr x \<and> u = s"
  by (auto simp: io_cpp_def)

lemmas run_results = run_io_bind_Inr run_bind_Inr

lemma io_bind_Inr: "io_bind m f s = (Inr y, t) \<longleftrightarrow> (\<exists>x u. m s = (Inr x, u) \<and> f x u = (Inr y, t))"
  by (auto simp: io_bind_def split: prod.splits sum.splits)

section \<open>Observing the datagrams\<close>

text \<open>
  \<open>sent\<close> is a record of the datagrams the system accepted: \<open>sendto\<close> adds the bytes it reports as
  sent, nothing else changes it.
\<close>

definition records_sends :: "'w host \<Rightarrow> ('w \<Rightarrow> (bytes \<times> sockaddr) list) \<Rightarrow> bool" where
  "records_sends h sent \<longleftrightarrow>
     (\<forall>d b a w. sent (snd (sys_sendto (host_os h) d b a w)) = sent w
        @ (case fst (sys_sendto (host_os h) d b a w) of Inl e \<Rightarrow> [] | Inr n \<Rightarrow> [(take n b, a)]))
     \<and> (\<forall>w. sent (snd (sys_socket (host_os h) w)) = sent w)
     \<and> (\<forall>d w. sent (sys_close (host_os h) d w) = sent w)
     \<and> (\<forall>w. sent (snd (lib_steady_now (host_os h) w)) = sent w)
     \<and> (\<forall>w. sent (snd (host_stop h w)) = sent w)
     \<and> (\<forall>t w. sent (host_sleep_until h t w) = sent w)"

definition never_stops :: "'w host \<Rightarrow> bool" where
  "never_stops h \<longleftrightarrow> (\<forall>w. fst (host_stop h w) = Inr False)"

definition copies :: "pending_packet \<Rightarrow> bytes list" where
  "copies p = (if pp_duplicate p then [pp_bytes p, pp_bytes p] else [pp_bytes p])"

definition datagrams :: "pending_packet list \<Rightarrow> bytes list" where
  "datagrams ps = concat (map copies ps)"

text \<open>The counters of a summary, for the packets that were sent.\<close>

definition counts_sent :: "pending_packet list \<Rightarrow> simulation_summary \<Rightarrow> bool" where
  "counts_sent ps summary \<longleftrightarrow>
     ss_packets_sent summary = of_nat (length (datagrams ps))
     \<and> ss_duplicate_packets_sent summary = of_nat (length (filter pp_duplicate ps))
     \<and> ss_corrupted_packets_sent summary = of_nat (length (datagrams (filter pp_corrupted ps)))"

definition count_delayed :: "pending_packet list \<Rightarrow> u64" where
  "count_delayed ps = of_nat (length (filter (\<lambda>p. pp_delay p > 0) ps))"

lemma datagrams_append [simp]: "datagrams (xs @ ys) = datagrams xs @ datagrams ys"
  by (simp add: datagrams_def)

lemma datagrams_simps [simp]: "datagrams [] = []" "datagrams (p # ps) = copies p @ datagrams ps"
  by (simp_all add: datagrams_def)

lemma length_datagrams: "length (datagrams ps) = length ps + length (filter pp_duplicate ps)"
  by (induction ps) (simp_all add: copies_def)

lemma ask_stop_sent:
  "records_sends h sent \<Longrightarrow> ask_stop h s = (r, u) \<Longrightarrow> sent (m_world u) = sent (m_world s)"
  by (auto simp: ask_stop_def records_sends_def split: prod.splits) (metis snd_conv)

lemma ask_stop_never: "never_stops h \<Longrightarrow> ask_stop h s = (r, u) \<Longrightarrow> r = Inr False"
  by (auto simp: ask_stop_def never_stops_def split: prod.splits) (metis fst_conv)

lemma clock_now_sent:
  "records_sends h sent \<Longrightarrow> clock_now h s = (r, u) \<Longrightarrow> sent (m_world u) = sent (m_world s)"
  by (auto simp: clock_now_def io_bind_eq io_call_eq records_sends_def)

lemma sleep_until_sent:
  "records_sends h sent \<Longrightarrow> sleep_until h d s = (r, u) \<Longrightarrow> sent (m_world u) = sent (m_world s)"
  by (auto simp: sleep_until_def records_sends_def)

lemma wait_sent:
  assumes "records_sends h sent"
  shows "wait_until_or_stop fuel h d s = Some (Inr r, u) \<Longrightarrow>
    sent (m_world u) = sent (m_world s) \<and> (never_stops h \<longrightarrow> \<not> r)"
proof (induction fuel arbitrary: s)
  case (Suc fuel)
  then obtain stopping s1 where ask: "ask_stop h s = (Inr stopping, s1)"
    and rest: "(if stopping then run_return True else
     run_bind (run_io (clock_now h)) (\<lambda>now.
     if d \<le> now then run_return False else
     run_bind (run_io (io_cpp (int64_value (now + kStopPollInterval)))) (\<lambda>wakeup.
     run_bind (run_io (sleep_until h (if d < wakeup then d else wakeup))) (\<lambda>_.
     wait_until_or_stop fuel h d)))) s1 = Some (Inr r, u)"
    by (auto simp: run_io_bind_Inr)
  note s1 = ask_stop_sent [OF assms ask] ask_stop_never [OF _ ask]
  show ?case
  proof (cases stopping)
    case True
    then show ?thesis using rest s1 by auto
  next
    case False
    then obtain now s2 where now: "clock_now h s1 = (Inr now, s2)"
      and rest: "(if d \<le> now then run_return False else
     run_bind (run_io (io_cpp (int64_value (now + kStopPollInterval)))) (\<lambda>wakeup.
     run_bind (run_io (sleep_until h (if d < wakeup then d else wakeup))) (\<lambda>_.
     wait_until_or_stop fuel h d))) s2 = Some (Inr r, u)"
      using rest by (auto simp: run_io_bind_Inr)
    show ?thesis
    proof (cases "d \<le> now")
      case True
      then show ?thesis using rest s1 clock_now_sent [OF assms now] by auto
    next
      case False
      then obtain wakeup s3 where "sleep_until h (if d < wakeup then d else wakeup) s2 = (Inr (), s3)"
        "wait_until_or_stop fuel h d s3 = Some (Inr r, u)"
        using rest by (auto simp: run_io_bind_Inr)
      then show ?thesis
        using Suc.IH s1 clock_now_sent [OF assms now] sleep_until_sent [OF assms] by metis
    qed
  qed
qed simp

section \<open>Sending\<close>

text \<open>The state while packets are sent: \<open>es\<close> have been, since the record was \<open>base\<close>.\<close>

definition emitted ::
  "('w \<Rightarrow> (bytes \<times> sockaddr) list) \<Rightarrow> (bytes \<times> sockaddr) list \<Rightarrow> sockaddr \<Rightarrow> pending_packet list
    \<Rightarrow> simulation_summary \<Rightarrow> 'w machine \<Rightarrow> bool" where
  "emitted sent base address es summary s \<longleftrightarrow>
     sent (m_world s) = base @ map (\<lambda>b. (b, address)) (datagrams es) \<and> counts_sent es summary"

definition same_generation :: "simulation_summary \<Rightarrow> simulation_summary \<Rightarrow> bool" where
  "same_generation a b \<longleftrightarrow> ss_packets_generated a = ss_packets_generated b
     \<and> ss_packets_dropped a = ss_packets_dropped b \<and> ss_reorder_events a = ss_reorder_events b"

lemma send_to_sent:
  assumes "records_sends h sent" "send_to (host_os h) d b e s = (Inr (), u)" "to_sockaddr (host_os h) e = Inr a"
  shows "sent (m_world u) = sent (m_world s) @ [(b, a)]"
proof -
  have len: "length b \<le> kMaxUdpPayloadSize" using assms(2) by (auto simp: send_to_def split: if_splits)
  define r where "r = sys_sendto (host_os h) d b a (m_world s)"
  have "fst r = Inr (length b)" "u = s\<lparr>m_world := snd r\<rparr>"
    using assms(2,3) len
    by (auto simp: send_to_def io_bind_eq io_call_eq io_check_def r_def split: sum.splits if_splits)
  then show ?thesis using assms(1) by (simp add: records_sends_def r_def)
qed

lemma send_copies_emitted:
  assumes h: "records_sends h sent" "to_sockaddr (host_os h) e = Inr a"
    and run: "send_copies h d e p summary s = (Inr summary', u)"
    and inv: "emitted sent base a es summary s"
  shows "emitted sent base a (es @ [p]) summary' u
    \<and> same_generation summary' summary \<and> ss_delayed_packets summary' = ss_delayed_packets summary"
proof -
  obtain s1 where s1: "send_to (host_os h) d (pp_bytes p) e s = (Inr (), s1)"
    "(if pp_duplicate p then io_bind (send_to (host_os h) d (pp_bytes p) e) (\<lambda>_.
       io_return (count_duplicate p (count_first p summary)))
      else io_return (count_first p summary)) s1 = (Inr summary', u)"
    using run by (auto simp: send_copies_def io_bind_Inr Let_def)
  note sent1 = send_to_sent [OF h(1) s1(1) h(2)]
  show ?thesis
  proof (cases "pp_duplicate p")
    case True
    then have s2: "send_to (host_os h) d (pp_bytes p) e s1 = (Inr (), u)"
      "summary' = count_duplicate p (count_first p summary)"
      using s1(2) by (auto simp: io_bind_Inr)
    show ?thesis using inv True sent1 send_to_sent [OF h(1) s2(1) h(2)]
      by (simp add: emitted_def counts_sent_def s2(2) copies_def same_generation_def count_duplicate_def count_first_def)
  next
    case False
    then show ?thesis using inv sent1 s1(2)
      by (auto simp: emitted_def counts_sent_def copies_def same_generation_def count_first_def)
  qed
qed

lemma delay_packet_emitted:
  assumes h: "records_sends h sent"
    and run: "delay_packet fuel h p summary s = Some (Inr (stopping, summary'), u)"
    and inv: "emitted sent base a es summary s"
  shows "emitted sent base a es summary' u \<and> same_generation summary' summary
    \<and> ss_delayed_packets summary' = ss_delayed_packets summary + count_delayed [p]
    \<and> (never_stops h \<longrightarrow> \<not> stopping)"
proof (cases "pp_delay p > 0")
  case True
  then obtain now s1 deadline where d: "clock_now h s = (Inr now, s1)"
    "wait_until_or_stop fuel h deadline s1 = Some (Inr stopping, u)"
    "summary' = summary\<lparr>ss_delayed_packets := ss_delayed_packets summary + 1\<rparr>"
    using run by (auto simp: delay_packet_def Let_def run_io_bind_Inr run_bind_Inr)
  then show ?thesis using inv True clock_now_sent [OF h d(1)] wait_sent [OF h d(2)]
    by (auto simp: emitted_def counts_sent_def same_generation_def count_delayed_def)
next
  case False
  then show ?thesis using run inv
    by (auto simp: delay_packet_def same_generation_def count_delayed_def)
qed

lemma same_generation_trans: "same_generation a b \<Longrightarrow> same_generation b c \<Longrightarrow> same_generation a c"
  by (simp add: same_generation_def)

lemma count_delayed_Nil [simp]: "count_delayed [] = 0"
  and count_delayed_append: "count_delayed (ps @ qs) = count_delayed ps + count_delayed qs"
  and count_delayed_Cons: "count_delayed (p # ps) = count_delayed [p] + count_delayed ps"
  by (simp_all add: count_delayed_def)

lemma send_packets_emitted:
  assumes h: "records_sends h sent" "to_sockaddr (host_os h) e = Inr a"
  shows "send_packets fuel h e d summary ps s = Some (Inr (ok, summary'), u) \<Longrightarrow>
    emitted sent base a es summary s \<Longrightarrow>
    \<exists>qs. prefix qs ps \<and> emitted sent base a (es @ qs) summary' u \<and> same_generation summary' summary
      \<and> (ok \<longrightarrow> qs = ps \<and> ss_delayed_packets summary' = ss_delayed_packets summary + count_delayed ps)
      \<and> (never_stops h \<longrightarrow> ok)"
proof (induction ps arbitrary: summary s es)
  case Nil
  then show ?case by (auto simp: same_generation_def)
next
  case (Cons p ps)
  obtain stopping s1 where ask: "ask_stop h s = (Inr stopping, s1)"
    and rest: "(if stopping then run_return (False, summary) else
     run_bind (delay_packet fuel h p summary) (\<lambda>(stopping, summary).
     if stopping then run_return (False, summary) else
     run_bind (run_io (send_copies h d e p summary)) (\<lambda>summary.
     send_packets fuel h e d summary ps))) s1 = Some (Inr (ok, summary'), u)"
    using Cons.prems(1) by (auto simp: run_io_bind_Inr)
  have inv1: "emitted sent base a es summary s1"
    using Cons.prems(2) ask_stop_sent [OF h(1) ask] by (simp add: emitted_def)
  show ?case
  proof (cases stopping)
    case True
    then show ?thesis using rest inv1 ask_stop_never [OF _ ask]
      by (auto simp: same_generation_def intro!: exI [of _ "[]"])
  next
    case False
    then obtain waiting summary1 s2 where delay: "delay_packet fuel h p summary s1 = Some (Inr (waiting, summary1), s2)"
      and rest: "(if waiting then run_return (False, summary1) else
     run_bind (run_io (send_copies h d e p summary1)) (\<lambda>summary.
     send_packets fuel h e d summary ps)) s2 = Some (Inr (ok, summary'), u)"
      using rest by (auto simp: run_bind_Inr)
    note d1 = delay_packet_emitted [OF h(1) delay inv1]
    show ?thesis
    proof (cases waiting)
      case True
      then show ?thesis using rest d1 by (auto intro!: exI [of _ "[]"])
    next
      case False
      then obtain summary2 s3 where copies: "send_copies h d e p summary1 s2 = (Inr summary2, s3)"
        and tail: "send_packets fuel h e d summary2 ps s3 = Some (Inr (ok, summary'), u)"
        using rest by (auto simp: run_io_bind_Inr)
      note c1 = send_copies_emitted [OF h copies, of base es]
      obtain qs where qs: "prefix qs ps" "emitted sent base a ((es @ [p]) @ qs) summary' u"
        "same_generation summary' summary2"
        "ok \<longrightarrow> qs = ps \<and> ss_delayed_packets summary' = ss_delayed_packets summary2 + count_delayed ps"
        "never_stops h \<longrightarrow> ok"
        using Cons.IH [OF tail] c1 d1 by blast
      then show ?thesis using c1 d1 count_delayed_Cons [of p ps]
        by (intro exI [of _ "p # qs"]) (auto simp: ac_simps intro: same_generation_trans)
    qed
  qed
qed

section \<open>Generating\<close>

text \<open>The packets of a run: the sequence numbers count from one, the timestamps come from the clock.\<close>

definition generated_stream :: "simulator_config \<Rightarrow> (u64 \<times> bytes) list \<Rightarrow> bool" where
  "generated_stream config gs \<longleftrightarrow>
     (\<forall>i < length gs. \<exists>ts. gs ! i = (of_nat (Suc i), simulated_packet config (of_nat (Suc i)) ts))"

lemma generated_stream_snoc:
  "generated_stream config gs \<Longrightarrow>
   generated_stream config (gs @ [(of_nat (Suc (length gs)), simulated_packet config (of_nat (Suc (length gs))) ts)])"
  by (auto simp: generated_stream_def nth_append less_Suc_eq)

lemma injector_run_snoc:
  "process_all fi gs = Inr (bs, fi1) \<Longrightarrow> process fi1 n b = Inr (batch, fi2) \<Longrightarrow>
   process_all fi (gs @ [(n, b)]) = Inr (bs @ [batch], fi2)"
  by (induction fi gs arbitrary: bs rule: process_all.induct)
    (auto simp: cbind_def split: sum.splits prod.splits)

lemma generate_packet_result:
  assumes "records_sends h sent" "generate_packet h config n s = (Inr b, u)"
  shows "\<exists>ts. b = simulated_packet config n ts" "sent (m_world u) = sent (m_world s)"
proof -
  define p where "p = make_sensor_sample (sc_sensor_type config) n (sc_camera_extra_data_bytes config)"
  obtain payload ts s1 where g: "encode_sensor_payload p = Inr payload"
    "current_timestamp_ns h s = (Inr ts, s1)" "encode_packet (message_type_of p) n ts payload = Inr b" "u = s1"
    using assms(2) by (auto simp: generate_packet_def Let_def io_bind_Inr p_def)
  then show "\<exists>ts. b = simulated_packet config n ts"
    by (auto simp: simulated_packet_def Let_def p_def encode_sensor_payload_eq_Inr_iff encode_packet_eq_Inr_iff)
  obtain now where "clock_now h s = (Inr now, s1)"
    using g(2) by (auto simp: current_timestamp_ns_def io_bind_Inr)
  then show "sent (m_world u) = sent (m_world s)" using clock_now_sent [OF assms(1)] g(4) by auto
qed

text \<open>The invariant of the loop: \<open>gs\<close> was generated, the injector made \<open>batches\<close> of it, and \<open>es\<close>, an
  initial part of them, was sent.\<close>

definition simulated ::
  "('w \<Rightarrow> (bytes \<times> sockaddr) list) \<Rightarrow> (bytes \<times> sockaddr) list \<Rightarrow> sockaddr \<Rightarrow> simulator_config
    \<Rightarrow> (u64 \<times> bytes) list \<Rightarrow> injection_batch list \<Rightarrow> pending_packet list \<Rightarrow> simulation \<Rightarrow> 'w machine \<Rightarrow> bool" where
  "simulated sent base a config gs batches es sim s \<longleftrightarrow>
     emitted sent base a es (sim_summary sim) s
     \<and> generated_stream config gs
     \<and> process_all (new_injector (sc_faults config)) gs = Inr (batches, sim_injector sim)
     \<and> ss_packets_generated (sim_summary sim) = of_nat (length gs)
     \<and> ss_packets_dropped (sim_summary sim) = batches_dropped batches
     \<and> prefix es (batch_packets batches)"

text \<open>Everything the injector has handed out was sent.\<close>

definition caught_up :: "injection_batch list \<Rightarrow> pending_packet list \<Rightarrow> simulation_summary \<Rightarrow> bool" where
  "caught_up batches es summary \<longleftrightarrow> es = batch_packets batches
     \<and> ss_reorder_events summary = batches_reordered batches \<and> ss_delayed_packets summary = count_delayed es"

lemma batch_totals_snoc [simp]:
  "batch_packets (bs @ [b]) = batch_packets bs @ ib_packets b"
  "batches_dropped (bs @ [b]) = batches_dropped bs + ib_packets_dropped b"
  "batches_reordered (bs @ [b]) = batches_reordered bs + ib_reorder_events b"
  by (simp_all add: batch_totals)

lemma send_batch_emitted:
  assumes h: "records_sends h sent" "to_sockaddr (host_os h) e = Inr a"
    and run: "send_batch fuel h e d batch summary s = Some (Inr (ok, summary'), u)"
    and inv: "emitted sent base a es summary s"
  shows "\<exists>qs. prefix qs (ib_packets batch) \<and> emitted sent base a (es @ qs) summary' u
    \<and> ss_packets_generated summary' = ss_packets_generated summary
    \<and> ss_packets_dropped summary' = ss_packets_dropped summary
    \<and> (ok \<longrightarrow> qs = ib_packets batch
        \<and> ss_reorder_events summary' = ss_reorder_events summary + ib_reorder_events batch
        \<and> ss_delayed_packets summary' = ss_delayed_packets summary + count_delayed qs)
    \<and> (never_stops h \<longrightarrow> ok)"
proof -
  obtain summary1 where run1: "send_packets fuel h e d summary (ib_packets batch) s = Some (Inr (ok, summary1), u)"
    and s': "summary' = (if ok then summary1\<lparr>ss_reorder_events := ss_reorder_events summary1 + ib_reorder_events batch\<rparr>
       else summary1)"
    using run by (auto simp: send_batch_def run_bind_Inr)
  have "emitted sent base a fs summary' u = emitted sent base a fs summary1 u" for fs
    by (simp add: s' emitted_def counts_sent_def)
  then show ?thesis using send_packets_emitted [OF h run1 inv]
    by (auto simp: s' same_generation_def)
qed

lemma simulate_packet_inv:
  assumes h: "records_sends h sent" "to_sockaddr (host_os h) (sc_destination config) = Inr a"
    and run: "simulate_packet fuel h config d sim s = Some (Inr (stopped, sim'), t)"
    and inv: "simulated sent base a config gs batches es sim s" "caught_up batches es (sim_summary sim)"
  shows "\<exists>g batch fs. simulated sent base a config (gs @ [g]) (batches @ [batch]) fs sim' t
    \<and> (\<not> stopped \<longrightarrow> caught_up (batches @ [batch]) fs (sim_summary sim'))
    \<and> (never_stops h \<longrightarrow> \<not> stopped)"
proof -
  define n :: u64 where "n = of_nat (Suc (length gs))"
  have n: "ss_packets_generated (sim_summary sim) + 1 = n"
    using inv(1) by (simp add: simulated_def n_def)
  define summary1 where "summary1 = (sim_summary sim)\<lparr>ss_packets_generated := n\<rparr>"
  let ?counted = "\<lambda>batch. summary1\<lparr>ss_packets_dropped := ss_packets_dropped summary1 + ib_packets_dropped batch\<rparr>"
  obtain packet s1 where gen: "generate_packet h config n s = (Inr packet, s1)"
    and run1: "run_bind (run_io (io_cpp (process (sim_injector sim) n packet))) (\<lambda>(batch, injector).
      run_bind (send_batch fuel h (sc_destination config) d batch (?counted batch)) (\<lambda>(sent, summary).
      run_return (\<not> sent, sim\<lparr>sim_injector := injector, sim_summary := summary\<rparr>))) s1
      = Some (Inr (stopped, sim'), t)"
    using run unfolding simulate_packet_def Let_def n run_io_bind_Inr [of "generate_packet _ _ _"]
      summary1_def [symmetric] by blast
  obtain batch injector where proc: "process (sim_injector sim) n packet = Inr (batch, injector)"
    and run2: "run_bind (send_batch fuel h (sc_destination config) d batch (?counted batch)) (\<lambda>(sent, summary).
      run_return (\<not> sent, sim\<lparr>sim_injector := injector, sim_summary := summary\<rparr>)) s1
      = Some (Inr (stopped, sim'), t)"
    using run1 by (auto simp: run_io_bind_Inr)
  obtain summary2 where
    send: "send_batch fuel h (sc_destination config) d batch (?counted batch) s1 = Some (Inr (\<not> stopped, summary2), t)"
    and res: "sim' = sim\<lparr>sim_injector := injector, sim_summary := summary2\<rparr>"
    using run2 by (auto simp: run_bind_Inr)
  obtain ts where ts: "packet = simulated_packet config n ts"
    using generate_packet_result(1) [OF h(1) gen] by blast
  have e1: "emitted sent base a es
      (summary1\<lparr>ss_packets_dropped := ss_packets_dropped summary1 + ib_packets_dropped batch\<rparr>) s1"
    using inv(1) generate_packet_result(2) [OF h(1) gen]
    by (simp add: simulated_def emitted_def counts_sent_def summary1_def)
  obtain qs where qs: "prefix qs (ib_packets batch)" "emitted sent base a (es @ qs) summary2 t"
    "ss_packets_generated summary2 = n"
    "ss_packets_dropped summary2 = ss_packets_dropped (sim_summary sim) + ib_packets_dropped batch"
    "\<not> stopped \<longrightarrow> qs = ib_packets batch
        \<and> ss_reorder_events summary2 = ss_reorder_events (sim_summary sim) + ib_reorder_events batch
        \<and> ss_delayed_packets summary2 = ss_delayed_packets (sim_summary sim) + count_delayed qs"
    "never_stops h \<longrightarrow> \<not> stopped"
    using send_batch_emitted [OF h send e1] by (auto simp: summary1_def)
  have "simulated sent base a config (gs @ [(n, packet)]) (batches @ [batch]) (es @ qs) sim' t"
    using inv qs proc injector_run_snoc [of _ gs batches "sim_injector sim" n packet batch injector]
      generated_stream_snoc [of config gs ts]
    by (simp add: simulated_def caught_up_def res ts n_def [symmetric])
       (simp add: n_def)
  moreover have "\<not> stopped \<longrightarrow> caught_up (batches @ [batch]) (es @ qs) (sim_summary sim')"
    using inv(2) qs by (simp add: caught_up_def res count_delayed_append)
  ultimately show ?thesis using qs(6) by blast
qed

section \<open>The loop\<close>

lemma simulated_world:
  "simulated sent base a config gs batches es sim s \<Longrightarrow> sent (m_world t) = sent (m_world s) \<Longrightarrow>
   simulated sent base a config gs batches es sim t"
  by (simp add: simulated_def emitted_def)

lemma simulated_deadline:
  "simulated sent base a config gs batches es (sim\<lparr>sim_next_deadline := d\<rparr>) s =
   simulated sent base a config gs batches es sim s"
  by (simp add: simulated_def)

definition within_count :: "simulator_config \<Rightarrow> (u64 \<times> bytes) list \<Rightarrow> bool" where
  "within_count config gs \<longleftrightarrow> (\<forall>n. sc_packet_count config = Some n \<longrightarrow> length gs \<le> unat n)"

definition all_generated :: "simulator_config \<Rightarrow> (u64 \<times> bytes) list \<Rightarrow> bool" where
  "all_generated config gs \<longleftrightarrow> (\<forall>n. sc_packet_count config = Some n \<longrightarrow> length gs = unat n)"

lemma unat_length:
  "length gs \<le> unat (n :: u64) \<Longrightarrow> unat (of_nat (length gs) :: u64) = length gs"
  using unat_u64_bound [of n] by (simp add: unat_of_nat)

lemma loop_guard:
  assumes "simulated sent base a config gs batches es sim s" "within_count config gs"
  shows "more_to_generate config (sim_summary sim) \<Longrightarrow> within_count config (gs @ [g])"
    and "\<not> more_to_generate config (sim_summary sim) \<Longrightarrow> all_generated config gs"
    and "sc_packet_count config = Some (ss_packets_generated (sim_summary sim)) \<Longrightarrow> all_generated config gs"
proof -
  have gen: "ss_packets_generated (sim_summary sim) = of_nat (length gs)"
    using assms(1) by (simp add: simulated_def)
  have lt: "of_nat (length gs) < n \<longleftrightarrow> length gs < unat n" if "sc_packet_count config = Some n" for n
    using unat_length [of gs n] assms(2) that by (simp add: within_count_def word_less_nat_alt)
  show "more_to_generate config (sim_summary sim) \<Longrightarrow> within_count config (gs @ [g])"
    using lt by (auto simp: more_to_generate_def within_count_def gen Suc_le_eq split: option.splits)
  show "\<not> more_to_generate config (sim_summary sim) \<Longrightarrow> all_generated config gs"
    using lt assms(2) by (auto simp: more_to_generate_def all_generated_def within_count_def gen split: option.splits)
  show "sc_packet_count config = Some (ss_packets_generated (sim_summary sim)) \<Longrightarrow> all_generated config gs"
    using assms(2) unat_length [of gs] by (auto simp: all_generated_def within_count_def gen)
qed

lemma simulation_loop_inv:
  assumes h: "records_sends h sent" "to_sockaddr (host_os h) (sc_destination config) = Inr a"
  shows "simulation_loop rounds fuel h config d period sim s = Some (Inr (stopped, sim'), t) \<Longrightarrow>
    simulated sent base a config gs batches es sim s \<Longrightarrow> caught_up batches es (sim_summary sim) \<Longrightarrow>
    within_count config gs \<Longrightarrow>
    \<exists>gs' batches' es'. simulated sent base a config gs' batches' es' sim' t
      \<and> (\<not> stopped \<longrightarrow> caught_up batches' es' (sim_summary sim'))
      \<and> (never_stops h \<longrightarrow> \<not> stopped \<and> all_generated config gs')"
proof (induction rounds arbitrary: sim s gs batches es)
  case (Suc rounds)
  obtain stopping s1 where ask: "ask_stop h s = (Inr stopping, s1)"
    and run1: "(if stopping \<or> \<not> more_to_generate config (sim_summary sim) then run_return (False, sim) else
     run_bind (simulate_packet fuel h config d sim) (\<lambda>(stopped, sim).
     if stopped then run_return (True, sim) else
     if sc_packet_count config = Some (ss_packets_generated (sim_summary sim)) then run_return (False, sim) else
     run_bind (run_io (io_cpp (int64_value (sim_next_deadline sim + period)))) (\<lambda>deadline.
     run_bind (wait_until_or_stop fuel h deadline) (\<lambda>stopping.
     if stopping then run_return (True, sim\<lparr>sim_next_deadline := deadline\<rparr>)
     else simulation_loop rounds fuel h config d period (sim\<lparr>sim_next_deadline := deadline\<rparr>))))) s1
     = Some (Inr (stopped, sim'), t)"
    using Suc.prems(1) unfolding simulation_loop.simps run_io_bind_Inr [of "ask_stop h"] Let_def by blast
  have inv1: "simulated sent base a config gs batches es sim s1"
    by (rule simulated_world [OF Suc.prems(2) ask_stop_sent [OF h(1) ask]])
  show ?case
  proof (cases "stopping \<or> \<not> more_to_generate config (sim_summary sim)")
    case True
    then have "sim' = sim" "t = s1" "\<not> stopped" using run1 by auto
    moreover have "never_stops h \<longrightarrow> all_generated config gs"
      using True ask_stop_never [OF _ ask] loop_guard(2) [OF inv1 Suc.prems(4)] by auto
    ultimately show ?thesis using inv1 Suc.prems(3) by blast
  next
    case False
    obtain halted sim1 s2 where packet: "simulate_packet fuel h config d sim s1 = Some (Inr (halted, sim1), s2)"
      and run2: "(if halted then run_return (True, sim1) else
     if sc_packet_count config = Some (ss_packets_generated (sim_summary sim1)) then run_return (False, sim1) else
     run_bind (run_io (io_cpp (int64_value (sim_next_deadline sim1 + period)))) (\<lambda>deadline.
     run_bind (wait_until_or_stop fuel h deadline) (\<lambda>stopping.
     if stopping then run_return (True, sim1\<lparr>sim_next_deadline := deadline\<rparr>)
     else simulation_loop rounds fuel h config d period (sim1\<lparr>sim_next_deadline := deadline\<rparr>)))) s2
     = Some (Inr (stopped, sim'), t)"
      using run1 False by (auto simp: run_bind_Inr [of "simulate_packet _ _ _ _ _"])
    obtain g batch fs where inv2: "simulated sent base a config (gs @ [g]) (batches @ [batch]) fs sim1 s2"
      "\<not> halted \<longrightarrow> caught_up (batches @ [batch]) fs (sim_summary sim1)" "never_stops h \<longrightarrow> \<not> halted"
      using simulate_packet_inv [OF h packet inv1 Suc.prems(3)] by blast
    have count: "within_count config (gs @ [g])"
      using loop_guard(1) [OF inv1 Suc.prems(4)] False by blast
    show ?thesis
    proof (cases "halted \<or> sc_packet_count config = Some (ss_packets_generated (sim_summary sim1))")
      case True
      then have "sim' = sim1" "t = s2" "stopped = halted" using run2 by (auto split: if_splits)
      then show ?thesis using inv2 True loop_guard(3) [OF inv2(1) count] by blast
    next
      case False
      then obtain deadline waiting s3 where
        wait: "wait_until_or_stop fuel h deadline s2 = Some (Inr waiting, s3)"
        and run3: "(if waiting then run_return (True, sim1\<lparr>sim_next_deadline := deadline\<rparr>)
          else simulation_loop rounds fuel h config d period (sim1\<lparr>sim_next_deadline := deadline\<rparr>)) s3
          = Some (Inr (stopped, sim'), t)"
        using run2 by (auto simp: run_io_bind_Inr run_bind_Inr [of "wait_until_or_stop _ _ _"])
      have inv3: "simulated sent base a config (gs @ [g]) (batches @ [batch]) fs (sim1\<lparr>sim_next_deadline := deadline\<rparr>) s3"
        using simulated_world [OF inv2(1)] wait_sent [OF h(1) wait] by (simp add: simulated_deadline)
      show ?thesis
      proof (cases waiting)
        case True
        then have "sim' = sim1\<lparr>sim_next_deadline := deadline\<rparr>" "t = s3" "stopped" using run3 by auto
        then show ?thesis using inv3 True wait_sent [OF h(1) wait] by blast
      next
        case no: False
        then show ?thesis using Suc.IH [OF _ inv3 _ count] run3 inv2(2) False by simp
      qed
    qed
  qed
qed simp

lemma finish_simulation_inv:
  assumes h: "records_sends h sent" "to_sockaddr (host_os h) (sc_destination config) = Inr a"
    and run: "finish_simulation fuel h config d stopped sim s = Some (Inr summary, t)"
    and inv: "simulated sent base a config gs batches es sim s" "\<not> stopped \<longrightarrow> caught_up batches es (sim_summary sim)"
  shows "\<exists>es'. prefix es' (batch_packets (batches @ [fst (finish (sim_injector sim))]))
    \<and> emitted sent base a es' summary t
    \<and> ss_packets_generated summary = of_nat (length gs) \<and> ss_packets_dropped summary = batches_dropped batches
    \<and> (never_stops h \<and> \<not> stopped \<longrightarrow> caught_up (batches @ [fst (finish (sim_injector sim))]) es' summary)"
proof -
  let ?last = "fst (finish (sim_injector sim))"
  have sim: "emitted sent base a es (sim_summary sim) s"
    "ss_packets_generated (sim_summary sim) = of_nat (length gs)"
    "ss_packets_dropped (sim_summary sim) = batches_dropped batches" "prefix es (batch_packets batches)"
    using inv(1) by (simp_all add: simulated_def)
  show ?thesis
  proof (cases stopped)
    case True
    then show ?thesis using run sim by (auto simp: finish_simulation_def intro!: exI [of _ es])
  next
    case False
    then obtain stopping s1 where ask: "ask_stop h s = (Inr stopping, s1)"
      and run1: "(if stopping then run_return (sim_summary sim) else
        run_bind (send_batch fuel h (sc_destination config) d ?last (sim_summary sim))
        (\<lambda>(_, summary). run_return summary)) s1 = Some (Inr summary, t)"
      using run by (auto simp: finish_simulation_def run_io_bind_Inr)
    have sim1: "emitted sent base a es (sim_summary sim) s1"
      using sim(1) ask_stop_sent [OF h(1) ask] by (simp add: emitted_def)
    show ?thesis
    proof (cases stopping)
      case True
      then show ?thesis using run1 sim sim1 ask_stop_never [OF _ ask] by (auto intro!: exI [of _ es])
    next
      case no: False
      then obtain ok where "send_batch fuel h (sc_destination config) d ?last (sim_summary sim) s1 = Some (Inr (ok, summary), t)"
        using run1 by (auto simp: run_bind_Inr)
      obtain qs where qs: "prefix qs (ib_packets ?last)" "emitted sent base a (es @ qs) summary t"
        "ss_packets_generated summary = of_nat (length gs)" "ss_packets_dropped summary = batches_dropped batches"
        "never_stops h \<longrightarrow> qs = ib_packets ?last
          \<and> ss_reorder_events summary = ss_reorder_events (sim_summary sim) + ib_reorder_events ?last
          \<and> ss_delayed_packets summary = ss_delayed_packets (sim_summary sim) + count_delayed qs"
        using send_batch_emitted [OF h \<open>send_batch _ _ _ _ _ _ _ = _\<close> sim1] sim(2,3) by auto
      then show ?thesis using inv(2) False
        by (intro exI [of _ "es @ qs"]) (auto simp: caught_up_def count_delayed_append)
    qed
  qed
qed

text \<open>A returned run, in terms of the batches of its injector.\<close>

lemma simulator_run_batches:
  assumes "records_sends h sent" "run_simulator fuel h callable config s = Some (Inr summary, t)"
  shows "\<exists>gs batches es a. generated_stream config gs
    \<and> intervals_valid (sc_faults config) \<and> inject_stream (sc_faults config) gs = Inr batches
    \<and> to_sockaddr (host_os h) (sc_destination config) = Inr a
    \<and> prefix es (batch_packets batches) \<and> emitted sent (sent (m_world s)) a es summary t
    \<and> ss_packets_generated summary = of_nat (length gs) \<and> ss_packets_dropped summary = batches_dropped batches
    \<and> (never_stops h \<longrightarrow> all_generated config gs \<and> caught_up batches es summary)"
proof -
  let ?f = "sc_faults config"
  obtain d s1 u where valid: "validate_simulator_config (host_os h) config = Inr ()"
    and opened: "udp_open (host_os h) s = (Inr d, s1)"
    and body: "run_bind (run_io (io_cpp (simulation_period (sc_rate_hz config)))) (\<lambda>period.
     run_bind (run_io (clock_now h)) (\<lambda>now.
     run_bind (simulation_loop fuel fuel h config d period
         \<lparr>sim_injector = new_injector ?f, sim_summary = empty_summary, sim_next_deadline = now\<rparr>)
       (\<lambda>(stopped, sim). finish_simulation fuel h config d stopped sim))) s1 = Some (Inr summary, u)"
    and t: "t = io_close (host_os h) d u"
    using assms(2) by (auto simp: run_simulator_def run_io_bind_Inr run_scoped_def split: option.splits prod.splits)
  obtain period now s2 stopped sim s3 where now: "clock_now h s1 = (Inr now, s2)"
    and loop: "simulation_loop fuel fuel h config d period
         \<lparr>sim_injector = new_injector ?f, sim_summary = empty_summary, sim_next_deadline = now\<rparr> s2
        = Some (Inr (stopped, sim), s3)"
    and fin: "finish_simulation fuel h config d stopped sim s3 = Some (Inr summary, u)"
    using body by (auto simp: run_io_bind_Inr run_bind_Inr [of "simulation_loop _ _ _ _ _ _ _"])
  obtain a where a: "to_sockaddr (host_os h) (sc_destination config) = Inr a"
    using valid by (auto simp: validate_simulator_config_Inr is_ipv4_address_def to_sockaddr_def split: pton_result.splits)
  have "sent (m_world s1) = sent (m_world s)"
    using assms(1) opened
    by (auto simp: udp_open_def io_bind_eq io_call_eq io_check_def records_sends_def split: sum.splits)
  then have start: "simulated sent (sent (m_world s)) a config [] [] []
     \<lparr>sim_injector = new_injector ?f, sim_summary = empty_summary, sim_next_deadline = now\<rparr> s2"
    using clock_now_sent [OF assms(1) now]
    by (simp add: simulated_def emitted_def counts_sent_def empty_summary_def generated_stream_def batch_totals)
  have idle: "caught_up [] [] empty_summary" "within_count config []"
    by (simp_all add: caught_up_def empty_summary_def batch_totals within_count_def)
  obtain gs batches es where inv: "simulated sent (sent (m_world s)) a config gs batches es sim s3"
    "\<not> stopped \<longrightarrow> caught_up batches es (sim_summary sim)"
    "never_stops h \<longrightarrow> \<not> stopped \<and> all_generated config gs"
    using simulation_loop_inv [OF assms(1) a loop start] idle by auto
  have "intervals_valid ?f"
    using valid by (simp add: validate_simulator_config_Inr intervals_valid_def)
  moreover have "inject_stream ?f gs = Inr (batches @ [fst (finish (sim_injector sim))])"
    using inv(1) by (simp add: inject_stream_def simulated_def)
  moreover have "emitted sent base a es' summary t = emitted sent base a es' summary u" for base es'
    using assms(1) by (simp add: emitted_def t io_close_def records_sends_def)
  moreover have "batches_dropped (batches @ [fst (finish (sim_injector sim))]) = batches_dropped batches"
    by (simp add: finish_def)
  moreover obtain es' where "prefix es' (batch_packets (batches @ [fst (finish (sim_injector sim))]))"
    "emitted sent (sent (m_world s)) a es' summary u"
    "ss_packets_generated summary = of_nat (length gs)" "ss_packets_dropped summary = batches_dropped batches"
    "never_stops h \<and> \<not> stopped \<longrightarrow> caught_up (batches @ [fst (finish (sim_injector sim))]) es' summary"
    using finish_simulation_inv [OF assms(1) a fin inv(1,2)] by blast
  moreover have "generated_stream config gs" using inv(1) by (simp add: simulated_def)
  ultimately show ?thesis using inv(3) a
    by (intro exI [of _ gs] exI [of _ "batches @ [fst (finish (sim_injector sim))]"] exI [of _ es'] exI [of _ a]) simp
qed

section \<open>Properties\<close>

text \<open>C35. A run of the simulator sends what it should and counts what it sends. Whenever
  \<open>run_simulator\<close> returns a summary, the datagrams the system accepted from it, all to the configured
  address, are an initial part of the faulted stream of the packets it generated (numbered from one,
  each a valid encoding of the sensor's sample), twice for a duplicated packet; the summary counts the
  generated, dropped, sent, duplicated and corrupted packets. If nobody asks it to stop, a run with a
  packet count generates exactly that many packets, sends the whole faulted stream, and has counted
  every completed swap and every delay; sent is generated minus dropped plus duplicated.\<close>

theorem simulator_run_accounts:
  assumes "records_sends h sent" "run_simulator fuel h callable config s = Some (Inr summary, t)"
  shows "\<exists>gs es address. generated_stream config gs
    \<and> to_sockaddr (host_os h) (sc_destination config) = Inr address
    \<and> sent (m_world t) = sent (m_world s) @ map (\<lambda>b. (b, address)) (datagrams es)
    \<and> prefix es (map (marked (sc_faults config)) (faulted (sc_faults config) gs))
    \<and> ss_packets_generated summary = of_nat (length gs)
    \<and> ss_packets_dropped summary = of_nat (length (dropped_packets (sc_faults config) gs))
    \<and> counts_sent es summary
    \<and> (never_stops h \<longrightarrow> (\<forall>n. sc_packet_count config = Some n \<longrightarrow> length gs = unat n)
        \<and> es = map (marked (sc_faults config)) (faulted (sc_faults config) gs)
        \<and> ss_packets_sent summary = ss_packets_generated summary - ss_packets_dropped summary
            + ss_duplicate_packets_sent summary
        \<and> ss_reorder_events summary = of_nat (swaps (selected (sc_faults config)) (survivors (sc_faults config) gs))
        \<and> ss_delayed_packets summary = count_delayed es)"
proof -
  let ?f = "sc_faults config"
  obtain gs batches es a where run: "generated_stream config gs"
    "intervals_valid ?f" "inject_stream ?f gs = Inr batches"
    "to_sockaddr (host_os h) (sc_destination config) = Inr a"
    "prefix es (batch_packets batches)" "emitted sent (sent (m_world s)) a es summary t"
    "ss_packets_generated summary = of_nat (length gs)" "ss_packets_dropped summary = batches_dropped batches"
    "never_stops h \<longrightarrow> all_generated config gs \<and> caught_up batches es summary"
    using simulator_run_batches [OF assms] by blast
  have out: "batch_packets batches = map (marked ?f) (faulted ?f gs)"
    "batches_dropped batches = of_nat (length (dropped_packets ?f gs))"
    "batches_reordered batches = of_nat (swaps (selected ?f) (survivors ?f gs))"
    using inject_stream_state [OF run(2), of gs] run(3) by auto
  have lengths: "length gs = length (faulted ?f gs) + length (dropped_packets ?f gs)"
    using sum_length_filter_compl [of "\<lambda>g. due (fc_drop_every ?f) (fst g)" gs]
    by (simp add: faulted_def dropped_packets_def)
  have "ss_packets_sent summary = ss_packets_generated summary - ss_packets_dropped summary
      + ss_duplicate_packets_sent summary" if "es = map (marked ?f) (faulted ?f gs)"
    using run(6) that by (simp add: emitted_def counts_sent_def run(7,8) out(2) lengths length_datagrams)
  then show ?thesis
    using run out
    by (intro exI [of _ gs] exI [of _ es] exI [of _ a])
      (auto simp: emitted_def all_generated_def caught_up_def)
qed

lemma sim_host_records: "records_sends sim_host snd"
  by (auto simp: records_sends_def sim_host_def sim_os_def)

lemma sim_host_never_stops: "never_stops sim_host"
  by (simp add: never_stops_def sim_host_def)

theorem simulator_run_accounts_witness:
  "\<exists>t gs es. run_simulator 3 sim_host True two_packets sim_start = Some (Inr two_packets_summary, t)
    \<and> generated_stream two_packets gs \<and> length gs = 2
    \<and> map fst (snd (m_world t)) = datagrams es \<and> ss_packets_sent two_packets_summary = 3
    \<and> es = map (marked (sc_faults two_packets)) (faulted (sc_faults two_packets) gs)"
proof -
  obtain t where t: "run_simulator 3 sim_host True two_packets sim_start = Some (Inr two_packets_summary, t)"
    using two_packets_run by blast
  have "snd (m_world sim_start) = []" "sc_packet_count two_packets = Some 2"
    "ss_packets_sent two_packets_summary = 3"
    by (simp_all add: sim_start_def two_packets_def two_packets_summary_def)
  with simulator_run_accounts [OF sim_host_records t] t sim_host_never_stops show ?thesis
    by (auto simp: comp_def)
qed

end
