(* ===== verification/Simulator_Returns.thy ===== *)
theory Simulator_Returns
  imports Simulator_Run
begin

text \<open>
  Runs of the simulator return: on a steady clock every wait ends, so a run with a packet count
  returns for all large enough fuel, always with the same result. A concrete host, for evaluating the
  model, ends the theory.
\<close>

section \<open>Returning\<close>

definition returns :: "(nat \<Rightarrow> ('w, 'a) run) \<Rightarrow> 'w machine \<Rightarrow> bool" where
  "returns F s \<longleftrightarrow> (\<exists>n r. \<forall>m \<ge> n. F m s = Some r)"

named_theorems returns_intros "runs that return"

lemma returns_io [returns_intros]: "returns (\<lambda>n. run_io m) s"
  by (auto simp: returns_def run_io_def)

lemma returns_return [returns_intros]: "returns (\<lambda>n. run_return x) s"
  by (auto simp: returns_def run_return_def)

lemma returns_if [returns_intros]:
  "(c \<Longrightarrow> returns F s) \<Longrightarrow> (\<not> c \<Longrightarrow> returns G s) \<Longrightarrow> returns (\<lambda>n. if c then F n else G n) s"
  by (cases c) simp_all

lemma returns_bind:
  assumes "returns F s" "\<And>x t n. F n s = Some (Inr x, t) \<Longrightarrow> returns (\<lambda>n. G n x) t"
  shows "returns (\<lambda>n. run_bind (F n) (G n)) s"
proof -
  obtain n r where n: "\<And>m. n \<le> m \<Longrightarrow> F m s = Some r" using assms(1) by (auto simp: returns_def)
  obtain e t where r: "r = (e, t)" by (cases r)
  show ?thesis
  proof (cases e)
    case (Inl x)
    then have "\<forall>m \<ge> n. run_bind (F m) (G m) s = Some (Inl x, t)"
      using n by (simp add: run_bind_def r)
    then show ?thesis unfolding returns_def by blast
  next
    case (Inr x)
    then have "returns (\<lambda>n. G n x) t" using assms(2) n [of n] r by simp
    then obtain k q where "\<And>m. k \<le> m \<Longrightarrow> G m x t = Some q"
      unfolding returns_def by blast
    then have "\<forall>m \<ge> max n k. run_bind (F m) (G m) s = Some q"
      using n by (simp add: run_bind_def r Inr)
    then show ?thesis unfolding returns_def by blast
  qed
qed

lemma returns_io_bind [returns_intros]:
  "(\<And>x t. m s = (Inr x, t) \<Longrightarrow> returns (\<lambda>n. G n x) t) \<Longrightarrow> returns (\<lambda>n. run_bind (run_io m) (G n)) s"
  by (rule returns_bind [OF returns_io]) simp

lemma returns_shift: "returns F s \<Longrightarrow> returns (\<lambda>n. F (n + k)) s"
  unfolding returns_def by (meson le_add1 le_trans)

lemma returns_Suc:
  assumes "returns (\<lambda>n. F (Suc n)) s"
  shows "returns F s"
proof -
  obtain n r where n: "\<And>m. n \<le> m \<Longrightarrow> F (Suc m) s = Some r" using assms by (auto simp: returns_def)
  have "\<forall>m \<ge> Suc n. F m s = Some r"
  proof (intro allI impI)
    fix m
    assume "Suc n \<le> m"
    then show "F m s = Some r" using n [of "m - 1"] by (cases m) auto
  qed
  then show ?thesis unfolding returns_def by blast
qed

lemma returns_scoped [returns_intros]:
  "returns F s \<Longrightarrow> returns (\<lambda>n. run_scoped os d (F n)) s"
  by (auto simp: returns_def run_scoped_def)
    (metis (no_types, lifting) case_prod_beta option.simps(5) surj_pair)

section \<open>Waits end\<close>

definition clock_of :: "'w host \<Rightarrow> 'w \<Rightarrow> int" where
  "clock_of h w = sint (fst (lib_steady_now (host_os h) w))"

text \<open>Documented of \<open>steady_clock\<close> and \<open>sleep_until\<close>: the clock never goes back, and a thread that slept
  until a time wakes up at or after it.\<close>

definition steady :: "'w host \<Rightarrow> bool" where
  "steady h \<longleftrightarrow> (\<forall>w. clock_of h w \<le> clock_of h (snd (lib_steady_now (host_os h) w)))
     \<and> (\<forall>w. clock_of h w \<le> clock_of h (snd (host_stop h w)))
     \<and> (\<forall>t w. clock_of h w \<le> clock_of h (host_sleep_until h t w)
          \<and> (t < 2 ^ 63 \<longrightarrow> t \<le> clock_of h (host_sleep_until h t w)))"

lemma clock_now_result:
  "clock_now h s = (Inr now, u) \<Longrightarrow> now = clock_of h (m_world s) \<and> m_world u = snd (lib_steady_now (host_os h) (m_world s))"
  by (auto simp: clock_now_def io_bind_eq io_call_eq clock_of_def)

lemma wait_returns:
  assumes "steady h" "d < 2 ^ 63"
  shows "returns (\<lambda>n. wait_until_or_stop n h d) s"
proof (induction "nat (d - clock_of h (m_world s))" arbitrary: s rule: less_induct)
  case less
  have next_poll: "returns (\<lambda>n. wait_until_or_stop n h d) s3"
    if run: "ask_stop h s = (Inr stopping, s1)" "clock_now h s1 = (Inr now, s2)" "\<not> d \<le> now"
      "int64_value (now + kStopPollInterval) = Inr wakeup"
      "sleep_until h (if d < wakeup then d else wakeup) s2 = (Inr u, s3)" for stopping s1 now s2 wakeup u s3
  proof -
    let ?wake = "if d < wakeup then d else wakeup"
    have now: "now = clock_of h (m_world s1)" "m_world s2 = snd (lib_steady_now (host_os h) (m_world s1))"
      using clock_now_result [OF run(2)] by simp_all
    have "clock_of h (m_world s) \<le> now"
      using assms(1) run(1) by (auto simp: now(1) steady_def ask_stop_def split: prod.splits) (metis snd_conv)
    moreover have "now < ?wake"
      using run(3,4) by (auto simp: int64_value_def kStopPollInterval_def nanoseconds_of_ms_def split: if_splits)
    moreover have "?wake \<le> clock_of h (m_world s3)"
      using assms run(5) by (auto simp: sleep_until_def steady_def)
    ultimately have "nat (d - clock_of h (m_world s3)) < nat (d - clock_of h (m_world s))"
      using run(3) by auto
    then show ?thesis by (rule less)
  qed
  show ?case
    by (rule returns_Suc) (auto intro!: returns_intros next_poll)
qed

lemma int64_value_less: "int64_value x = Inr y \<Longrightarrow> y < 2 ^ 63"
  by (auto simp: int64_value_def split: if_splits)

section \<open>The loop ends\<close>

lemma delay_packet_returns [returns_intros]:
  assumes "steady h"
  shows "returns (\<lambda>n. delay_packet n h p summary) s"
  unfolding delay_packet_def Let_def
  by (auto intro!: returns_intros returns_bind [OF wait_returns [OF assms int64_value_less]])

lemma send_packets_returns:
  assumes "steady h"
  shows "returns (\<lambda>n. send_packets n h e d summary ps) s"
proof (induction ps arbitrary: summary s)
  case Nil
  show ?case by (simp add: returns_return)
next
  case (Cons p ps)
  show ?case
    by (auto intro!: returns_intros returns_bind [OF delay_packet_returns [OF assms]] Cons.IH
        split: prod.split)
qed

lemma send_batch_returns:
  "steady h \<Longrightarrow> returns (\<lambda>n. send_batch n h e d batch summary) s"
  unfolding send_batch_def
  by (auto intro!: returns_intros returns_bind [OF send_packets_returns] split: prod.split)

lemma simulate_packet_returns:
  "steady h \<Longrightarrow> returns (\<lambda>n. simulate_packet n h config d sim) s"
  unfolding simulate_packet_def Let_def
  by (auto intro!: returns_intros returns_bind [OF send_batch_returns] split: prod.split)

lemma same_generated_send:
  "send_packets n h e d summary ps s = Some (Inr (ok, summary'), t) \<Longrightarrow>
   ss_packets_generated summary' = ss_packets_generated summary"
proof (induction ps arbitrary: summary s)
  case (Cons p ps)
  have dly: "ss_packets_generated b = ss_packets_generated summary"
    if "delay_packet n h p summary u = Some (Inr (w, b), v)" for w b u v
    using that by (auto simp: delay_packet_def Let_def run_results split: if_splits)
  have cps: "ss_packets_generated b = ss_packets_generated c"
    if "send_copies h d e p c u = (Inr b, v)" for b c u v
    using that by (auto simp: send_copies_def Let_def io_bind_Inr count_first_def count_duplicate_def split: if_splits)
  show ?case
    using Cons.prems
    by (auto simp: run_results split: if_splits dest!: Cons.IH dly cps)
qed simp

lemma simulate_packet_generated:
  "simulate_packet n h config d sim s = Some (Inr (stopped, sim'), t) \<Longrightarrow>
   ss_packets_generated (sim_summary sim') = ss_packets_generated (sim_summary sim) + 1"
  by (auto simp: simulate_packet_def Let_def run_results send_batch_def split: if_splits dest!: same_generated_send)

lemma simulation_loop_returns:
  assumes "steady h" "sc_packet_count config = Some n"
  shows "returns (\<lambda>m. simulation_loop m (m + k) h config d period sim) s"
proof (induction "unat n - unat (ss_packets_generated (sim_summary sim))" arbitrary: k sim s rule: less_induct)
  case (less sim k s)
  have again: "returns (\<lambda>m. simulation_loop m (m + Suc k) h config d period (sim1\<lparr>sim_next_deadline := deadline\<rparr>)) t"
    if "more_to_generate config (sim_summary sim)"
      "simulate_packet fuel h config d sim s1 = Some (Inr (halted, sim1), s2)" for fuel s1 halted sim1 s2 deadline t
  proof (rule less)
    have lt: "ss_packets_generated (sim_summary sim) < n"
      using that(1) by (simp add: more_to_generate_def assms(2))
    then have "unat (ss_packets_generated (sim_summary sim) + 1) = Suc (unat (ss_packets_generated (sim_summary sim)))"
      using unat_u64_bound [of n] by (simp add: unat_word_ariths word_less_nat_alt)
    then show "unat n - unat (ss_packets_generated (sim_summary (sim1\<lparr>sim_next_deadline := deadline\<rparr>)))
        < unat n - unat (ss_packets_generated (sim_summary sim))"
      using lt simulate_packet_generated [OF that(2)] by (simp add: word_less_nat_alt)
  qed
  have packet: "returns (\<lambda>m. simulate_packet (m + Suc k) h config d sim) s1" for s1
    by (rule returns_shift [OF simulate_packet_returns [OF assms(1)]])
  have wait: "returns (\<lambda>m. wait_until_or_stop (m + Suc k) h deadline) s1" if "int64_value x = Inr deadline" for deadline s1 x
    by (rule returns_shift [OF wait_returns [OF assms(1) int64_value_less [OF that]]])
  have rest: "returns (\<lambda>m. if halted then run_return (True, sim1) else
      if sc_packet_count config = Some (ss_packets_generated (sim_summary sim1)) then run_return (False, sim1) else
      run_bind (run_io (io_cpp (int64_value (sim_next_deadline sim1 + period)))) (\<lambda>deadline.
      run_bind (wait_until_or_stop (m + Suc k) h deadline) (\<lambda>stopping.
      if stopping then run_return (True, sim1\<lparr>sim_next_deadline := deadline\<rparr>)
      else simulation_loop m (m + Suc k) h config d period (sim1\<lparr>sim_next_deadline := deadline\<rparr>)))) s2"
    if more: "more_to_generate config (sim_summary sim)"
      "simulate_packet fuel h config d sim s1 = Some (Inr (halted, sim1), s2)" for fuel s1 halted sim1 s2
  proof (rule returns_if [OF returns_return returns_if [OF returns_return returns_io_bind]])
    fix deadline t
    assume "io_cpp (int64_value (sim_next_deadline sim1 + period)) s2 = (Inr deadline, t)"
    then have d: "int64_value (sim_next_deadline sim1 + period) = Inr deadline" by simp
    show "returns (\<lambda>m. run_bind (wait_until_or_stop (m + Suc k) h deadline) (\<lambda>stopping.
      if stopping then run_return (True, sim1\<lparr>sim_next_deadline := deadline\<rparr>)
      else simulation_loop m (m + Suc k) h config d period (sim1\<lparr>sim_next_deadline := deadline\<rparr>))) t"
      by (rule returns_bind [OF wait [OF d] returns_if [OF returns_return again [OF more]]])
  qed
  have "returns (\<lambda>m. simulation_loop (Suc m) (m + Suc k) h config d period sim) s"
    unfolding simulation_loop.simps Let_def
  proof (rule returns_io_bind, rule returns_if [OF returns_return], rule returns_bind [OF packet])
    fix stopping t x u m
    assume more: "\<not> (stopping \<or> \<not> more_to_generate config (sim_summary sim))"
      and run: "simulate_packet (m + Suc k) h config d sim t = Some (Inr x, u)"
    obtain halted sim1 where x: "x = (halted, sim1)" by (cases x)
    have "more_to_generate config (sim_summary sim)" using more by blast
    from rest [OF this run [unfolded x]] show "returns (\<lambda>m. (case x of (halted, sim1) \<Rightarrow> if halted then run_return (True, sim1) else
      if sc_packet_count config = Some (ss_packets_generated (sim_summary sim1)) then run_return (False, sim1) else
      run_bind (run_io (io_cpp (int64_value (sim_next_deadline sim1 + period)))) (\<lambda>deadline.
      run_bind (wait_until_or_stop (m + Suc k) h deadline) (\<lambda>stopping.
      if stopping then run_return (True, sim1\<lparr>sim_next_deadline := deadline\<rparr>)
      else simulation_loop m (m + Suc k) h config d period (sim1\<lparr>sim_next_deadline := deadline\<rparr>))))) u"
      unfolding x prod.case .
  qed
  then show ?case
    by (intro returns_Suc [where F = "\<lambda>m. simulation_loop m (m + k) h config d period sim"])
      (simp only: add_Suc add_Suc_right)
qed

lemma run_simulator_returns:
  assumes "steady h" "sc_packet_count config = Some n"
  shows "returns (\<lambda>m. run_simulator m h callable config) s"
proof -
  have fin: "returns (\<lambda>n. finish_simulation n h config d stopped sim) t" for d stopped sim t
    unfolding finish_simulation_def
    by (auto intro!: returns_intros returns_bind [OF send_batch_returns [OF assms(1)]] split: prod.split)
  show ?thesis
    unfolding run_simulator_def
    by (auto intro!: returns_intros fin returns_bind [OF simulation_loop_returns [OF assms, where k = 0, simplified]]
        split: prod.split)
qed

text \<open>A run of the simulator with a packet count returns: on a steady clock there is an amount of
  fuel from which on \<open>run_simulator\<close> returns, always the same result, whatever the stop predicate, the
  faults and the sends do.\<close>

theorem simulator_returns:
  assumes "steady h" "sc_packet_count config = Some n"
  shows "\<exists>fuel r. \<forall>fuel' \<ge> fuel. run_simulator fuel' h callable config s = Some r"
  using run_simulator_returns [OF assms] by (simp add: returns_def)

lemma sim_host_steady: "steady sim_host"
proof -
  have "sint (word_of_int t :: u64) = t" if "sint c < t" "t < 2 ^ 63" for c :: u64 and t
  proof -
    have "- (2 ^ 63) \<le> t" using sint_greater_eq [of c] that(1) by simp
    then show ?thesis using that(2) by (simp add: signed_of_int signed_take_bit_int_eq_self)
  qed
  then show ?thesis
    by (fastforce simp: steady_def clock_of_def sim_host_def sim_os_def)
qed

theorem simulator_returns_witness:
  "\<exists>fuel r. run_simulator fuel sim_host True two_packets sim_start = Some r
    \<and> run_simulator (fuel + 1000) sim_host True two_packets sim_start = Some r"
proof -
  have "sc_packet_count two_packets = Some 2" by (simp add: two_packets_def)
  from simulator_returns [OF sim_host_steady this] show ?thesis by (meson le_add1 order_refl)
qed

end
