(* ===== verification/End_To_End.thy ===== *)
theory End_To_End
  imports Sample_Processor Simulator_Returns
begin

text \<open>
  The components in a chain: a sample is encoded, framed, sent, and on the other side the frame and
  then the payload are decoded and handed to the user. The codecs compose by the locale
  \<open>framed_codec\<close>; what the simulator sends is followed through the fault injector, the packet decoder
  of the receiver and the sample processor of the workers.
\<close>

section \<open>Samples over the wire\<close>

text \<open>A sample with its sequence number and timestamp, as \<open>run_simulator\<close> encodes it, and as the
  receiver and the processor decode it.\<close>

definition send_message :: "(u64 \<times> u64) \<times> sensor_payload \<Rightarrow> bytes cpp" where
  "send_message m = cbind (encode_sensor_payload (snd m))
     (\<lambda>payload. encode_frame (message_type_of (snd m), fst m, payload))"

definition receive_message :: "bytes \<Rightarrow> ((u64 \<times> u64) \<times> sensor_payload) option cpp" where
  "receive_message bs = cbind (decode_frame bs) (\<lambda>r. case r of
      None \<Rightarrow> Inr None
    | Some (t, m, payload) \<Rightarrow> cbind (decode_payload_opt t payload) (\<lambda>v. Inr (map_option (Pair m) v)))"

interpretation message: framed_codec encode_frame decode_frame encode_sensor_payload decode_payload_opt
  message_type_of send_message receive_message
  by unfold_locales (simp_all add: send_message_def receive_message_def)

text \<open>On a datagram, the receiver and the processor together do what \<open>receive_message\<close> does.\<close>

lemma receive_message_sample:
  assumes "decode_packet bs = Inr \<lparr>dr_packet = Some pkt, dr_error = e\<rparr>" "rp_packet p = pkt"
    and "receive_message bs = Inr (Some ((n, ts), v))"
  shows "sample_of p = Some \<lparr>ss_sequence_number = n, ss_source_timestamp_ns = ts,
    ss_receive_timestamp_ns = rp_receive_timestamp_ns p, ss_source = rp_source p,
    ss_listener = rp_listener p, ss_payload = v\<rparr>"
proof -
  obtain r where r: "decode_sensor_payload (hdr_message_type (pkt_header pkt)) (pkt_payload pkt) = Inr r"
    using decode_payload_returns by blast
  then show ?thesis
    using assms
    by (auto simp: receive_message_def decode_frame_def frame_of_def decode_payload_opt_def sample_of_def make_sample_def)
qed

section \<open>What the simulator sends\<close>

lemma simulated_packet_message:
  assumes "sc_camera_extra_data_bytes config \<le> kMaxCameraExtraDataSize"
  shows "send_message ((n, ts), make_sensor_sample (sc_sensor_type config) n (sc_camera_extra_data_bytes config))
    = Inr (simulated_packet config n ts)"
proof -
  let ?p = "make_sensor_sample (sc_sensor_type config) n (sc_camera_extra_data_bytes config)"
  have v: "validate_payload ?p = PayloadNone" by (rule sample_valid [OF assms])
  then have "encode_sensor_payload ?p = Inr (payload_bytes ?p)" by (simp add: encode_sensor_payload_eq_Inr_iff)
  moreover have "encode_packet (message_type_of ?p) n ts (payload_bytes ?p)
      = Inr (packet_bytes (message_type_of ?p) n ts (payload_bytes ?p))"
    using payload_size [OF v] by (auto simp: encode_packet_eq_Inr_iff message_type_of_def split: sensor_payload.split)
  ultimately show ?thesis by (simp add: send_message_def encode_frame_def simulated_packet_def Let_def)
qed

lemma decode_accepts:
  assumes "receive_message bs = Inr (Some m)"
  shows "\<exists>pkt. decode_packet bs = Inr \<lparr>dr_packet = Some pkt, dr_error = DecodeNone\<rparr>"
proof -
  have "dr_packet (decode_outcome bs) \<noteq> None"
    using assms by (auto simp: receive_message_def decode_frame_def decode_packet_eq split: option.splits)
  then show ?thesis by (auto simp: decode_packet_eq decode_outcome_def Let_def split: if_splits)
qed

text \<open>A flipped last bit of the payload is always caught by the checksum.\<close>

lemma corrupt_last_rejected:
  assumes "decode_packet bs = Inr r" "dr_packet r \<noteq> None" "32 < length bs"
  shows "decode_packet (corrupt_last bs) = Inr (decode_failure CrcMismatch)"
proof -
  have ne: "bs \<noteq> []" using assms(3) by auto
  have split: "bs = butlast bs @ [last bs] @ []" "corrupt_last bs = butlast bs @ [last bs XOR 1] @ []"
    using ne by (simp_all add: corrupt_last_def)
  have flip: "[last bs] \<noteq> [last bs XOR 1]"
  proof
    assume "[last bs] = [last bs XOR 1]"
    then have "last bs XOR 0 = last bs XOR 1" by simp
    then show False by (simp only: xor_cancel) simp
  qed
  have ok: "dr_packet (decode_outcome bs) \<noteq> None" using assms(1,2) by (simp add: decode_packet_eq)
  then have "dr_packet (decode_outcome (corrupt_last bs)) = None"
    unfolding split(2)
    by (intro burst_not_accepted [where ds = "[last bs]"]) (use split(1) flip assms(3) in auto)
  moreover have "length (corrupt_last bs) = length bs" "take 28 (corrupt_last bs) = take 28 bs"
    using ne assms(3) by (simp_all add: corrupt_last_def take_butlast)
  ultimately show ?thesis using only_crc_can_fail [OF ok] by (simp add: decode_packet_eq)
qed

lemma simulated_packet_length: "32 < length (simulated_packet config n ts)"
proof -
  have "0 < length (payload_bytes p)" for p 
    by (cases p) (simp_all add: payload_bytes_def del: length_greater_0_conv)
  then show ?thesis by (simp add: simulated_packet_def Let_def)
qed

section \<open>Properties\<close>

text \<open>C36. From the simulator to the user. Of every packet \<open>run_simulator\<close> generates, what leaves the
  fault injector is rejected by the packet decoder of the receiver with a checksum mismatch if it was
  corrupted; otherwise it is accepted, and when a worker processes the received packet, the user's
  handler is called with exactly the sample that was generated, its sequence number and its source
  timestamp, together with the endpoints and the time of the reception.\<close>

theorem simulated_packet_delivered:
  assumes "sc_camera_extra_data_bytes config \<le> kMaxCameraExtraDataSize"
    and "out = marked (sc_faults config) (n, simulated_packet config n ts)"
  shows "if pp_corrupted out then decode_packet (pp_bytes out) = Inr (decode_failure CrcMismatch)
    else \<exists>pkt. decode_packet (pp_bytes out) = Inr \<lparr>dr_packet = Some pkt, dr_error = DecodeNone\<rparr>
      \<and> (\<forall>p st. rp_packet p = pkt \<longrightarrow>
          (let sample = \<lparr>ss_sequence_number = n, ss_source_timestamp_ns = ts,
                 ss_receive_timestamp_ns = rp_receive_timestamp_ns p, ss_source = rp_source p,
                 ss_listener = rp_listener p,
                 ss_payload = make_sensor_sample (sc_sensor_type config) n (sc_camera_extra_data_bytes config)\<rparr>;
               (user, result) = spr_handler st (spr_user st) sample
           in \<exists>m. Sample_Processor.process st p = Inr (st\<lparr>spr_metrics := m, spr_user := user\<rparr>,
                case result of Returned \<Rightarrow> Processed PayloadNone | Threw \<Rightarrow> Propagated)))"
proof -
  let ?b = "simulated_packet config n ts"
  let ?v = "make_sensor_sample (sc_sensor_type config) n (sc_camera_extra_data_bytes config)"
  have message: "receive_message ?b = Inr (Some ((n, ts), ?v))"
    by (rule message.framed.decodes [OF simulated_packet_message [OF assms(1)]])
  obtain pkt where pkt: "decode_packet ?b = Inr \<lparr>dr_packet = Some pkt, dr_error = DecodeNone\<rparr>"
    using decode_accepts [OF message] by blast
  show ?thesis
  proof (cases "pp_corrupted out")
    case True
    then have "pp_bytes out = corrupt_last ?b" by (simp add: assms(2) marked_def)
    then show ?thesis using True corrupt_last_rejected [OF pkt _ simulated_packet_length] by simp
  next
    case False
    then have "pp_bytes out = ?b" by (simp add: assms(2) marked_def)
    then show ?thesis
      using False pkt process_accepts [OF receive_message_sample [OF pkt _ message]]
      by (auto simp: Let_def case_prod_beta)
  qed
qed

theorem simulated_packet_delivered_witness:
  "\<exists>pkt. decode_packet (simulated_packet two_packets 2 7) = Inr \<lparr>dr_packet = Some pkt, dr_error = DecodeNone\<rparr>"
proof -
  define out where "out = marked (sc_faults two_packets) (2, simulated_packet two_packets 2 7)"
  have "\<not> pp_corrupted out" "pp_bytes out = simulated_packet two_packets 2 7"
    by (simp_all add: out_def marked_def two_packets_def no_faults_def due_def)
  moreover have "sc_camera_extra_data_bytes two_packets \<le> kMaxCameraExtraDataSize" by (simp add: two_packets_def)
  ultimately show ?thesis using simulated_packet_delivered [OF _ out_def] by auto
qed

end
