(* ===== verification/Udp_Tools_Run.thy ===== *)
theory Udp_Tools_Run
  imports Udp_Tools End_To_End
begin

text \<open>
  The two tools together: what the sender sends, what the receiver makes of a datagram, the exit
  codes of both and the descriptors they leave. Both are total, for every system.
\<close>

section \<open>The sender's datagram\<close>

definition sender_bytes :: "u64 \<Rightarrow> bytes" where
  "sender_bytes ts = packet_bytes kImu 1 ts (payload_bytes sender_sample)"

lemma sender_sample_made: "sender_sample = make_sensor_sample kSensorImu 1 0"
  by (simp add: sender_sample_def make_sensor_sample_def f32_zero_def kSensorImu_def kSensorGnss_def kSensorCameraMeta_def)

lemma sender_valid: "validate_payload sender_sample = PayloadNone"
  unfolding sender_sample_made by (rule sample_valid) simp

lemma sender_type: "message_type_of sender_sample = kImu"
  by (simp add: sender_sample_def message_type_of_def)

lemma sender_packet_eq:
  "sender_packet os s = (Inr (sender_bytes (fst (lib_steady_now os (m_world s)))),
     s\<lparr>m_world := snd (lib_steady_now os (m_world s))\<rparr>)"
proof -
  have "encode_sensor_payload sender_sample = Inr (payload_bytes sender_sample)"
    using sender_valid by (simp add: encode_sensor_payload_eq_Inr_iff)
  moreover have "encode_packet kImu 1 ts (payload_bytes sender_sample) = Inr (sender_bytes ts)" for ts
    using payload_size [OF sender_valid] by (simp add: encode_packet_eq_Inr_iff sender_bytes_def)
  ultimately show ?thesis
    by (simp add: sender_packet_def sender_timestamp_ns_def sender_type io_bind_eq io_call_eq)
qed

lemma sender_message: "receive_message (sender_bytes ts) = Inr (Some ((1, ts), sender_sample))"
proof -
  have "send_message ((1, ts), sender_sample) = Inr (sender_bytes ts)"
    using simulated_packet_message [of two_packets 1 ts]
    by (simp add: two_packets_def simulated_packet_def sender_bytes_def sender_type flip: sender_sample_made)
  then show ?thesis by (rule message.framed.decodes)
qed

section \<open>Printed numbers\<close>

lemma digit_chars [simp]:
  "digit_char 0 = CHR ''0''" "digit_char 1 = CHR ''1''" "digit_char (Suc 0) = CHR ''1''"
  "digit_char 2 = CHR ''2''" "digit_char 3 = CHR ''3''" "digit_char 4 = CHR ''4''"
  "digit_char 5 = CHR ''5''" "digit_char 6 = CHR ''6''" "digit_char 7 = CHR ''7''"
  "digit_char 8 = CHR ''8''" "digit_char 9 = CHR ''9''"
  by code_simp+

lemma show_decimal_numeral [simp]:
  "show_decimal (numeral k) = (if numeral k < (10 :: nat) then [digit_char (numeral k)]
     else show_decimal (numeral k div 10) @ [digit_char (numeral k mod 10)])"
  "show_decimal 0 = ''0''" "show_decimal 1 = ''1''" "show_decimal (Suc 0) = ''1''"
  by (subst show_decimal.simps, simp)+

lemmas text_simps = float_text_def double_text_def general_text_def significant_digits_def decimal_exponent_def
  round_at_def round_half_even_def pad_zeros_def point_text_def strip_zeros_def sign_text_def
  neg32_def scaled32_def exp32_def man32_def isnan32_def isfinite32_def scaled_magnitude_def Let_def

lemma sender_numbers:
  "float_text (Float32 0) = ''0''"
  "float_text (Float32 0x411CF5C3) = ''9.81''"
  "float_text (Float32 0x3C23D70A) = ''0.01''"
  "float_text (Float32 0xBCA3D70A) = ''-0.02''"
  "float_text (Float32 0x3CF5C28F) = ''0.03''"
  by (simp_all add: text_simps)

lemma sender_text:
  "sensor_payload_text sender_sample
     = '' acceleration=(0,0,9.81) angular_velocity=(0.01,-0.02,0.03)''"
  by (simp add: sensor_payload_text_def sender_sample_def vector_text_def sender_numbers)

section \<open>Reports\<close>

lemma report_accepted:
  assumes "receive_message (rd_bytes dg) = Inr (Some ((n, ts), v))"
  shows "report_datagram dg p = Some (Inr 0, p\<lparr>pr_out := pr_out p
    @ ''received packet from '' @ endpoint_text (rd_source dg)
    @ '' type='' @ unsigned_text (raw_type (message_type_of v)) @ '' sequence='' @ unsigned_text n
    @ '' payload_bytes='' @ show_decimal (length (rd_bytes dg) - 32) @ sensor_payload_text v @ newline\<rparr>)"
proof -
  obtain pkt where pkt: "decode_packet (rd_bytes dg) = Inr \<lparr>dr_packet = Some pkt, dr_error = DecodeNone\<rparr>"
    using decode_accepts [OF assms] by blast
  then have out: "decode_outcome (rd_bytes dg) = \<lparr>dr_packet = Some pkt, dr_error = DecodeNone\<rparr>"
    by (simp add: decode_packet_eq)
  obtain r where r: "decode_sensor_payload (hdr_message_type (pkt_header pkt)) (pkt_payload pkt) = Inr r"
    using decode_payload_returns by blast
  have v: "dsp_payload r = Some v" "hdr_sequence_number (pkt_header pkt) = n"
    using assms pkt r by (auto simp: receive_message_def decode_frame_def frame_of_def decode_payload_opt_def)
  have t: "hdr_message_type (pkt_header pkt) = message_type_of v"
    using decode_payload_canonical [OF r v(1)] by simp
  have "length (pkt_payload pkt) = length (rd_bytes dg) - 32"
    using out by (auto simp: decode_outcome_def accepted_packet_def Let_def split: if_splits)
  then show ?thesis
    using pkt r v t by (simp add: report_datagram_def tool_bind_def received_text_def)
qed

text \<open>The exit code a received datagram leads to.\<close>

definition datagram_code :: "bytes \<Rightarrow> int" where
  "datagram_code bs = (case receive_message bs of
      Inr (Some m) \<Rightarrow> 0
    | _ \<Rightarrow> if dr_packet (decode_outcome bs) = None then 2 else 3)"

lemma exit_codes: "datagram_code bs \<in> {0, 2, 3}"
  by (auto simp: datagram_code_def split: sum.split option.split)





section \<open>The tools never reach undefined behaviour\<close>

lemma parse_port_defined: "parse_port t \<noteq> Inl Out_of_bounds"
  by (auto simp: parse_port_def split: prod.splits list.splits sum.splits)


section \<open>The receiver's outcomes\<close>

text \<open>A port argument: a non-empty sequence of digits whose value is at most 65535.\<close>

definition port_number :: "string \<Rightarrow> u16 cpp" where
  "port_number t =
     (if t \<noteq> [] \<and> list_all is_digit t \<and> decimal_value t \<le> 65535 then Inr (word_of_int (decimal_value t))
      else Inl (Invalid_argument ''port must be an integer between 0 and 65535''))"

lemma parse_port_whole:
  "parse_port t = (case parse_whole unsigned_int_max t of
      None \<Rightarrow> Inl (Invalid_argument ''port must be an integer between 0 and 65535'')
    | Some v \<Rightarrow> if v > 65535 then Inl (Invalid_argument ''port must be an integer between 0 and 65535'')
        else Inr (word_of_int v))"
  by (auto simp: parse_port_def parse_whole_def split: prod.split list.split sum.split)

lemma parse_port_eq: "parse_port t = port_number t"
proof (cases "t \<noteq> [] \<and> list_all is_digit t \<and> decimal_value t \<le> 65535")
  case True
  then have "parse_whole unsigned_int_max t = Some (decimal_value t)"
    by (simp add: parse_whole_iff list_all_iff unsigned_int_max_def)
  then show ?thesis using True by (simp add: parse_port_whole port_number_def)
next
  case False
  have bad: "v > 65535" if "parse_whole unsigned_int_max t = Some v" for v
    using False that by (auto simp: parse_whole_iff list_all_iff)
  have "port_number t = Inl (Invalid_argument ''port must be an integer between 0 and 65535'')"
    using False unfolding port_number_def by (simp only: if_False)
  then show ?thesis using bad by (auto simp: parse_port_whole split: option.split)
qed

text \<open>The system's part of the receiver: the socket bound to the requested endpoint, and the endpoint it
  got; then the datagram of \<open>receive\<close>.\<close>

definition receiver_listens :: "'w os \<Rightarrow> string \<Rightarrow> string \<Rightarrow> ('w, fd \<times> ipv4_endpoint) io" where
  "receiver_listens os address number =
     io_bind (io_cpp (port_number number)) (\<lambda>port.
     io_bind (bind_to os \<lparr>ep_address = address, ep_port = port\<rparr>) (\<lambda>socket.
     io_bind (local_endpoint os socket) (\<lambda>actual. io_return (socket, actual))))"

definition listening_line :: "ipv4_endpoint \<Rightarrow> string" where
  "listening_line actual = ''listening on '' @ endpoint_text actual @ newline"


lemma receiver_body_listens:
  assumes "receiver_listens os address number (pr_machine p) = (Inr (socket, actual), s)"
  shows "receiver_body os address number p = tool_scoped os socket
     (tool_bind (tool_io (receive os socket kMaxUdpPayloadSize)) report_datagram)
     (p\<lparr>pr_machine := s, pr_out := pr_out p @ listening_line actual\<rparr>)"
  using assms
  by (auto simp: receiver_body_def receiver_listens_def parse_port_eq tool_bind_def tool_scoped_def io_bind_eq
      listening_line_def split: sum.splits)



lemma sender_body_neutral:
  assumes "descriptors_valid os"
  shows "tool_neutral (sender_body os address port)"
proof -
  have "fd_neutral (send_to os d b e)" for d b e
    unfolding send_to_def by (auto split: sum.split)
  moreover have "fd_neutral (sender_packet os)" by (simp add: fd_neutral_def sender_packet_eq)
  ultimately show ?thesis
    unfolding sender_body_def Let_def
    by (intro tool_neutral_intros tool_neutral_socket udp_open_opens [OF assms] fd_neutral_intros)
qed

section \<open>The receiver on the sender's datagram\<close>

lemma sender_bytes_length: "length (sender_bytes ts) = 56"
  by (simp add: sender_bytes_def sender_sample_def payload_bytes_def)

lemma report_sender_bytes:
  assumes "rd_bytes dg = sender_bytes ts"
  shows "report_datagram dg p = Some (Inr 0, p\<lparr>pr_out := pr_out p
    @ ''received packet from '' @ endpoint_text (rd_source dg)
    @ '' type=1 sequence=1 payload_bytes=24 acceleration=(0,0,9.81) angular_velocity=(0.01,-0.02,0.03)'' @ newline\<rparr>)"
proof -
  have "raw_type (message_type_of sender_sample) = 1" by (simp add: sender_type kImu_def)
  then show ?thesis
    using report_accepted [of dg 1 ts sender_sample p] sender_message [of ts]
    by (simp add: assms sender_text sender_bytes_length unsigned_text_def)
qed

text \<open>The receiver on the sender's bytes.\<close>

lemma receiver_on_sender_bytes:
  assumes "receiver_listens os address number (pr_machine p) = (Inr (socket, actual), s)"
    and "receive os socket kMaxUdpPayloadSize s = (Inr dg, t)" and "rd_bytes dg = sender_bytes ts"
  shows "\<exists>q. udp_receiver_main os error_text [address, number] p = Some (Inr 0, q) \<and> pr_err q = pr_err p
    \<and> pr_out q = pr_out p @ ''listening on '' @ endpoint_text actual @ newline
      @ ''received packet from '' @ endpoint_text (rd_source dg)
      @ '' type=1 sequence=1 payload_bytes=24 acceleration=(0,0,9.81) angular_velocity=(0.01,-0.02,0.03)'' @ newline"
  by (simp add: udp_receiver_main_def tool_try_def receiver_body_listens [OF assms(1)] tool_scoped_def tool_bind_def
      assms(2) report_sender_bytes [OF assms(3)] listening_line_def)

text \<open>The toy kernel: where its sockets listen, and what they receive.\<close>

definition toy_endpoint :: ipv4_endpoint where
  "toy_endpoint = \<lparr>ep_address = ''127.0.0.1'', ep_port = 9000\<rparr>"

lemma toy_listens:
  assumes "m_world m = (n, queue)"
  shows "\<exists>s. receiver_listens toy_os ''127.0.0.1'' ''9000'' m = (Inr (int n, toy_endpoint), s)
    \<and> m_world s = (n + 1, queue)"
proof -
  have port: "port_number ''9000'' = Inr 9000" by code_simp
  have nine: "be_val [0x23, 0x28] = (9000 :: u16)" by code_simp
  show ?thesis
    by (simp add: receiver_listens_def port nine bind_to_def udp_open_def to_sockaddr_def local_endpoint_def toy_os_def
        toy_pton_def io_guarded_def io_check_def io_simps from_sockaddr_def c_str_def NUL_char_def toy_endpoint_def assms)
qed

lemma toy_receives:
  assumes "m_world s = (n, b # queue)" "length b \<le> kMaxUdpPayloadSize"
  shows "\<exists>t. receive toy_os d kMaxUdpPayloadSize s
    = (Inr \<lparr>rd_bytes = b, rd_source = \<lparr>ep_address = ''127.0.0.1'', ep_port = 5\<rparr>\<rparr>, t)"
proof -
  have five: "be_val [0, 5] = (5 :: u16)" by code_simp
  show ?thesis using assms(2)
    by (simp add: receive_def receive_datagram_def toy_os_def io_simps from_sockaddr_def kMaxUdpPayloadSize_def
        assms(1) five)
qed

section \<open>The sender's run\<close>

text \<open>A host for a program that neither sleeps nor asks whether to stop.\<close>

definition tool_host :: "'w os \<Rightarrow> 'w host" where
  "tool_host os = \<lparr>host_os = os, host_sleep_until = (\<lambda>t w. w), host_stop = (\<lambda>w. (Inr False, w))\<rparr>"

lemma sender_body_sends:
  assumes "records_sends (tool_host os) sent" "sender_body os address number p = Some (Inr 0, q)"
  shows "\<exists>port a ts. parse_port number = Inr port
    \<and> to_sockaddr os \<lparr>ep_address = address, ep_port = port\<rparr> = Inr a
    \<and> sent (m_world (pr_machine q)) = sent (m_world (pr_machine p)) @ [(sender_bytes ts, a)]
    \<and> pr_out q = pr_out p @ ''sent 56 bytes to '' @ endpoint_text \<lparr>ep_address = address, ep_port = port\<rparr> @ newline
    \<and> pr_err q = pr_err p"
proof -
  obtain port where port: "parse_port number = Inr port"
    using assms(2) by (auto simp: sender_body_def tool_simps)
  define ts where "ts = fst (lib_steady_now os (m_world (pr_machine p)))"
  define m where "m = (pr_machine p)\<lparr>m_world := snd (lib_steady_now os (m_world (pr_machine p)))\<rparr>"
  obtain d where d: "fst (udp_open os m) = Inr d"
    "fst (send_to os d (sender_bytes ts) \<lparr>ep_address = address, ep_port = port\<rparr> (snd (udp_open os m))) = Inr ()"
    and q: "q = p\<lparr>pr_out := pr_out p @ ''sent '' @ show_decimal 56 @ '' bytes to ''
        @ endpoint_text \<lparr>ep_address = address, ep_port = port\<rparr> @ newline,
      pr_machine := io_close os d (snd (send_to os d (sender_bytes ts) \<lparr>ep_address = address, ep_port = port\<rparr> (snd (udp_open os m))))\<rparr>"
    using assms(2) port
    by (auto simp: sender_body_def tool_simps sender_packet_eq sender_bytes_length Let_def simp flip: ts_def m_def
        simp del: append_Cons show_decimal_numeral)
  define u where "u = snd (udp_open os m)"
  define v where "v = snd (send_to os d (sender_bytes ts) \<lparr>ep_address = address, ep_port = port\<rparr> u)"
  have opened: "udp_open os m = (Inr d, u)" using d(1) by (simp add: u_def prod_eq_iff)
  have sent: "send_to os d (sender_bytes ts) \<lparr>ep_address = address, ep_port = port\<rparr> u = (Inr (), v)"
    using d(2) by (simp add: v_def u_def prod_eq_iff)
  have "sent (m_world u) = sent (m_world (pr_machine p))"
    using assms(1) opened
    by (auto simp: m_def udp_open_def io_simps io_check_def records_sends_def tool_host_def split: sum.splits)
  moreover obtain a where "to_sockaddr os \<lparr>ep_address = address, ep_port = port\<rparr> = Inr a"
    "sent (m_world v) = sent (m_world u) @ [(sender_bytes ts, a)]"
    using assms(1) sent
    by (auto simp: send_to_def io_simps io_check_def records_sends_def tool_host_def split: if_splits sum.splits)
  moreover have "sent (m_world (io_close os d v)) = sent (m_world v)"
    using assms(1) by (simp add: io_close_def records_sends_def tool_host_def)
  ultimately show ?thesis using port q by (auto simp: v_def u_def)
qed

section \<open>Properties\<close>



text \<open>C38. From tool to tool. When the sender tool exits with 0, it was given an address and a port, the
  system sent exactly one datagram of 56 bytes, to that address, and the sender has printed so, with its
  error stream untouched and its socket closed. Whenever a receiver tool, on any system, receives the
  bytes of that datagram, it exits with 0 and prints exactly the endpoint it listens on, the sender of
  the datagram, the type, the sequence number and the very numbers of the sample the sender encoded,
  with its error stream untouched.\<close>

theorem sent_packet_received:
  assumes "records_sends (tool_host os) sent" and "descriptors_valid os"
    and "udp_sender_main os error_text args p = Some (Inr 0, q)"
  shows "\<exists>address number port a ts. args = [address, number] \<and> port_number number = Inr port
    \<and> to_sockaddr os \<lparr>ep_address = address, ep_port = port\<rparr> = Inr a
    \<and> sent (m_world (pr_machine q)) = sent (m_world (pr_machine p)) @ [(sender_bytes ts, a)]
    \<and> pr_out q = pr_out p @ ''sent 56 bytes to '' @ endpoint_text \<lparr>ep_address = address, ep_port = port\<rparr> @ newline
    \<and> pr_err q = pr_err p \<and> m_open (pr_machine q) = m_open (pr_machine p)
    \<and> (\<forall>(os' :: 'v os) error_text' address' number' p' socket actual s dg t.
        receiver_listens os' address' number' (pr_machine p') = (Inr (socket, actual), s) \<longrightarrow>
        receive os' socket kMaxUdpPayloadSize s = (Inr dg, t) \<longrightarrow> rd_bytes dg = sender_bytes ts \<longrightarrow>
        (\<exists>q'. udp_receiver_main os' error_text' [address', number'] p' = Some (Inr 0, q') \<and> pr_err q' = pr_err p'
          \<and> pr_out q' = pr_out p' @ ''listening on '' @ endpoint_text actual @ newline
            @ ''received packet from '' @ endpoint_text (rd_source dg)
            @ '' type=1 sequence=1 payload_bytes=24 acceleration=(0,0,9.81) angular_velocity=(0.01,-0.02,0.03)'' @ newline))"
proof -
  obtain address number where args: "args = [address, number]"
    and body: "sender_body os address number p = Some (Inr 0, q)"
    using assms(3) by (auto simp: udp_sender_main_def tool_simps split: list.splits)
  obtain port a ts where s: "parse_port number = Inr port"
    "to_sockaddr os \<lparr>ep_address = address, ep_port = port\<rparr> = Inr a"
    "sent (m_world (pr_machine q)) = sent (m_world (pr_machine p)) @ [(sender_bytes ts, a)]"
    "pr_out q = pr_out p @ ''sent 56 bytes to '' @ endpoint_text \<lparr>ep_address = address, ep_port = port\<rparr> @ newline"
    "pr_err q = pr_err p"
    using sender_body_sends [OF assms(1) body] by blast
  have "m_open (pr_machine q) = m_open (pr_machine p)"
    using sender_body_neutral [OF assms(2)] body unfolding tool_neutral_def by blast
  moreover have "port_number number = Inr port" using s(1) by (simp add: parse_port_eq)
  ultimately show ?thesis
    using args s(2-5) receiver_on_sender_bytes [where ts = ts]
    by (intro exI [of _ address] exI [of _ number] exI [of _ port] exI [of _ a] exI [of _ ts] conjI allI impI)
qed

lemma sent_packet_received_witness:
  "\<exists>q ts q'. udp_sender_main sim_os (\<lambda>_. []) [''127.0.0.1'', ''9000''] \<lparr>pr_machine = sim_start, pr_out = [], pr_err = []\<rparr> = Some (Inr 0, q)
    \<and> snd (m_world (pr_machine q)) = [(sender_bytes ts, loopback)]
    \<and> udp_receiver_main toy_os (\<lambda>_. []) [''127.0.0.1'', ''9000'']
        \<lparr>pr_machine = \<lparr>m_world = (5, [sender_bytes ts]), m_open = []\<rparr>, pr_out = [], pr_err = []\<rparr> = Some (Inr 0, q')
    \<and> pr_out q' = ''listening on 127.0.0.1:9000'' @ newline
        @ ''received packet from 127.0.0.1:5 type=1 sequence=1 payload_bytes=24 acceleration=(0,0,9.81) angular_velocity=(0.01,-0.02,0.03)'' @ newline"
proof -
  let ?p = "\<lparr>pr_machine = sim_start, pr_out = [], pr_err = []\<rparr>"
  let ?args = "[''127.0.0.1'', ''9000'']"
  have port: "parse_port ''9000'' = Inr 9000" by code_simp
  have addr: "to_sockaddr sim_os \<lparr>ep_address = ''127.0.0.1'', ep_port = 9000\<rparr> = Inr loopback"
    by (simp add: to_sockaddr_def sim_os_def toy_pton_def c_str_def NUL_char_def loopback_def)
  obtain q where run: "udp_sender_main sim_os (\<lambda>_. []) ?args ?p = Some (Inr 0, q)"
    by (simp add: udp_sender_main_def sender_body_def tool_bind_def tool_scoped_def tool_try_def port sender_packet_eq
        sender_bytes_length udp_open_def send_to_def addr io_check_def io_simps kMaxUdpPayloadSize_def Let_def
        sim_os_def [THEN arg_cong [where f = sys_socket]] sim_os_def [THEN arg_cong [where f = sys_sendto]] case_prod_beta)
  have rec: "records_sends (tool_host sim_os) snd"
    using sim_host_records by (simp add: records_sends_def tool_host_def sim_host_def)
  have valid: "descriptors_valid sim_os" by (simp add: sim_os_def descriptors_valid_def)
  show ?thesis
    using sent_packet_received [OF rec valid run, where 'v = toy_world]
  proof (elim exE conjE)
    fix address number port' a ts
    assume r: "?args = [address, number]" "port_number number = Inr port'"
      "to_sockaddr sim_os \<lparr>ep_address = address, ep_port = port'\<rparr> = Inr a"
      "snd (m_world (pr_machine q)) = snd (m_world (pr_machine ?p)) @ [(sender_bytes ts, a)]"
      and receives: "\<forall>(os' :: toy_world os) error_text' address' number' p' socket actual s dg t.
        receiver_listens os' address' number' (pr_machine p') = (Inr (socket, actual), s) \<longrightarrow>
        receive os' socket kMaxUdpPayloadSize s = (Inr dg, t) \<longrightarrow> rd_bytes dg = sender_bytes ts \<longrightarrow>
        (\<exists>q'. udp_receiver_main os' error_text' [address', number'] p' = Some (Inr 0, q') \<and> pr_err q' = pr_err p'
          \<and> pr_out q' = pr_out p' @ ''listening on '' @ endpoint_text actual @ newline
            @ ''received packet from '' @ endpoint_text (rd_source dg)
            @ '' type=1 sequence=1 payload_bytes=24 acceleration=(0,0,9.81) angular_velocity=(0.01,-0.02,0.03)'' @ newline)"
    have a: "a = loopback" "snd (m_world (pr_machine ?p)) = []"
      using r(1-3) port addr by (simp_all add: sim_start_def flip: parse_port_eq)
    let ?r = "\<lparr>pr_machine = \<lparr>m_world = (5 :: nat, [sender_bytes ts]), m_open = []\<rparr>, pr_out = [], pr_err = []\<rparr>"
    obtain s where listens: "receiver_listens toy_os ''127.0.0.1'' ''9000'' (pr_machine ?r) = (Inr (5, toy_endpoint), s)"
      and s: "m_world s = (6, [sender_bytes ts])"
      using toy_listens [of "pr_machine ?r" 5 "[sender_bytes ts]"] by auto
    have "length (sender_bytes ts) \<le> kMaxUdpPayloadSize" by (simp add: sender_bytes_length kMaxUdpPayloadSize_def)
    then obtain dg t where got: "receive toy_os 5 kMaxUdpPayloadSize s = (Inr dg, t)" "rd_bytes dg = sender_bytes ts"
      "rd_source dg = \<lparr>ep_address = ''127.0.0.1'', ep_port = 5\<rparr>"
      using toy_receives [OF s, of 5] by force
    have texts: "endpoint_text toy_endpoint = ''127.0.0.1:9000''" "endpoint_text (rd_source dg) = ''127.0.0.1:5''"
      by (simp_all add: got(3) endpoint_text_def toy_endpoint_def unsigned_text_def)
    obtain q' where q': "udp_receiver_main toy_os (\<lambda>_. []) ?args ?r = Some (Inr 0, q')"
      "pr_out q' = pr_out ?r @ ''listening on '' @ endpoint_text toy_endpoint @ newline
            @ ''received packet from '' @ endpoint_text (rd_source dg)
            @ '' type=1 sequence=1 payload_bytes=24 acceleration=(0,0,9.81) angular_velocity=(0.01,-0.02,0.03)'' @ newline"
      using receives [rule_format, OF listens got(1,2)] by blast
    show ?thesis
      by (intro exI [of _ q] exI [of _ ts] exI [of _ q'] conjI run q'(1))
        (use r(4) a q'(2) in \<open>simp_all add: texts\<close>)
  qed
qed

end
