(* ===== verification/Keyed_Table.thy ===== *)
theory Keyed_Table
  imports Prelude
begin

text \<open>
  The bounded tables of the runtime, vectors of per-source states searched with \<open>std::find_if\<close>,
  extended with \<open>push_back\<close> while there is room, and never shrunk.

  The locale \<open>keyed_table\<close> is the contract of such a table: what one observation does when the
  key is known, new, or new with the table full. Proved once from it: keys stay distinct, the
  bound holds, and a source evolves as if it were alone, i.e. the table is the product of
  independent single-source machines (\<open>projection\<close>).
\<close>

section \<open>Searching a vector\<close>

fun find_index :: "('a \<Rightarrow> bool) \<Rightarrow> 'a list \<Rightarrow> nat option" where
  "find_index P [] = None"
| "find_index P (x # xs) = (if P x then Some 0 else map_option Suc (find_index P xs))"

lemma find_index_None_iff: "find_index P xs = None \<longleftrightarrow> (\<forall>x \<in> set xs. \<not> P x)"
  by (induction xs) auto

lemma find_index_SomeD:
  "find_index P xs = Some i \<Longrightarrow> i < length xs \<and> P (xs ! i) \<and> (\<forall>j < i. \<not> P (xs ! j))"
proof (induction xs arbitrary: i)
  case (Cons x xs)
  then show ?case by (auto split: if_splits simp: nth_Cons' less_Suc_eq_0_disj)
qed simp

lemma find_index_map: "find_index P (map f xs) = find_index (P \<circ> f) xs"
  by (induction xs) auto

definition lookup :: "('s \<Rightarrow> 'k) \<Rightarrow> 's list \<Rightarrow> 'k \<Rightarrow> 's option" where
  "lookup key tab k = map_option ((!) tab) (find_index (\<lambda>s. key s = k) tab)"

lemma lookup_Nil [simp]: "lookup key [] k = None"
  by (simp add: lookup_def)

lemma lookup_None_iff: "lookup key tab k = None \<longleftrightarrow> k \<notin> key ` set tab"
  by (auto simp: lookup_def find_index_None_iff)

lemma lookup_Some_key: "lookup key tab k = Some s \<Longrightarrow> key s = k \<and> s \<in> set tab"
  by (auto simp: lookup_def dest: find_index_SomeD)

lemma lookup_append:
  "lookup key (tab @ [s]) k =
     (case lookup key tab k of None \<Rightarrow> if key s = k then Some s else None | Some x \<Rightarrow> Some x)"
proof (induction tab)
  case Nil
  show ?case by (simp add: lookup_def)
next
  case (Cons a tab)
  then show ?case
    by (auto simp: lookup_def option.map_comp comp_def split: option.splits)
qed

lemma find_index_update:
  assumes "i < length tab" "key s = key (tab ! i)"
  shows "find_index (\<lambda>x. key x = k) (tab[i := s]) = find_index (\<lambda>x. key x = k) tab"
proof -
  have "map key (tab[i := s]) = map key tab"
    using assms by (simp add: map_update list_update_same_conv)
  then show ?thesis
    using find_index_map [of "\<lambda>x. x = k" key tab] find_index_map [of "\<lambda>x. x = k" key "tab[i := s]"]
    by (simp add: comp_def)
qed

lemma lookup_update:
  assumes i: "find_index (\<lambda>x. key x = k') tab = Some i" and key: "key s = k'"
  shows "lookup key (tab[i := s]) k = (if k = k' then Some s else lookup key tab k)"
proof -
  have lt: "i < length tab" and ki: "key (tab ! i) = k'" using find_index_SomeD [OF i] by auto
  have f: "find_index (\<lambda>x. key x = k) (tab[i := s]) = find_index (\<lambda>x. key x = k) tab"
    by (rule find_index_update [OF lt]) (simp add: key ki)
  show ?thesis
  proof (cases "find_index (\<lambda>x. key x = k) tab")
    case None
    then show ?thesis using i by (auto simp: lookup_def f)
  next
    case (Some j)
    then have "key (tab ! j) = k" using find_index_SomeD by fast
    then show ?thesis using Some i ki lt by (auto simp: lookup_def f nth_list_update)
  qed
qed

section \<open>Machines with outputs\<close>

fun run_machine :: "('t \<Rightarrow> 'e \<Rightarrow> 't \<times> 'o) \<Rightarrow> 't \<Rightarrow> 'e list \<Rightarrow> 't \<times> 'o list" where
  "run_machine f t [] = (t, [])"
| "run_machine f t (e # es) =
     (let (t', out) = f t e; (t'', outs) = run_machine f t' es in (t'', out # outs))"

declare run_machine.simps(2) [simp del]

lemma run_machine_Cons [simp]:
  "run_machine f t (e # es) =
     (fst (run_machine f (fst (f t e)) es), snd (f t e) # snd (run_machine f (fst (f t e)) es))"
  by (simp add: run_machine.simps(2) split: prod.splits)

lemma run_machine_append:
  "run_machine f t (xs @ ys) =
     (fst (run_machine f (fst (run_machine f t xs)) ys),
      snd (run_machine f t xs) @ snd (run_machine f (fst (run_machine f t xs)) ys))"
  by (induction xs arbitrary: t) simp_all

lemma length_run_machine [simp]: "length (snd (run_machine f t es)) = length es"
  by (induction es arbitrary: t) simp_all

lemma run_machine_invariant:
  assumes "P t" and "\<And>t e. P t \<Longrightarrow> P (fst (f t e))"
  shows "P (fst (run_machine f t es))"
  using assms(1) by (induction es arbitrary: t) (simp_all add: assms(2))

lemma run_machine_sim:
  assumes "\<And>t e. P t \<Longrightarrow> P (fst (f t e))"
    and "\<And>t e. P t \<Longrightarrow> view (fst (f t e)) = fst (g (view t) e) \<and> snd (f t e) = snd (g (view t) e)"
    and "P t"
  shows "view (fst (run_machine f t es)) = fst (run_machine g (view t) es)
    \<and> snd (run_machine f t es) = snd (run_machine g (view t) es)"
  using assms(3)
proof (induction es arbitrary: t)
  case (Cons e es)
  then show ?case using assms(1) [of t e] assms(2) [of t e] Cons.IH [of "fst (f t e)"] by simp
qed simp

section \<open>The table contract\<close>

text \<open>
  The machine of a single source: not yet admitted, or in a state. An event of an unknown source
  need not create a state.
\<close>

fun own_step :: "('e \<Rightarrow> 's option \<times> 'o) \<Rightarrow> ('s \<Rightarrow> 'e \<Rightarrow> 's \<times> 'o) \<Rightarrow> 's option \<Rightarrow> 'e \<Rightarrow> 's option \<times> 'o" where
  "own_step admit advance None e = admit e"
| "own_step admit advance (Some s) e = (let (s', out) = advance s e in (Some s', out))"

locale keyed_table =
  fixes key :: "'s \<Rightarrow> 'k"
    and id_of :: "'e \<Rightarrow> 'k"
    and admit :: "'e \<Rightarrow> 's option \<times> 'o"
    and advance :: "'s \<Rightarrow> 'e \<Rightarrow> 's \<times> 'o"
    and capacity :: nat
    and observe :: "'s list \<Rightarrow> 'e \<Rightarrow> 's list \<times> 'o"
  assumes key_admit: "fst (admit e) = Some s \<Longrightarrow> key s = id_of e"
    and key_advance: "key (fst (advance s e)) = key s"
    and observe_known: "find_index (\<lambda>s. key s = id_of e) tab = Some i \<Longrightarrow>
      observe tab e = (tab[i := fst (advance (tab ! i) e)], snd (advance (tab ! i) e))"
    and observe_new: "find_index (\<lambda>s. key s = id_of e) tab = None \<Longrightarrow> length tab < capacity \<Longrightarrow>
      observe tab e = (case fst (admit e) of None \<Rightarrow> tab | Some s \<Rightarrow> tab @ [s], snd (admit e))"
    and observe_full: "find_index (\<lambda>s. key s = id_of e) tab = None \<Longrightarrow> capacity \<le> length tab \<Longrightarrow>
      fst (observe tab e) = tab"
begin

abbreviation own where "own \<equiv> own_step admit advance"

lemma observe_cases:
  obtains (known) i where "find_index (\<lambda>s. key s = id_of e) tab = Some i"
      "observe tab e = (tab[i := fst (advance (tab ! i) e)], snd (advance (tab ! i) e))"
  | (new) s where "find_index (\<lambda>s. key s = id_of e) tab = None" "length tab < capacity"
      "fst (admit e) = Some s" "observe tab e = (tab @ [s], snd (admit e))"
  | (idle) "find_index (\<lambda>s. key s = id_of e) tab = None" "length tab < capacity"
      "fst (admit e) = None" "observe tab e = (tab, snd (admit e))"
  | (full) "find_index (\<lambda>s. key s = id_of e) tab = None" "capacity \<le> length tab"
      "fst (observe tab e) = tab"
proof (cases "find_index (\<lambda>s. key s = id_of e) tab")
  case None
  show ?thesis
  proof (cases "length tab < capacity")
    case True
    then show ?thesis using None observe_new [OF None True] new idle
      by (cases "fst (admit e)") auto
  next
    case False
    then show ?thesis using None observe_full full by simp
  qed
next
  case (Some i)
  then show ?thesis using observe_known known by blast
qed

lemma keys_observe:
  "map key (fst (observe tab e)) = map key tab
   \<or> map key (fst (observe tab e)) = map key tab @ [id_of e] \<and> id_of e \<notin> key ` set tab
     \<and> length tab < capacity"
proof (cases rule: observe_cases [of e tab])
  case (known i)
  then have "i < length tab" by (auto dest: find_index_SomeD)
  then show ?thesis using known by (simp add: map_update key_advance list_update_same_conv)
next
  case (new s)
  then show ?thesis by (auto simp: key_admit [OF new(3)] find_index_None_iff)
qed simp_all

lemma observe_distinct: "distinct (map key tab) \<Longrightarrow> distinct (map key (fst (observe tab e)))"
  using keys_observe [of tab e] by auto

lemma observe_bounded: "length tab \<le> capacity \<Longrightarrow> length (fst (observe tab e)) \<le> capacity"
  using keys_observe [of tab e] by (metis Suc_leI length_append_singleton length_map)

lemma lookup_other: "id_of e \<noteq> k \<Longrightarrow> lookup key (fst (observe tab e)) k = lookup key tab k"
proof (cases rule: observe_cases [of e tab])
  case (known i)
  then have "key (tab ! i) = id_of e" by (auto dest: find_index_SomeD)
  then show "id_of e \<noteq> k \<Longrightarrow> ?thesis"
    using known by (simp add: lookup_update [OF known(1)] key_advance)
qed (auto simp: lookup_append dest: key_admit split: option.splits)

lemma lookup_mono: "lookup key tab k \<noteq> None \<Longrightarrow> lookup key (fst (observe tab e)) k \<noteq> None"
  using keys_observe [of tab e] unfolding lookup_None_iff by (metis UnI1 image_set set_append)

lemma lookup_own:
  assumes "length tab < capacity \<or> lookup key (fst (observe tab e)) (id_of e) \<noteq> None"
  shows "(lookup key (fst (observe tab e)) (id_of e), snd (observe tab e))
     = own (lookup key tab (id_of e)) e"
proof (cases rule: observe_cases [of e tab])
  case (known i)
  then have k: "key (tab ! i) = id_of e" by (auto dest: find_index_SomeD)
  have "lookup key tab (id_of e) = Some (tab ! i)" by (simp add: lookup_def known)
  then show ?thesis
    using known by (simp add: lookup_update [OF known(1)] key_advance k split: prod.splits)
next
  case (new s)
  then have "lookup key tab (id_of e) = None" by (simp add: lookup_def)
  then show ?thesis using new key_admit [OF new(3)] by (simp add: lookup_append prod_eq_iff)
next
  case idle
  then have "lookup key tab (id_of e) = None" by (simp add: lookup_def)
  then show ?thesis using idle by (simp add: prod_eq_iff)
next
  case full
  then show ?thesis using assms by (simp add: lookup_def)
qed

lemma observe_stays_full:
  assumes "capacity \<le> length tab" "lookup key tab k = None"
  shows "capacity \<le> length (fst (observe tab e)) \<and> lookup key (fst (observe tab e)) k = None"
  using keys_observe [of tab e] assms unfolding lookup_None_iff
  by (metis image_set length_map not_le)

lemma run_stays_full:
  assumes "capacity \<le> length tab" "lookup key tab k = None"
  shows "lookup key (fst (run_machine observe tab es)) k = None"
  using run_machine_invariant [where P = "\<lambda>t. capacity \<le> length t \<and> lookup key t k = None"
      and f = observe and t = tab and es = es] assms observe_stays_full by blast

lemma run_lookup_mono:
  "lookup key tab k \<noteq> None \<Longrightarrow> lookup key (fst (run_machine observe tab es)) k \<noteq> None"
  by (rule run_machine_invariant) (use lookup_mono in auto)

lemma run_distinct: "distinct (map key tab) \<Longrightarrow> distinct (map key (fst (run_machine observe tab es)))"
  by (rule run_machine_invariant) (use observe_distinct in auto)

lemma run_bounded: "length tab \<le> capacity \<Longrightarrow> length (fst (run_machine observe tab es)) \<le> capacity"
  by (rule run_machine_invariant) (use observe_bounded in auto)

lemma projection:
  assumes "lookup key (fst (run_machine observe tab es)) k \<noteq> None"
  shows "(lookup key (fst (run_machine observe tab es)) k,
      map snd (filter (\<lambda>eo. id_of (fst eo) = k) (zip es (snd (run_machine observe tab es)))))
    = run_machine own (lookup key tab k) (filter (\<lambda>e. id_of e = k) es)"
  using assms
proof (induction es arbitrary: tab)
  case (Cons e es)
  define tab' where "tab' = fst (observe tab e)"
  have IH: "(lookup key (fst (run_machine observe tab' es)) k,
      map snd (filter (\<lambda>eo. id_of (fst eo) = k) (zip es (snd (run_machine observe tab' es)))))
      = run_machine own (lookup key tab' k) (filter (\<lambda>e. id_of e = k) es)"
    using Cons.IH [of tab'] Cons.prems by (simp add: tab'_def)
  show ?case
  proof (cases "id_of e = k")
    case False
    then show ?thesis using IH lookup_other [of e k tab] by (simp add: tab'_def)
  next
    case True
    have "length tab < capacity \<or> lookup key tab' k \<noteq> None"
    proof (rule ccontr)
      assume "\<not> ?thesis"
      then have full: "capacity \<le> length tab" "lookup key tab' k = None" by auto
      then have "capacity \<le> length tab'"
        using keys_observe [of tab e] unfolding tab'_def by (metis length_map not_le)
      from run_stays_full [OF this full(2), of es] Cons.prems show False by (simp add: tab'_def)
    qed
    then have "own (lookup key tab k) e = (lookup key tab' k, snd (observe tab e))"
      using lookup_own [of tab e] by (simp add: tab'_def True)
    then show ?thesis using IH by (simp add: tab'_def True prod_eq_iff)
  qed
qed simp

end

end
