(* ===== verification/Stream_Tracker.thy ===== *)
theory Stream_Tracker
  imports Received Keyed_Table
begin

text \<open>
  \<open>SensorStreamTracker\<close> of \<open>src/src/runtime/sensor_stream_tracker.cpp\<close>: sequence numbers of
  admitted sources are classified in the modular 64-bit space, with a 64-bit bitmap of the most
  recent positions per source and a bounded table of sources.

  \<open>observe_known\<close> is the part of \<open>SensorStreamTracker::observe\<close> after the table search (the
  classification), \<open>observe\<close> the whole function. Struct fields: \<open>sm_\<close> for
  \<open>SensorStreamMetrics\<close>, \<open>st_\<close> for \<open>SourceState\<close>, \<open>obs_\<close> for \<open>SequenceObservation\<close>, \<open>trk_\<close>
  for the tracker.

  The abstract specification is a tracker over unbounded integers with the set of all numbers
  seen (\<open>ideal_step\<close>); the bitmap and the modular arithmetic refine it.
\<close>

section \<open>Data\<close>

datatype sequence_status = First | InOrder | Gap | Duplicate | Reordered | Untracked

record sequence_observation =
  obs_status :: sequence_status
  obs_sequence_number :: u64
  obs_missing_samples :: u64

record stream_metrics =
  sm_streams_observed :: u64
  sm_packets_observed :: u64
  sm_first_observations :: u64
  sm_in_order_observations :: u64
  sm_gap_observations :: u64
  sm_duplicate_observations :: u64
  sm_reordered_observations :: u64
  sm_untracked_observations :: u64
  sm_missing_samples_inferred :: u64

record source_state =
  st_source :: sensor_source
  st_highest_sequence :: u64
  st_recent_sequences :: u64

record tracker =
  trk_max_sources :: nat
  trk_sources :: "source_state list"
  trk_metrics :: stream_metrics

definition kSequenceHalfRange :: u64 where "kSequenceHalfRange = push_bit 63 1"
definition kRecentSequenceCount :: u64 where "kRecentSequenceCount = 64"

definition zero_stream_metrics :: stream_metrics where
  "zero_stream_metrics =
     \<lparr>sm_streams_observed = 0, sm_packets_observed = 0, sm_first_observations = 0,
      sm_in_order_observations = 0, sm_gap_observations = 0, sm_duplicate_observations = 0,
      sm_reordered_observations = 0, sm_untracked_observations = 0, sm_missing_samples_inferred = 0\<rparr>"

definition make_observation :: "sequence_status \<Rightarrow> u64 \<Rightarrow> sequence_observation" where
  "make_observation s n = \<lparr>obs_status = s, obs_sequence_number = n, obs_missing_samples = 0\<rparr>"

section \<open>Operations\<close>

definition new_tracker :: "nat \<Rightarrow> tracker cpp" where
  "new_tracker max_sources =
     throw_if (max_sources = 0)
       (Invalid_argument ''sensor stream tracker source capacity must be greater than zero'')
     (Inr \<lparr>trk_max_sources = max_sources, trk_sources = [], trk_metrics = zero_stream_metrics\<rparr>)"

definition observe_known ::
  "stream_metrics \<Rightarrow> source_state \<Rightarrow> u64 \<Rightarrow> stream_metrics \<times> source_state \<times> sequence_observation"
where
  "observe_known m state sequence_number =
     (let forward_distance = sequence_number - st_highest_sequence state in
      if forward_distance = 0 then
        (m\<lparr>sm_duplicate_observations := sm_duplicate_observations m + 1\<rparr>, state,
         make_observation Duplicate sequence_number)
      else if forward_distance < kSequenceHalfRange then
        (let state = (if forward_distance \<ge> kRecentSequenceCount
               then state\<lparr>st_recent_sequences := 1\<rparr>
               else state\<lparr>st_recent_sequences :=
                 push_bit (unat forward_distance) (st_recent_sequences state) OR 1\<rparr>);
             state = state\<lparr>st_highest_sequence := sequence_number\<rparr>;
             missing_samples = forward_distance - 1
         in if missing_samples = 0 then
              (m\<lparr>sm_in_order_observations := sm_in_order_observations m + 1\<rparr>, state,
               make_observation InOrder sequence_number)
            else
              (m\<lparr>sm_gap_observations := sm_gap_observations m + 1,
                 sm_missing_samples_inferred :=
                   saturating_add (sm_missing_samples_inferred m) missing_samples\<rparr>, state,
               \<lparr>obs_status = Gap, obs_sequence_number = sequence_number,
                obs_missing_samples = missing_samples\<rparr>))
      else
        (let backward_distance = st_highest_sequence state - sequence_number;
             mask = push_bit (unat backward_distance) (1 :: u64)
         in if backward_distance < kRecentSequenceCount \<and> st_recent_sequences state AND mask \<noteq> 0 then
              (m\<lparr>sm_duplicate_observations := sm_duplicate_observations m + 1\<rparr>, state,
               make_observation Duplicate sequence_number)
            else
              (m\<lparr>sm_reordered_observations := sm_reordered_observations m + 1\<rparr>,
               (if backward_distance < kRecentSequenceCount
                then state\<lparr>st_recent_sequences := st_recent_sequences state OR mask\<rparr> else state),
               make_observation Reordered sequence_number)))"

definition observe :: "tracker \<Rightarrow> received_packet \<Rightarrow> tracker \<times> sequence_observation" where
  "observe t packet =
     (let m = trk_metrics t;
          m = m\<lparr>sm_packets_observed := sm_packets_observed m + 1\<rparr>;
          source = identify_sensor_source packet;
          sequence_number = rp_sequence_number packet
      in case find_index (\<lambda>candidate. st_source candidate = source) (trk_sources t) of
        None \<Rightarrow>
          if length (trk_sources t) \<ge> trk_max_sources t then
            (t\<lparr>trk_metrics := m\<lparr>sm_untracked_observations := sm_untracked_observations m + 1\<rparr>\<rparr>,
             make_observation Untracked sequence_number)
          else
            (t\<lparr>trk_sources := trk_sources t @ [\<lparr>st_source = source,
                 st_highest_sequence = sequence_number, st_recent_sequences = 1\<rparr>],
               trk_metrics := m\<lparr>sm_streams_observed := sm_streams_observed m + 1,
                 sm_first_observations := sm_first_observations m + 1\<rparr>\<rparr>,
             make_observation First sequence_number)
      | Some i \<Rightarrow>
          (let (m, state, obs) = observe_known m (trk_sources t ! i) sequence_number
           in (t\<lparr>trk_sources := (trk_sources t)[i := state], trk_metrics := m\<rparr>, obs)))"

text \<open>The packets of a run, in the order they are observed.\<close>

definition observe_all :: "tracker \<Rightarrow> received_packet list \<Rightarrow> tracker \<times> sequence_observation list" where
  "observe_all = run_machine observe"

section \<open>Classification does not depend on the metrics\<close>

definition classify :: "source_state \<Rightarrow> u64 \<Rightarrow> source_state \<times> sequence_observation" where
  "classify st n = snd (observe_known zero_stream_metrics st n)"

text \<open>How a returned observation is counted.\<close>

definition tally :: "stream_metrics \<Rightarrow> sequence_observation \<Rightarrow> stream_metrics" where
  "tally m obs = (case obs_status obs of
      First \<Rightarrow> m\<lparr>sm_streams_observed := sm_streams_observed m + 1,
                 sm_first_observations := sm_first_observations m + 1\<rparr>
    | InOrder \<Rightarrow> m\<lparr>sm_in_order_observations := sm_in_order_observations m + 1\<rparr>
    | Gap \<Rightarrow> m\<lparr>sm_gap_observations := sm_gap_observations m + 1,
               sm_missing_samples_inferred :=
                 saturating_add (sm_missing_samples_inferred m) (obs_missing_samples obs)\<rparr>
    | Duplicate \<Rightarrow> m\<lparr>sm_duplicate_observations := sm_duplicate_observations m + 1\<rparr>
    | Reordered \<Rightarrow> m\<lparr>sm_reordered_observations := sm_reordered_observations m + 1\<rparr>
    | Untracked \<Rightarrow> m\<lparr>sm_untracked_observations := sm_untracked_observations m + 1\<rparr>)"

lemma observe_known_eq:
  "observe_known m st n = (tally m (snd (classify st n)), classify st n)"
  by (simp add: observe_known_def classify_def tally_def make_observation_def Let_def)

lemma classify_source [simp]: "st_source (fst (classify st n)) = st_source st"
  by (simp add: classify_def observe_known_def Let_def)

lemma classify_status:
  "obs_status (snd (classify st n)) \<in> {InOrder, Gap, Duplicate, Reordered}"
  by (simp add: classify_def observe_known_def make_observation_def Let_def)

lemma observe_metrics:
  "trk_metrics (fst (observe t p)) =
     tally (trk_metrics t\<lparr>sm_packets_observed := sm_packets_observed (trk_metrics t) + 1\<rparr>)
       (snd (observe t p))"
proof (cases "find_index (\<lambda>candidate. st_source candidate = identify_sensor_source p) (trk_sources t)")
  case None
  then show ?thesis by (simp add: observe_def Let_def tally_def make_observation_def)
next
  case (Some i)
  then show ?thesis unfolding observe_def Let_def observe_known_eq by (simp add: case_prod_beta)
qed

lemma observe_max_sources [simp]: "trk_max_sources (fst (observe t p)) = trk_max_sources t"
  by (simp add: observe_def Let_def split: option.splits prod.splits)

lemma observe_all_Cons:
  "observe_all t (p # ps) =
     (fst (observe_all (fst (observe t p)) ps), snd (observe t p) # snd (observe_all (fst (observe t p)) ps))"
  by (simp add: observe_all_def)

section \<open>What the metrics count\<close>

definition count_status :: "sequence_status \<Rightarrow> sequence_observation list \<Rightarrow> nat" where
  "count_status s obs = length (filter (\<lambda>x. obs_status x = s) obs)"

definition missing_total :: "sequence_observation list \<Rightarrow> nat" where
  "missing_total obs = sum_list (map (unat \<circ> obs_missing_samples) (filter (\<lambda>x. obs_status x = Gap) obs))"

lemma count_status_Cons:
  "count_status s (x # xs) = (if obs_status x = s then 1 else 0) + count_status s xs"
  "missing_total (x # xs) = (if obs_status x = Gap then unat (obs_missing_samples x) else 0) + missing_total xs"
  "count_status s [] = 0" "missing_total [] = 0"
  by (simp_all add: count_status_def missing_total_def)

definition saturated_total :: "u64 \<Rightarrow> nat \<Rightarrow> u64" where
  "saturated_total v n = of_nat (min (unat v + n) (2 ^ 64 - 1))"

lemma saturated_total_0: "saturated_total v 0 = v"
proof -
  have "min (unat v) (2 ^ 64 - 1) = unat v" using unat_u64_bound [of v] by (simp add: min_def)
  then show ?thesis by (simp add: saturated_total_def)
qed

lemma saturated_total_add: "saturated_total (saturating_add v d) n = saturated_total v (unat d + n)"
proof -
  have "min (min (unat v + unat d) k + n) k = min (unat v + (unat d + n)) k" for k by linarith
  then show ?thesis unfolding saturated_total_def unat_saturating_add by (rule arg_cong)
qed

lemma unat_saturated_total: "unat (saturated_total v n) = min (unat v + n) (2 ^ 64 - 1)"
  by (simp add: saturated_total_def unat_of_nat)

definition tallied :: "stream_metrics \<Rightarrow> sequence_observation list \<Rightarrow> stream_metrics" where
  "tallied m obs =
     \<lparr>sm_streams_observed = sm_streams_observed m + of_nat (count_status First obs),
      sm_packets_observed = sm_packets_observed m + of_nat (length obs),
      sm_first_observations = sm_first_observations m + of_nat (count_status First obs),
      sm_in_order_observations = sm_in_order_observations m + of_nat (count_status InOrder obs),
      sm_gap_observations = sm_gap_observations m + of_nat (count_status Gap obs),
      sm_duplicate_observations = sm_duplicate_observations m + of_nat (count_status Duplicate obs),
      sm_reordered_observations = sm_reordered_observations m + of_nat (count_status Reordered obs),
      sm_untracked_observations = sm_untracked_observations m + of_nat (count_status Untracked obs),
      sm_missing_samples_inferred =
        saturated_total (sm_missing_samples_inferred m) (missing_total obs)\<rparr>"

lemma tallied_Nil: "tallied m [] = m"
  by (simp add: tallied_def count_status_Cons saturated_total_0)

lemma tallied_Cons:
  "tallied m (x # obs) =
     tallied (tally (m\<lparr>sm_packets_observed := sm_packets_observed m + 1\<rparr>) x) obs"
  by (cases "obs_status x")
    (simp_all add: tallied_def tally_def count_status_Cons saturated_total_add add.assoc)

lemma observe_all_metrics:
  "trk_metrics (fst (observe_all t ps)) = tallied (trk_metrics t) (snd (observe_all t ps))"
proof (induction ps arbitrary: t)
  case Nil
  show ?case by (simp add: observe_all_def tallied_Nil)
next
  case (Cons p ps)
  show ?case unfolding observe_all_Cons by (simp add: Cons.IH tallied_Cons observe_metrics)
qed

lemma count_status_sum:
  "count_status First obs + count_status InOrder obs + count_status Gap obs + count_status Duplicate obs
    + count_status Reordered obs + count_status Untracked obs = length obs"
proof (induction obs)
  case (Cons x xs)
  then show ?case by (cases "obs_status x") (simp_all add: count_status_Cons)
qed (simp add: count_status_Cons)

section \<open>The source table\<close>

definition stream_admit :: "received_packet \<Rightarrow> source_state option \<times> sequence_observation" where
  "stream_admit p = (Some \<lparr>st_source = identify_sensor_source p,
     st_highest_sequence = rp_sequence_number p, st_recent_sequences = 1\<rparr>,
     make_observation First (rp_sequence_number p))"

definition stream_advance :: "source_state \<Rightarrow> received_packet \<Rightarrow> source_state \<times> sequence_observation" where
  "stream_advance st p = classify st (rp_sequence_number p)"

definition stream_table ::
  "nat \<Rightarrow> source_state list \<Rightarrow> received_packet \<Rightarrow> source_state list \<times> sequence_observation" where
  "stream_table cap tab p =
     (let (t, obs) = observe \<lparr>trk_max_sources = cap, trk_sources = tab,
         trk_metrics = zero_stream_metrics\<rparr> p in (trk_sources t, obs))"

interpretation streams: keyed_table st_source identify_sensor_source stream_admit stream_advance
  cap "stream_table cap" for cap
proof
  show "fst (stream_admit e) = Some s \<Longrightarrow> st_source s = identify_sensor_source e" for e s
    by (auto simp: stream_admit_def)
  show "st_source (fst (stream_advance s e)) = st_source s" for s e
    by (simp add: stream_advance_def)
qed (simp_all add: stream_table_def observe_def observe_known_eq stream_admit_def stream_advance_def
    Let_def split: prod.splits)

lemma observe_table:
  "(trk_sources (fst (observe t p)), snd (observe t p)) = stream_table (trk_max_sources t) (trk_sources t) p"
  by (simp add: stream_table_def observe_def observe_known_eq Let_def split: option.splits prod.splits)

lemma observe_all_table:
  "trk_sources (fst (observe_all t ps)) = fst (run_machine (stream_table (trk_max_sources t)) (trk_sources t) ps)
   \<and> snd (observe_all t ps) = snd (run_machine (stream_table (trk_max_sources t)) (trk_sources t) ps)"
  unfolding observe_all_def
  by (rule run_machine_sim [where P = "\<lambda>u. trk_max_sources u = trk_max_sources t"])
    (use observe_table in \<open>auto simp: prod_eq_iff\<close>)

section \<open>Refinement of an unbounded tracker\<close>

text \<open>
  The specification of one source: the highest position seen and the set of all positions seen,
  over unbounded integers. Positions at least 64 behind the highest are always late.
\<close>

fun ideal_step :: "int \<times> int set \<Rightarrow> int \<Rightarrow> (int \<times> int set) \<times> (sequence_status \<times> int)" where
  "ideal_step (hi, seen) p =
     (if hi < p then
        ((p, insert p seen), if p = hi + 1 then (InOrder, 0) else (Gap, p - hi - 1))
      else if hi - p < 64 \<and> p \<in> seen then ((hi, seen), (Duplicate, 0))
      else ((hi, insert p seen), (Reordered, 0)))"

definition refines :: "source_state \<Rightarrow> int \<times> int set \<Rightarrow> bool" where
  "refines st a = (st_highest_sequence st = of_int (fst a)
     \<and> fst a \<in> snd a \<and> (\<forall>x \<in> snd a. x \<le> fst a)
     \<and> (\<forall>i < 64. bit (st_recent_sequences st) i \<longleftrightarrow> fst a - int i \<in> snd a))"

lemma uint_of_int_u64: "uint (of_int d :: u64) = d mod 2 ^ 64"
  by (simp add: unsigned_of_int take_bit_eq_mod)

lemma forward_distance:
  assumes "0 \<le> d" "d < 2 ^ 64"
  shows "unat (of_int d :: u64) = nat d"
  using assms by (simp add: unat_eq_nat_uint uint_of_int_u64)

lemma backward_distance:
  assumes "- (2 ^ 63) \<le> d" "d < 0"
  shows "unat (of_int d :: u64) = nat (d + 2 ^ 64)"
proof -
  have "d mod 2 ^ 64 = (d + 2 ^ 64) mod 2 ^ 64" by simp
  also have "\<dots> = d + 2 ^ 64" using assms by (intro mod_pos_pos_trivial) auto
  finally show ?thesis by (simp add: unat_eq_nat_uint uint_of_int_u64)
qed

lemma unat_half: "unat kSequenceHalfRange = 2 ^ 63"
  by (simp add: kSequenceHalfRange_def)

lemma unat_recent: "unat kRecentSequenceCount = 64"
  by (simp add: kRecentSequenceCount_def)

lemma refines_forward:
  assumes r: "refines st (hi, seen)" and d: "0 < p - hi" "p - hi < 2 ^ 63"
  shows "refines (fst (classify st (of_int p))) (p, insert p seen)
    \<and> obs_status (snd (classify st (of_int p))) = (if p = hi + 1 then InOrder else Gap)
    \<and> uint (obs_missing_samples (snd (classify st (of_int p)))) = p - hi - 1"
proof -
  define w :: u64 where "w = of_int (p - hi)"
  have unat_w: "unat w = nat (p - hi)"
    unfolding w_def by (rule forward_distance) (use d in auto)
  have fd: "of_int p - st_highest_sequence st = w"
    using r by (simp add: refines_def w_def)
  have w0: "w \<noteq> 0" using unat_w d by (metis unat_0 nat_0_iff not_less)
  have half: "w < kSequenceHalfRange"
    using d by (simp add: word_less_nat_alt unat_half unat_w nat_less_iff)
  have recent: "kRecentSequenceCount \<le> w \<longleftrightarrow> 64 \<le> p - hi"
    using d by (auto simp: word_le_nat_alt unat_recent unat_w)
  have w1: "w - 1 = 0 \<longleftrightarrow> p = hi + 1"
  proof -
    have "w - 1 = 0 \<longleftrightarrow> unat w = 1" by (metis eq_iff_diff_eq_0 unat_1 word_unat_eq_iff)
    then show ?thesis using unat_w d by auto
  qed
  have uw: "uint w = p - hi" unfolding uint_nat unat_w using d by simp
  have "1 \<le> w" using d by (simp add: word_le_nat_alt unat_w)
  then have uw1: "uint (w - 1) = p - hi - 1"
    using uint_minus_simple_alt [of 1 w] uw by simp
  have top: "\<forall>x \<in> seen. x \<le> hi" and bits: "\<forall>i < 64. bit (st_recent_sequences st) i \<longleftrightarrow> hi - int i \<in> seen"
    using r by (auto simp: refines_def)
  define rs where "rs = (if 64 \<le> p - hi then 1 else push_bit (unat w) (st_recent_sequences st) OR 1)"
  have rs: "bit rs i \<longleftrightarrow> p - int i \<in> insert p seen" if i: "i < 64" for i
  proof (cases "i = 0")
    case True
    then show ?thesis by (simp add: rs_def bit_or_iff)
  next
    case False
    show ?thesis
    proof (cases "int i < p - hi")
      case True
      then have "p - int i \<notin> insert p seen" using top False by force
      moreover have "\<not> bit rs i" using True False unat_w i by (auto simp: rs_def bit_or_iff bit_push_bit_iff bit_1_iff)
      ultimately show ?thesis by simp
    next
      case le: False
      have "bit rs i \<longleftrightarrow> bit (st_recent_sequences st) (i - nat (p - hi))"
        using le False unat_w i d by (auto simp: rs_def bit_or_iff bit_push_bit_iff bit_1_iff)
      also have "\<dots> \<longleftrightarrow> hi - int (i - nat (p - hi)) \<in> seen" using bits i by auto
      also have "hi - int (i - nat (p - hi)) = p - int i" using le d by auto
      finally show ?thesis using False by simp
    qed
  qed
  have c: "classify st (of_int p) =
    (st\<lparr>st_recent_sequences := rs, st_highest_sequence := of_int p\<rparr>,
     if p = hi + 1 then make_observation InOrder (of_int p)
     else \<lparr>obs_status = Gap, obs_sequence_number = of_int p, obs_missing_samples = w - 1\<rparr>)"
    unfolding classify_def observe_known_def Let_def fd w1 recent rs_def
    using w0 half by simp
  show ?thesis unfolding c
    using rs top d uw1 by (auto simp: refines_def make_observation_def)
qed

lemma refines_backward:
  assumes r: "refines st (hi, seen)" and d: "- (2 ^ 63) \<le> p - hi" "p \<le> hi"
  shows "refines (fst (classify st (of_int p))) (hi, insert p seen)
    \<and> snd (classify st (of_int p)) =
        make_observation (if hi - p < 64 \<and> p \<in> seen then Duplicate else Reordered) (of_int p)"
proof (cases "p = hi")
  case True
  have "of_int p - st_highest_sequence st = 0" using r by (simp add: refines_def True)
  then have "classify st (of_int p) = (st, make_observation Duplicate (of_int p))"
    unfolding classify_def observe_known_def by simp
  moreover have "p \<in> seen" using r by (simp add: refines_def True)
  ultimately show ?thesis using r True by (simp add: insert_absorb)
next
  case False
  define w :: u64 where "w = of_int (p - hi)"
  define v :: u64 where "v = of_int (hi - p)"
  have unat_w: "unat w = nat (p - hi + 2 ^ 64)"
    unfolding w_def by (rule backward_distance) (use d False in auto)
  have unat_v: "unat v = nat (hi - p)"
    unfolding v_def by (rule forward_distance) (use d in auto)
  have fd: "of_int p - st_highest_sequence st = w" and bd: "st_highest_sequence st - of_int p = v"
    using r by (simp_all add: refines_def w_def v_def)
  have "0 < unat w" unfolding unat_w using d by simp
  then have w0: "w \<noteq> 0" by auto
  have half: "\<not> w < kSequenceHalfRange"
    using d by (simp add: word_less_nat_alt unat_half unat_w nat_less_iff)
  have recent: "v < kRecentSequenceCount \<longleftrightarrow> hi - p < 64"
    using d by (auto simp: word_less_nat_alt unat_recent unat_v)
  have bits: "\<forall>i < 64. bit (st_recent_sequences st) i \<longleftrightarrow> hi - int i \<in> seen"
    using r by (auto simp: refines_def)
  define mask where "mask = push_bit (unat v) (1 :: u64)"
  have mask: "bit mask i \<longleftrightarrow> i = nat (hi - p) \<and> i < 64" for i
    by (auto simp: mask_def unat_v bit_exp_iff)
  have hit: "st_recent_sequences st AND mask \<noteq> 0 \<longleftrightarrow> p \<in> seen" if "hi - p < 64"
  proof -
    have "st_recent_sequences st AND mask \<noteq> 0 \<longleftrightarrow> bit (st_recent_sequences st) (nat (hi - p))"
      using that bit_imp_le_length [of "st_recent_sequences st" "nat (hi - p)"]
      by (auto simp: bit_word_eqI bit_eq_iff [of "st_recent_sequences st AND mask"] bit_and_iff mask)
    then show ?thesis using bits that d by auto
  qed
  have c: "classify st (of_int p) =
    (if hi - p < 64 \<and> p \<in> seen then (st, make_observation Duplicate (of_int p))
     else (if hi - p < 64 then st\<lparr>st_recent_sequences := st_recent_sequences st OR mask\<rparr> else st,
           make_observation Reordered (of_int p)))"
    unfolding classify_def observe_known_def Let_def fd bd recent mask_def [symmetric]
    using w0 half hit by auto
  have window: "hi - int i \<in> insert p seen \<longleftrightarrow> bit (st_recent_sequences st OR mask) i"
    if "i < 64" "hi - p < 64" for i
    using that bits d by (auto simp: bit_or_iff mask)
  have far: "hi - int i \<in> insert p seen \<longleftrightarrow> bit (st_recent_sequences st) i"
    if "i < 64" "\<not> hi - p < 64" for i
    using that bits by auto
  have top: "hi \<in> seen" "\<forall>x \<in> insert p seen. x \<le> hi" "st_highest_sequence st = of_int hi"
    using r d by (auto simp: refines_def)
  show ?thesis unfolding c using r top window far by (auto simp: refines_def insert_absorb)
qed

lemma ideal_refinement:
  assumes "refines st a" "- (2 ^ 63) \<le> p - fst a" "p - fst a < 2 ^ 63"
  shows "refines (fst (classify st (of_int p))) (fst (ideal_step a p))
    \<and> obs_status (snd (classify st (of_int p))) = fst (snd (ideal_step a p))
    \<and> uint (obs_missing_samples (snd (classify st (of_int p)))) = snd (snd (ideal_step a p))"
proof (cases a)
  case (Pair hi seen)
  show ?thesis
  proof (cases "hi < p")
    case True
    then show ?thesis using refines_forward [of st hi seen p] assms by (simp add: Pair)
  next
    case False
    then show ?thesis using refines_backward [of st hi seen p] assms
      by (auto simp: Pair make_observation_def insert_absorb)
  qed
qed

section \<open>Positions of a sequence number\<close>

text \<open>
  A 64-bit sequence number is read as the integer position nearest to the highest one seen
  (at most \<open>2 ^ 63\<close> behind it, less than \<open>2 ^ 63\<close> ahead), so a stream may wrap any number of times.
\<close>

fun unwrap :: "int \<Rightarrow> u64 list \<Rightarrow> int list" where
  "unwrap hi [] = []"
| "unwrap hi (n # ns) = (let p = hi + sint (n - of_int hi) in p # unwrap (max hi p) ns)"

fun positions :: "u64 list \<Rightarrow> int list" where
  "positions [] = []"
| "positions (n # ns) = uint n # unwrap (uint n) ns"

fun ideal_run :: "int list \<Rightarrow> (sequence_status \<times> int) list" where
  "ideal_run [] = []"
| "ideal_run (p # ps) = (First, 0) # snd (run_machine ideal_step (p, {p}) ps)"

definition verdict :: "sequence_observation \<Rightarrow> sequence_status \<times> int" where
  "verdict obs = (obs_status obs, uint (obs_missing_samples obs))"

lemma unwrap_near:
  "- (2 ^ 63) \<le> (hi + sint (n - of_int hi :: u64)) - hi \<and> (hi + sint (n - of_int hi :: u64)) - hi < 2 ^ 63"
  using sint_ge [of "n - of_int hi :: u64"] sint_lt [of "n - of_int hi :: u64"] by simp

lemma unwrap_position: "of_int (hi + sint (n - of_int hi :: u64)) = n"
  by simp

lemma ideal_step_highest: "fst (fst (ideal_step a p)) = max (fst a) p"
  by (cases a) (simp add: max_def)

lemma classify_run:
  assumes "refines st a"
  shows "map verdict (snd (run_machine classify st ns)) = snd (run_machine ideal_step a (unwrap (fst a) ns))"
  using assms
proof (induction ns arbitrary: st a)
  case (Cons n ns)
  define p where "p = fst a + sint (n - of_int (fst a) :: u64)"
  have n: "n = of_int p" by (simp add: p_def)
  have r: "refines (fst (classify st n)) (fst (ideal_step a p))"
    and v: "verdict (snd (classify st n)) = snd (ideal_step a p)"
    using ideal_refinement [OF Cons.prems, of p] unwrap_near [of "fst a" n]
    unfolding n [symmetric] p_def [symmetric] by (simp_all add: verdict_def prod_eq_iff)
  show ?case
    using Cons.IH [OF r] v by (simp add: ideal_step_highest flip: p_def)
qed simp

lemma refines_admitted: "refines \<lparr>st_source = src, st_highest_sequence = n, st_recent_sequences = 1\<rparr> (uint n, {uint n})"
  by (auto simp: refines_def bit_1_iff)

abbreviation stream_own where "stream_own \<equiv> own_step stream_admit stream_advance"

lemma stream_own_run:
  "snd (run_machine stream_own (Some st) ps) = snd (run_machine classify st (map rp_sequence_number ps))"
  by (induction ps arbitrary: st) (simp_all add: stream_advance_def split: prod.splits)

lemma stream_own_ideal:
  "map verdict (snd (run_machine stream_own None ps)) = ideal_run (positions (map rp_sequence_number ps))"
proof (cases ps)
  case (Cons p ps')
  have "map verdict (snd (run_machine stream_own (fst (stream_admit p)) ps'))
      = snd (run_machine ideal_step (uint (rp_sequence_number p), {uint (rp_sequence_number p)})
          (unwrap (uint (rp_sequence_number p)) (map rp_sequence_number ps')))"
    using classify_run [OF refines_admitted] by (simp add: stream_admit_def stream_own_run)
  then show ?thesis
    by (simp add: Cons stream_admit_def verdict_def make_observation_def)
qed simp

lemma turned_away:
  assumes "lookup st_source (fst (stream_table cap tab p)) (identify_sensor_source p) = None"
  shows "obs_status (snd (stream_table cap tab p)) = Untracked"
proof (cases "find_index (\<lambda>s. st_source s = identify_sensor_source p) tab")
  case None
  show ?thesis
  proof (cases "length tab < cap")
    case True
    with None assms show ?thesis
      using streams.observe_new [OF None True] by (simp add: stream_admit_def lookup_append split: option.splits)
  next
    case False
    with None show ?thesis by (simp add: stream_table_def observe_def make_observation_def Let_def)
  qed
next
  case (Some i)
  then have "lookup st_source tab (identify_sensor_source p) \<noteq> None" by (simp add: lookup_def)
  then show ?thesis using assms streams.lookup_mono by blast
qed

lemma turned_away_run:
  assumes "lookup st_source (fst (run_machine (stream_table cap) tab ps)) src = None"
    and "po \<in> set (zip ps (snd (run_machine (stream_table cap) tab ps)))"
    and "identify_sensor_source (fst po) = src"
  shows "obs_status (snd po) = Untracked"
  using assms(1,2)
proof (induction ps arbitrary: tab)
  case (Cons p ps)
  then have final: "lookup st_source (fst (run_machine (stream_table cap) (fst (stream_table cap tab p)) ps)) src = None"
    by simp
  then have "lookup st_source (fst (stream_table cap tab p)) src = None"
    using streams.run_lookup_mono by blast
  then show ?case using Cons.IH [OF final] Cons.prems(2) turned_away assms(3) by auto
qed simp

lemma observe_streams_observed:
  "sm_streams_observed (trk_metrics t) = of_nat (length (trk_sources t)) \<Longrightarrow>
   sm_streams_observed (trk_metrics (fst (observe t p))) = of_nat (length (trk_sources (fst (observe t p))))"
proof (cases "find_index (\<lambda>candidate. st_source candidate = identify_sensor_source p) (trk_sources t)")
  case None
  then show "sm_streams_observed (trk_metrics t) = of_nat (length (trk_sources t)) \<Longrightarrow> ?thesis"
    by (simp add: observe_def Let_def)
next
  case (Some i)
  then show "sm_streams_observed (trk_metrics t) = of_nat (length (trk_sources t)) \<Longrightarrow> ?thesis"
    using classify_status [of "trk_sources t ! i" "rp_sequence_number p"]
    unfolding observe_def Let_def observe_known_eq by (auto simp: case_prod_beta tally_def)
qed

section \<open>Properties\<close>

text \<open>What the tracker said about the packets of one source, in order.\<close>

definition observations_of ::
  "sensor_source \<Rightarrow> received_packet list \<Rightarrow> sequence_observation list \<Rightarrow> sequence_observation list" where
  "observations_of src ps obs =
     map snd (filter (\<lambda>po. identify_sensor_source (fst po) = src) (zip ps obs))"

lemma new_tracker_InrD:
  "new_tracker cap = Inr t \<Longrightarrow>
     0 < cap \<and> t = \<lparr>trk_max_sources = cap, trk_sources = [], trk_metrics = zero_stream_metrics\<rparr>"
  by (auto simp: new_tracker_def)

text \<open>Concrete packets: the sequence of \<open>docs/sensor-stream-tracking.md\<close>, with a second source
  interleaved that wraps around.\<close>

definition sample_packet :: "u16 \<Rightarrow> u64 \<Rightarrow> received_packet" where
  "sample_packet port n =
     \<lparr>rp_packet = \<lparr>pkt_header = \<lparr>hdr_magic = kPacketMagic,
        hdr_version = kProtocolVersion, hdr_message_type = kImu, hdr_sequence_number = n,
        hdr_source_timestamp_ns = 0, hdr_payload_length = 0, hdr_crc32 = 0\<rparr>, pkt_payload = []\<rparr>,
      rp_source = \<lparr>ep_address = ''127.0.0.1'', ep_port = port\<rparr>,
      rp_listener = \<lparr>ep_address = ''127.0.0.1'', ep_port = 9000\<rparr>, rp_receive_timestamp_ns = 0\<rparr>"

definition sample_packets :: "received_packet list" where
  "sample_packets = map (sample_packet 5) [1, 3, 3] @ [sample_packet 6 u64_max, sample_packet 6 1]
     @ map (sample_packet 5) [2, 6, 6, 4, 7, 8] @ [sample_packet 6 0]"

definition sample_tracker :: tracker where
  "sample_tracker = \<lparr>trk_max_sources = 2, trk_sources = [], trk_metrics = zero_stream_metrics\<rparr>"

lemma sample_tracker: "new_tracker 2 = Inr sample_tracker"
  by (simp add: new_tracker_def sample_tracker_def)

text \<open>C10. Whatever packets arrive, in whatever interleaving of sources, the tracker judges the
  packets of an admitted source exactly as a tracker with unbounded integers and an unbounded
  memory would: \<open>ideal_run\<close> over the positions nearest to the highest one seen. Wrap-around of the
  64-bit sequence number and the other sources do not matter, and the 64-bit bitmap loses nothing
  but the memory of numbers 64 or more behind.\<close>

theorem tracker_refines_ideal:
  assumes "new_tracker cap = Inr t"
    and "lookup st_source (trk_sources (fst (observe_all t ps))) src \<noteq> None"
  shows "map verdict (observations_of src ps (snd (observe_all t ps))) =
    ideal_run (positions (map rp_sequence_number (filter (\<lambda>p. identify_sensor_source p = src) ps)))"
proof -
  have t: "trk_max_sources t = cap" "trk_sources t = []"
    using new_tracker_InrD [OF assms(1)] by simp_all
  note run = observe_all_table [of t ps, unfolded t]
  have "observations_of src ps (snd (observe_all t ps))
      = snd (run_machine stream_own None (filter (\<lambda>p. identify_sensor_source p = src) ps))"
    using streams.projection [of cap "[]" ps src] assms(2) run
    by (simp add: observations_of_def prod_eq_iff)
  then show ?thesis by (simp add: stream_own_ideal)
qed

lemma tracker_refines_ideal_witness:
  "map verdict (observations_of (identify_sensor_source (sample_packet 5 0)) sample_packets
      (snd (observe_all sample_tracker sample_packets)))
    = [(First, 0), (Gap, 1), (Duplicate, 0), (Reordered, 0), (Gap, 2), (Duplicate, 0), (Reordered, 0),
       (InOrder, 0), (InOrder, 0)]
   \<and> map verdict (observations_of (identify_sensor_source (sample_packet 6 0)) sample_packets
      (snd (observe_all sample_tracker sample_packets))) = [(First, 0), (Gap, 1), (Reordered, 0)]"
proof -
  have admitted: "lookup st_source (trk_sources (fst (observe_all sample_tracker sample_packets)))
      (identify_sensor_source (sample_packet p 0)) \<noteq> None" if "p = 5 \<or> p = 6" for p
    using that by (elim disjE) (hypsubst, code_simp)+
  have "ideal_run (positions (map rp_sequence_number
      (filter (\<lambda>p. identify_sensor_source p = identify_sensor_source (sample_packet 5 0)) sample_packets)))
    = [(First, 0), (Gap, 1), (Duplicate, 0), (Reordered, 0), (Gap, 2), (Duplicate, 0), (Reordered, 0),
       (InOrder, 0), (InOrder, 0)]" by code_simp
  moreover have "ideal_run (positions (map rp_sequence_number
      (filter (\<lambda>p. identify_sensor_source p = identify_sensor_source (sample_packet 6 0)) sample_packets)))
    = [(First, 0), (Gap, 1), (Reordered, 0)]" by code_simp
  ultimately show ?thesis
    using tracker_refines_ideal [OF sample_tracker admitted] by simp
qed

text \<open>The metrics account for every packet: each counter is the number of returned observations
  with its status, every packet has exactly one status, and the inferred missing samples are the
  total of the gaps reported, saturated at the largest 64-bit value.\<close>

theorem stream_metrics_account:
  assumes "new_tracker cap = Inr t" and "observe_all t ps = (t', obs)"
  shows "trk_metrics t' =
      \<lparr>sm_streams_observed = of_nat (count_status First obs),
       sm_packets_observed = of_nat (length ps),
       sm_first_observations = of_nat (count_status First obs),
       sm_in_order_observations = of_nat (count_status InOrder obs),
       sm_gap_observations = of_nat (count_status Gap obs),
       sm_duplicate_observations = of_nat (count_status Duplicate obs),
       sm_reordered_observations = of_nat (count_status Reordered obs),
       sm_untracked_observations = of_nat (count_status Untracked obs),
       sm_missing_samples_inferred = of_nat (min (missing_total obs) (2 ^ 64 - 1))\<rparr>
    \<and> count_status First obs + count_status InOrder obs + count_status Gap obs
      + count_status Duplicate obs + count_status Reordered obs + count_status Untracked obs = length ps"
proof -
  have l: "length obs = length ps" using assms(2) by (metis length_run_machine observe_all_def snd_conv)
  show ?thesis
    using observe_all_metrics [of t ps] new_tracker_InrD [OF assms(1)] assms(2)
    by (simp add: tallied_def zero_stream_metrics_def saturated_total_def count_status_sum l)
qed

lemma stream_metrics_account_witness:
  "sm_missing_samples_inferred (trk_metrics (fst (observe_all sample_tracker sample_packets))) = 4"
proof -
  have "missing_total (snd (observe_all sample_tracker sample_packets)) = 4" by code_simp
  then show ?thesis
    using stream_metrics_account [OF sample_tracker, of sample_packets] by (simp add: prod_eq_iff)
qed

text \<open>The table of sources is bounded by the configured capacity and never holds a source
  twice, \<open>streams_observed\<close> is its size, and a source that is turned away because the table is
  full is judged \<open>Untracked\<close> for every packet.\<close>

theorem stream_table_bounded:
  assumes "new_tracker cap = Inr t" and "observe_all t ps = (t', obs)"
  shows "length (trk_sources t') \<le> cap \<and> distinct (map st_source (trk_sources t'))
    \<and> sm_streams_observed (trk_metrics t') = of_nat (length (trk_sources t'))
    \<and> (lookup st_source (trk_sources t') src = None \<longrightarrow>
        (\<forall>x \<in> set (observations_of src ps obs). obs_status x = Untracked))"
proof -
  have t: "trk_max_sources t = cap" "trk_sources t = []"
      "sm_streams_observed (trk_metrics t) = of_nat (length (trk_sources t))"
    using new_tracker_InrD [OF assms(1)] by (simp_all add: zero_stream_metrics_def)
  have run: "trk_sources t' = fst (run_machine (stream_table cap) [] ps)"
      "obs = snd (run_machine (stream_table cap) [] ps)"
    using observe_all_table [of t ps] t assms(2) by simp_all
  have "sm_streams_observed (trk_metrics t') = of_nat (length (trk_sources t'))"
    using run_machine_invariant [where P = "\<lambda>u. sm_streams_observed (trk_metrics u) = of_nat (length (trk_sources u))"
        and f = observe and t = t and es = ps, OF t(3) observe_streams_observed]
    unfolding observe_all_def [symmetric] assms(2) by (simp only: fst_conv)
  then show ?thesis
    using streams.run_bounded [of "[]" cap ps] streams.run_distinct [of "[]" cap ps]
      turned_away_run [of cap "[]" ps src]
    unfolding run(1) run(2) observations_of_def by auto
qed

lemma stream_table_bounded_witness:
  "length (trk_sources (fst (observe_all sample_tracker sample_packets))) \<le> 2
   \<and> sm_streams_observed (trk_metrics (fst (observe_all sample_tracker sample_packets))) = 2"
proof -
  have "length (trk_sources (fst (observe_all sample_tracker sample_packets))) = 2" by code_simp
  then show ?thesis
    using stream_table_bounded [OF sample_tracker, of sample_packets] by (simp add: prod_eq_iff)
qed

end
