(* ===== verification/Health_Monitor.thy ===== *)
theory Health_Monitor
  imports Stream_Tracker Ieee_Arith "HOL-Library.Char_ord" "HOL-Library.List_Lexorder"
    "HOL-Library.Product_Lexorder"
begin

text \<open>
  \<open>SourceHealthMonitor\<close> of \<open>src/src/runtime/source_health_monitor.cpp\<close>: the stream tracker, a
  bounded table of per-source measurements and the evaluation of a health status.

  Every public operation holds one mutex for its whole body, so a run is a sequence of
  operations (\<open>monitor_step\<close>). Struct fields: \<open>hc_\<close> for \<open>SourceHealthMonitorConfig\<close>, \<open>hs_\<close> for
  \<open>SourceState\<close>, \<open>snap_\<close> for \<open>SourceHealthSnapshot\<close>, \<open>rep_\<close> for the report, \<open>mon_\<close> for the
  monitor. Durations are signed 64-bit nanosecond counts, timestamps unsigned 64-bit.
\<close>

section \<open>Data\<close>

datatype source_health_status = StatusUnknown | Healthy | Degraded | Offline

datatype source_health_issue = PayloadRejected | QueueDropped

record health_config =
  hc_max_sources :: nat
  hc_healthy_after_packets :: u64
  hc_degraded_after :: "64 word"
  hc_offline_after :: "64 word"
  hc_recovery_after :: "64 word"

record health_state =
  hs_source :: sensor_source
  hs_recent_timestamps :: "u64 list"
  hs_recent_timestamp_count :: nat
  hs_next_timestamp_index :: nat
  hs_packets_received :: u64
  hs_first_receive_timestamp_ns :: u64
  hs_last_receive_timestamp_ns :: u64
  hs_latest_latency_ns :: u64
  hs_maximum_latency_ns :: u64
  hs_timestamp_anomalies :: u64
  hs_gap_observations :: u64
  hs_duplicate_observations :: u64
  hs_reordered_observations :: u64
  hs_missing_samples_inferred :: u64
  hs_payloads_rejected :: u64
  hs_packets_dropped_queue_full :: u64
  hs_healthy_packets_since_issue :: u64
  hs_last_issue_timestamp_ns :: u64
  hs_issue_seen :: bool

record health_snapshot =
  snap_source :: sensor_source
  snap_status :: source_health_status
  snap_packets_received :: u64
  snap_first_receive_timestamp_ns :: u64
  snap_last_receive_timestamp_ns :: u64
  snap_inactivity_ns :: u64
  snap_current_rate_hz :: float64
  snap_latest_latency_ns :: u64
  snap_maximum_latency_ns :: u64
  snap_timestamp_anomalies :: u64
  snap_gap_observations :: u64
  snap_duplicate_observations :: u64
  snap_reordered_observations :: u64
  snap_missing_samples_inferred :: u64
  snap_payloads_rejected :: u64
  snap_packets_dropped_queue_full :: u64

record health_report =
  rep_stream_metrics :: stream_metrics
  rep_sources :: "health_snapshot list"

record monitor =
  mon_config :: health_config
  mon_tracker :: tracker
  mon_sources :: "health_state list"

definition kRecentTimestampCapacity :: nat where "kRecentTimestampCapacity = 64"

text \<open>The double \<open>1'000'000'000.0\<close>.\<close>

definition kNanosecondsPerSecond :: float64 where "kNanosecondsPerSecond = Float64 0x41CDCD6500000000"

text \<open>\<open>SourceState{.source = source}\<close>: every other member value-initialised.\<close>

definition fresh_state :: "sensor_source \<Rightarrow> health_state" where
  "fresh_state source =
     \<lparr>hs_source = source, hs_recent_timestamps = replicate kRecentTimestampCapacity 0,
      hs_recent_timestamp_count = 0, hs_next_timestamp_index = 0, hs_packets_received = 0,
      hs_first_receive_timestamp_ns = 0, hs_last_receive_timestamp_ns = 0, hs_latest_latency_ns = 0,
      hs_maximum_latency_ns = 0, hs_timestamp_anomalies = 0, hs_gap_observations = 0,
      hs_duplicate_observations = 0, hs_reordered_observations = 0, hs_missing_samples_inferred = 0,
      hs_payloads_rejected = 0, hs_packets_dropped_queue_full = 0, hs_healthy_packets_since_issue = 0,
      hs_last_issue_timestamp_ns = 0, hs_issue_seen = False\<rparr>"

section \<open>Construction\<close>

definition duration_ns :: "64 word \<Rightarrow> u64" where "duration_ns d = d"

definition elapsed_or_zero :: "u64 \<Rightarrow> u64 \<Rightarrow> u64" where
  "elapsed_or_zero now from = (if now \<ge> from then now - from else 0)"

definition validate_config :: "health_config \<Rightarrow> health_config cpp" where
  "validate_config config =
     throw_if (hc_max_sources config = 0)
       (Invalid_argument ''source health monitor capacity must be greater than zero'')
     (throw_if (hc_healthy_after_packets config = 0)
       (Invalid_argument ''source health healthy packet count must be greater than zero'')
     (throw_if (sint (hc_degraded_after config) \<le> 0)
       (Invalid_argument ''source health degraded timeout must be greater than zero'')
     (throw_if (sint (hc_offline_after config) \<le> sint (hc_degraded_after config))
       (Invalid_argument ''source health offline timeout must exceed degraded timeout'')
     (throw_if (sint (hc_recovery_after config) \<le> 0)
       (Invalid_argument ''source health recovery duration must be greater than zero'')
     (Inr config)))))"

definition new_monitor :: "health_config \<Rightarrow> monitor cpp" where
  "new_monitor config =
     cbind (validate_config config) (\<lambda>config.
     cbind (new_tracker (hc_max_sources config)) (\<lambda>tracker.
     Inr \<lparr>mon_config = config, mon_tracker = tracker, mon_sources = []\<rparr>))"

section \<open>Recording\<close>

definition record_recent_timestamp :: "health_state \<Rightarrow> u64 \<Rightarrow> health_state" where
  "record_recent_timestamp s timestamp =
     s\<lparr>hs_recent_timestamps := (hs_recent_timestamps s)[hs_next_timestamp_index s := timestamp],
       hs_next_timestamp_index := (hs_next_timestamp_index s + 1) mod kRecentTimestampCapacity,
       hs_recent_timestamp_count := min (hs_recent_timestamp_count s + 1) kRecentTimestampCapacity\<rparr>"

definition record_latency :: "health_state \<Rightarrow> received_packet \<Rightarrow> health_state \<times> bool" where
  "record_latency s packet =
     (if rp_source_timestamp_ns packet > rp_receive_timestamp_ns packet then
        (s\<lparr>hs_latest_latency_ns := 0,
           hs_timestamp_anomalies := saturating_increment (hs_timestamp_anomalies s)\<rparr>, True)
      else
        (let latency = rp_receive_timestamp_ns packet - rp_source_timestamp_ns packet
         in (s\<lparr>hs_latest_latency_ns := latency,
               hs_maximum_latency_ns := max (hs_maximum_latency_ns s) latency\<rparr>, False)))"

definition mark_issue :: "health_state \<Rightarrow> u64 \<Rightarrow> health_state" where
  "mark_issue s timestamp =
     s\<lparr>hs_issue_seen := True,
       hs_last_issue_timestamp_ns := max (hs_last_issue_timestamp_ns s) timestamp,
       hs_healthy_packets_since_issue := 0\<rparr>"

definition record_packet ::
  "health_state \<Rightarrow> received_packet \<Rightarrow> sequence_observation \<Rightarrow> health_state" where
  "record_packet s packet observation =
     (let receive_timestamp = max (rp_receive_timestamp_ns packet) (hs_last_receive_timestamp_ns s);
          s = (if hs_packets_received s = 0
               then s\<lparr>hs_first_receive_timestamp_ns := receive_timestamp\<rparr> else s);
          s = s\<lparr>hs_last_receive_timestamp_ns := receive_timestamp,
                hs_packets_received := saturating_increment (hs_packets_received s)\<rparr>;
          s = record_recent_timestamp s receive_timestamp;
          (s, packet_has_issue) = record_latency s packet;
          finish = (\<lambda>(s, issue). if issue then mark_issue s receive_timestamp
            else s\<lparr>hs_healthy_packets_since_issue :=
                     saturating_increment (hs_healthy_packets_since_issue s)\<rparr>)
      in case obs_status observation of
        First \<Rightarrow> finish (s, packet_has_issue)
      | InOrder \<Rightarrow> finish (s, packet_has_issue)
      | Gap \<Rightarrow> finish (s\<lparr>hs_gap_observations := saturating_increment (hs_gap_observations s),
                hs_missing_samples_inferred := saturating_add (hs_missing_samples_inferred s)
                  (obs_missing_samples observation)\<rparr>, True)
      | Duplicate \<Rightarrow> finish (s\<lparr>hs_duplicate_observations :=
                saturating_increment (hs_duplicate_observations s)\<rparr>, True)
      | Reordered \<Rightarrow> finish (s\<lparr>hs_reordered_observations :=
                saturating_increment (hs_reordered_observations s)\<rparr>, True)
      | Untracked \<Rightarrow> s)"

definition find_source :: "health_state list \<Rightarrow> sensor_source \<Rightarrow> nat option" where
  "find_source sources source = find_index (\<lambda>candidate. hs_source candidate = source) sources"

definition observe_packet :: "monitor \<Rightarrow> received_packet \<Rightarrow> monitor \<times> sequence_observation" where
  "observe_packet mon packet =
     (let (tracker, observation) = observe (mon_tracker mon) packet;
          mon = mon\<lparr>mon_tracker := tracker\<rparr>
      in if obs_status observation = Untracked then (mon, observation)
         else (let source = identify_sensor_source packet;
                   (sources, i) = (case find_source (mon_sources mon) source of
                     None \<Rightarrow> (mon_sources mon @ [fresh_state source], length (mon_sources mon))
                   | Some i \<Rightarrow> (mon_sources mon, i))
               in (mon\<lparr>mon_sources := sources[i := record_packet (sources ! i) packet observation]\<rparr>,
                   observation)))"

definition apply_issue :: "health_state \<Rightarrow> received_packet \<Rightarrow> source_health_issue \<Rightarrow> health_state" where
  "apply_issue s packet issue =
     mark_issue (case issue of
         PayloadRejected \<Rightarrow> s\<lparr>hs_payloads_rejected := saturating_increment (hs_payloads_rejected s)\<rparr>
       | QueueDropped \<Rightarrow> s\<lparr>hs_packets_dropped_queue_full :=
           saturating_increment (hs_packets_dropped_queue_full s)\<rparr>)
       (rp_receive_timestamp_ns packet)"

definition observe_issue :: "monitor \<Rightarrow> received_packet \<Rightarrow> source_health_issue \<Rightarrow> monitor" where
  "observe_issue mon packet issue =
     (case find_source (mon_sources mon) (identify_sensor_source packet) of
        None \<Rightarrow> mon
      | Some i \<Rightarrow> mon\<lparr>mon_sources := (mon_sources mon)
          [i := apply_issue (mon_sources mon ! i) packet issue]\<rparr>)"

section \<open>Reporting\<close>

definition current_rate_hz :: "health_state \<Rightarrow> float64" where
  "current_rate_hz s =
     (if hs_recent_timestamp_count s < 2 then Float64 0
      else
        (let oldest_index = (if hs_recent_timestamp_count s < kRecentTimestampCapacity then 0
               else hs_next_timestamp_index s);
             newest_index = (hs_next_timestamp_index s + kRecentTimestampCapacity - 1)
               mod kRecentTimestampCapacity;
             elapsed = hs_recent_timestamps s ! newest_index - hs_recent_timestamps s ! oldest_index
         in if elapsed = 0 then Float64 0
            else (let intervals = hs_recent_timestamp_count s - 1
                  in f64_divide (f64_times (f64_of_u64 (of_nat intervals)) kNanosecondsPerSecond)
                       (f64_of_u64 elapsed))))"

definition evaluate_status :: "health_config \<Rightarrow> health_state \<Rightarrow> u64 \<Rightarrow> source_health_status" where
  "evaluate_status config s now =
     (let inactivity = elapsed_or_zero now (hs_last_receive_timestamp_ns s) in
      if inactivity \<ge> duration_ns (hc_offline_after config) then Offline
      else if inactivity \<ge> duration_ns (hc_degraded_after config) then Degraded
      else if hs_issue_seen s \<and>
          (elapsed_or_zero now (hs_last_issue_timestamp_ns s) < duration_ns (hc_recovery_after config)
           \<or> hs_healthy_packets_since_issue s < hc_healthy_after_packets config) then Degraded
      else if hs_packets_received s < hc_healthy_after_packets config then StatusUnknown
      else Healthy)"

definition make_snapshot :: "health_config \<Rightarrow> health_state \<Rightarrow> u64 \<Rightarrow> health_snapshot" where
  "make_snapshot config s now =
     \<lparr>snap_source = hs_source s, snap_status = evaluate_status config s now,
      snap_packets_received = hs_packets_received s,
      snap_first_receive_timestamp_ns = hs_first_receive_timestamp_ns s,
      snap_last_receive_timestamp_ns = hs_last_receive_timestamp_ns s,
      snap_inactivity_ns = elapsed_or_zero now (hs_last_receive_timestamp_ns s),
      snap_current_rate_hz = current_rate_hz s,
      snap_latest_latency_ns = hs_latest_latency_ns s,
      snap_maximum_latency_ns = hs_maximum_latency_ns s,
      snap_timestamp_anomalies = hs_timestamp_anomalies s,
      snap_gap_observations = hs_gap_observations s,
      snap_duplicate_observations = hs_duplicate_observations s,
      snap_reordered_observations = hs_reordered_observations s,
      snap_missing_samples_inferred = hs_missing_samples_inferred s,
      snap_payloads_rejected = hs_payloads_rejected s,
      snap_packets_dropped_queue_full = hs_packets_dropped_queue_full s\<rparr>"

text \<open>The sort key of the report: characters compare as bytes, the addresses being dotted decimal
  text.\<close>

type_synonym snapshot_key = "string \<times> nat \<times> string \<times> nat \<times> nat"

definition snapshot_key :: "sensor_source \<Rightarrow> snapshot_key" where
  "snapshot_key src =
     (ep_address (src_remote_endpoint src), unat (ep_port (src_remote_endpoint src)),
      ep_address (src_listener_endpoint src), unat (ep_port (src_listener_endpoint src)),
      unat (raw_type (src_message_type src)))"

definition health_report_of :: "monitor \<Rightarrow> u64 \<Rightarrow> health_report" where
  "health_report_of mon now =
     \<lparr>rep_stream_metrics = trk_metrics (mon_tracker mon),
      rep_sources = sort_key (\<lambda>value. snapshot_key (snap_source value))
        (map (\<lambda>state. make_snapshot (mon_config mon) state now) (mon_sources mon))\<rparr>"

definition health_status_to_string :: "source_health_status \<Rightarrow> string" where
  "health_status_to_string status = (case status of
      StatusUnknown \<Rightarrow> ''UNKNOWN'' | Healthy \<Rightarrow> ''HEALTHY'' | Degraded \<Rightarrow> ''DEGRADED'' | Offline \<Rightarrow> ''OFFLINE'')"

section \<open>Runs\<close>

datatype monitor_event = Arrival received_packet | Problem received_packet source_health_issue

fun monitor_step :: "monitor \<Rightarrow> monitor_event \<Rightarrow> monitor \<times> sequence_observation option" where
  "monitor_step mon (Arrival p) = (let (mon', obs) = observe_packet mon p in (mon', Some obs))"
| "monitor_step mon (Problem p issue) = (observe_issue mon p issue, None)"

fun event_source :: "monitor_event \<Rightarrow> sensor_source" where
  "event_source (Arrival p) = identify_sensor_source p"
| "event_source (Problem p issue) = identify_sensor_source p"

lemma record_packet_source [simp]: "hs_source (record_packet s p obs) = hs_source s"
  by (simp add: record_packet_def record_recent_timestamp_def record_latency_def mark_issue_def Let_def
      split: sequence_status.split)

lemma apply_issue_source [simp]: "hs_source (apply_issue s p issue) = hs_source s"
  by (simp add: apply_issue_def mark_issue_def split: source_health_issue.split)

text \<open>The two tables hold the same sources in the same order.\<close>

definition consistent :: "monitor \<Rightarrow> bool" where
  "consistent mon \<longleftrightarrow> map st_source (trk_sources (mon_tracker mon)) = map hs_source (mon_sources mon)"

lemma consistent_find:
  assumes "consistent mon"
  shows "find_source (mon_sources mon) src =
    find_index (\<lambda>candidate. st_source candidate = src) (trk_sources (mon_tracker mon))"
proof -
  have "find_index (\<lambda>k. k = src) (map hs_source (mon_sources mon)) =
    find_index (\<lambda>k. k = src) (map st_source (trk_sources (mon_tracker mon)))"
    using assms by (simp add: consistent_def)
  then show ?thesis by (simp add: find_source_def find_index_map comp_def)
qed

text \<open>The effect of an arrival on consistent tables, by the three cases of the tracker.\<close>

lemma observe_packet_known:
  assumes "consistent mon"
    and i: "find_source (mon_sources mon) (identify_sensor_source p) = Some i"
  defines "c \<equiv> classify (trk_sources (mon_tracker mon) ! i) (rp_sequence_number p)"
  shows "trk_sources (mon_tracker (fst (observe_packet mon p))) = (trk_sources (mon_tracker mon))[i := fst c]"
    and "mon_sources (fst (observe_packet mon p)) =
      (mon_sources mon)[i := record_packet (mon_sources mon ! i) p (snd c)]"
    and "snd (observe_packet mon p) = snd c"
proof -
  have f: "find_index (\<lambda>candidate. st_source candidate = identify_sensor_source p)
      (trk_sources (mon_tracker mon)) = Some i"
    using i by (simp add: consistent_find [OF assms(1)])
  have u: "obs_status (snd c) \<noteq> Untracked"
    using classify_status [of "trk_sources (mon_tracker mon) ! i" "rp_sequence_number p"]
    by (auto simp: c_def)
  have o: "snd (observe (mon_tracker mon) p) = snd c"
      "trk_sources (fst (observe (mon_tracker mon) p)) = (trk_sources (mon_tracker mon))[i := fst c]"
    unfolding observe_def Let_def observe_known_eq by (simp_all add: f c_def case_prod_beta)
  show "trk_sources (mon_tracker (fst (observe_packet mon p))) = (trk_sources (mon_tracker mon))[i := fst c]"
    "mon_sources (fst (observe_packet mon p)) =
      (mon_sources mon)[i := record_packet (mon_sources mon ! i) p (snd c)]"
    "snd (observe_packet mon p) = snd c"
    using u o i by (simp_all add: observe_packet_def Let_def case_prod_beta)
qed

lemma observe_packet_unknown:
  assumes "consistent mon"
    and none: "find_source (mon_sources mon) (identify_sensor_source p) = None"
  shows "length (trk_sources (mon_tracker mon)) < trk_max_sources (mon_tracker mon) \<Longrightarrow>
      trk_sources (mon_tracker (fst (observe_packet mon p))) =
        trk_sources (mon_tracker mon) @ [the (fst (stream_admit p))]
      \<and> mon_sources (fst (observe_packet mon p)) = mon_sources mon @
        [record_packet (fresh_state (identify_sensor_source p)) p (snd (stream_admit p))]
      \<and> snd (observe_packet mon p) = snd (stream_admit p)"
    and "trk_max_sources (mon_tracker mon) \<le> length (trk_sources (mon_tracker mon)) \<Longrightarrow>
      trk_sources (mon_tracker (fst (observe_packet mon p))) = trk_sources (mon_tracker mon)
      \<and> mon_sources (fst (observe_packet mon p)) = mon_sources mon
      \<and> obs_status (snd (observe_packet mon p)) = Untracked"
proof -
  have f: "find_index (\<lambda>candidate. st_source candidate = identify_sensor_source p)
      (trk_sources (mon_tracker mon)) = None"
    using none by (simp add: consistent_find [OF assms(1)])
  show "length (trk_sources (mon_tracker mon)) < trk_max_sources (mon_tracker mon) \<Longrightarrow>
      trk_sources (mon_tracker (fst (observe_packet mon p))) =
        trk_sources (mon_tracker mon) @ [the (fst (stream_admit p))]
      \<and> mon_sources (fst (observe_packet mon p)) = mon_sources mon @
        [record_packet (fresh_state (identify_sensor_source p)) p (snd (stream_admit p))]
      \<and> snd (observe_packet mon p) = snd (stream_admit p)"
    using none by (simp add: observe_packet_def observe_def f Let_def stream_admit_def make_observation_def)
  show "trk_max_sources (mon_tracker mon) \<le> length (trk_sources (mon_tracker mon)) \<Longrightarrow>
      trk_sources (mon_tracker (fst (observe_packet mon p))) = trk_sources (mon_tracker mon)
      \<and> mon_sources (fst (observe_packet mon p)) = mon_sources mon
      \<and> obs_status (snd (observe_packet mon p)) = Untracked"
    by (simp add: observe_packet_def observe_def f Let_def make_observation_def)
qed

lemma stream_admit_source [simp]: "st_source (the (fst (stream_admit p))) = identify_sensor_source p"
  by (simp add: stream_admit_def)

lemma fresh_state_source [simp]: "hs_source (fresh_state src) = src"
  by (simp add: fresh_state_def)

lemma observe_packet_max [simp]:
  "trk_max_sources (mon_tracker (fst (observe_packet mon p))) = trk_max_sources (mon_tracker mon)"
  by (simp add: observe_packet_def Let_def case_prod_beta)

lemma observe_packet_config [simp]: "mon_config (fst (observe_packet mon p)) = mon_config mon"
  by (simp add: observe_packet_def Let_def case_prod_beta)

lemma observe_issue_frame [simp]:
  "mon_tracker (observe_issue mon p issue) = mon_tracker mon"
  "mon_config (observe_issue mon p issue) = mon_config mon"
  by (simp_all add: observe_issue_def split: option.split)

lemma map_update_same: "i < length xs \<Longrightarrow> f x = f (xs ! i) \<Longrightarrow> map f (xs[i := x]) = map f xs"
  by (simp add: map_update list_update_same_conv)

lemma consistent_observe_packet:
  assumes "consistent mon" shows "consistent (fst (observe_packet mon p))"
proof (cases "find_source (mon_sources mon) (identify_sensor_source p)")
  case None
  then show ?thesis
    using observe_packet_unknown [OF assms None] assms
    by (cases "length (trk_sources (mon_tracker mon)) < trk_max_sources (mon_tracker mon)")
      (simp_all add: consistent_def)
next
  case (Some i)
  have i: "i < length (mon_sources mon)"
    using Some by (auto simp: find_source_def dest: find_index_SomeD)
  moreover have "length (mon_sources mon) = length (trk_sources (mon_tracker mon))"
    using assms by (metis consistent_def length_map)
  ultimately show ?thesis
    using assms by (simp add: consistent_def observe_packet_known [OF assms Some] map_update_same)
qed

lemma consistent_observe_issue:
  "consistent mon \<Longrightarrow> consistent (observe_issue mon p issue)"
  by (auto simp: consistent_def observe_issue_def find_source_def map_update_same
      split: option.split dest!: find_index_SomeD)

lemma consistent_step: "consistent mon \<Longrightarrow> consistent (fst (monitor_step mon ev))"
  by (cases ev) (simp_all add: consistent_observe_packet consistent_observe_issue case_prod_beta)

lemma monitor_step_max [simp]:
  "trk_max_sources (mon_tracker (fst (monitor_step mon ev))) = trk_max_sources (mon_tracker mon)"
  by (cases ev) (simp_all add: case_prod_beta)

lemma monitor_step_config [simp]: "mon_config (fst (monitor_step mon ev)) = mon_config mon"
  by (cases ev) (simp_all add: case_prod_beta)

section \<open>The monitor as a table of independent sources\<close>

text \<open>An entry joins the sequence state and the health state of a source.\<close>

type_synonym health_entry = "(u64 \<times> u64) \<times> health_state"

definition entry :: "source_state \<Rightarrow> health_state \<Rightarrow> health_entry" where
  "entry st hs = ((st_highest_sequence st, st_recent_sequences st), hs)"

definition entry_tracker :: "health_entry \<Rightarrow> source_state" where
  "entry_tracker e = \<lparr>st_source = hs_source (snd e), st_highest_sequence = fst (fst e),
     st_recent_sequences = snd (fst e)\<rparr>"

definition entry_key :: "health_entry \<Rightarrow> sensor_source" where "entry_key e = hs_source (snd e)"

definition entries :: "monitor \<Rightarrow> health_entry list" where
  "entries mon = map2 entry (trk_sources (mon_tracker mon)) (mon_sources mon)"

definition of_entries :: "health_config \<Rightarrow> nat \<Rightarrow> health_entry list \<Rightarrow> monitor" where
  "of_entries cfg cap tab =
     \<lparr>mon_config = cfg, mon_tracker = \<lparr>trk_max_sources = cap, trk_sources = map entry_tracker tab,
        trk_metrics = zero_stream_metrics\<rparr>, mon_sources = map snd tab\<rparr>"

fun health_admit :: "monitor_event \<Rightarrow> health_entry option \<times> sequence_observation option" where
  "health_admit (Arrival p) =
     (Some (entry (the (fst (stream_admit p)))
        (record_packet (fresh_state (identify_sensor_source p)) p (snd (stream_admit p)))),
      Some (snd (stream_admit p)))"
| "health_admit (Problem p issue) = (None, None)"

fun health_advance :: "health_entry \<Rightarrow> monitor_event \<Rightarrow> health_entry \<times> sequence_observation option" where
  "health_advance e (Arrival p) =
     (let c = classify (entry_tracker e) (rp_sequence_number p)
      in (entry (fst c) (record_packet (snd e) p (snd c)), Some (snd c)))"
| "health_advance e (Problem p issue) = ((fst e, apply_issue (snd e) p issue), None)"

definition health_table ::
  "health_config \<Rightarrow> nat \<Rightarrow> health_entry list \<Rightarrow> monitor_event \<Rightarrow> health_entry list \<times> sequence_observation option"
where
  "health_table cfg cap tab ev =
     (let (mon, out) = monitor_step (of_entries cfg cap tab) ev in (entries mon, out))"

lemma entry_tracker_entry: "st_source st = hs_source hs \<Longrightarrow> entry_tracker (entry st hs) = st"
  by (simp add: entry_tracker_def entry_def)

lemma entry_entry_tracker [simp]: "entry (entry_tracker e) (snd e) = e"
  by (simp add: entry_tracker_def entry_def)

lemma entries_of_entries [simp]: "entries (of_entries cfg cap tab) = tab"
  by (simp add: entries_def of_entries_def zip_map_map comp_def zip_same_conv_map)

lemma consistent_of_entries [simp]: "consistent (of_entries cfg cap tab)"
  by (simp add: consistent_def of_entries_def entry_tracker_def)

lemma of_entries_entries:
  assumes "consistent mon"
  shows "map entry_tracker (entries mon) = trk_sources (mon_tracker mon)"
    and "map snd (entries mon) = mon_sources mon"
proof -
  have "list_all2 (\<lambda>st hs. st_source st = hs_source hs) (trk_sources (mon_tracker mon)) (mon_sources mon)"
    using assms by (simp add: consistent_def list_all2_conv_all_nth list_eq_iff_nth_eq)
  then have "map entry_tracker (entries mon) = trk_sources (mon_tracker mon)
      \<and> map snd (entries mon) = mon_sources mon"
    unfolding entries_def
    by (induction rule: list_all2_induct) (simp_all add: entry_tracker_entry, simp add: entry_def)
  then show "map entry_tracker (entries mon) = trk_sources (mon_tracker mon)"
    "map snd (entries mon) = mon_sources mon" by auto
qed

lemma find_of_entries:
  "find_source (mon_sources (of_entries cfg cap tab)) src = find_index (\<lambda>e. entry_key e = src) tab"
  by (simp add: find_source_def of_entries_def find_index_map comp_def entry_key_def)

lemma entries_update:
  "entries mon = tab \<Longrightarrow> map2 entry ((trk_sources (mon_tracker mon))[i := st]) ((mon_sources mon)[i := hs])
     = tab[i := entry st hs]"
  by (auto simp: entries_def zip_update map_update)

interpretation health: keyed_table entry_key event_source health_admit health_advance
  cap "health_table cfg cap" for cap cfg
proof
  show "fst (health_admit ev) = Some s \<Longrightarrow> entry_key s = event_source ev" for ev s
    by (cases ev) (auto simp: entry_key_def entry_def)
  show "entry_key (fst (health_advance s ev)) = entry_key s" for s ev
    by (cases ev) (simp_all add: entry_key_def entry_def Let_def)
next
  fix ev tab i
  let ?m = "of_entries cfg cap tab"
  assume f: "find_index (\<lambda>s. entry_key s = event_source ev) tab = Some i"
  then have i: "i < length tab" by (auto dest: find_index_SomeD)
  have f': "find_source (mon_sources ?m) (event_source ev) = Some i" by (simp add: find_of_entries f)
  have nth: "trk_sources (mon_tracker ?m) ! i = entry_tracker (tab ! i)" "mon_sources ?m ! i = snd (tab ! i)"
    using i by (simp_all add: of_entries_def)
  have upd: "map2 entry ((trk_sources (mon_tracker ?m))[i := st]) ((mon_sources ?m)[i := hs]) = tab[i := entry st hs]"
    for st hs using entries_update [OF entries_of_entries] .
  show "health_table cfg cap tab ev = (tab[i := fst (health_advance (tab ! i) ev)], snd (health_advance (tab ! i) ev))"
  proof (cases ev)
    case (Arrival p)
    then show ?thesis
      using observe_packet_known [OF consistent_of_entries, of cfg cap tab p i] f' upd
      by (simp add: health_table_def case_prod_beta entries_def nth Let_def)
  next
    case (Problem p issue)
    have "trk_sources (mon_tracker ?m) = (trk_sources (mon_tracker ?m))[i := trk_sources (mon_tracker ?m) ! i]"
      by simp
    then have "map2 entry (trk_sources (mon_tracker ?m)) ((mon_sources ?m)[i := hs])
        = tab[i := entry (entry_tracker (tab ! i)) hs]" for hs
      using upd nth by metis
    then show ?thesis
      using f' by (simp add: Problem health_table_def entries_def observe_issue_def nth entry_def
          entry_tracker_def)
  qed
next
  fix ev tab
  let ?m = "of_entries cfg cap tab"
  assume f: "find_index (\<lambda>s. entry_key s = event_source ev) tab = None"
  then have f': "find_source (mon_sources ?m) (event_source ev) = None" by (simp add: find_of_entries)
  have len: "length (trk_sources (mon_tracker ?m)) = length tab" "trk_max_sources (mon_tracker ?m) = cap"
    by (simp_all add: of_entries_def)
  have same: "map2 entry (trk_sources (mon_tracker ?m)) (mon_sources ?m) = tab"
    using entries_of_entries by (simp add: entries_def)
  show "health_table cfg cap tab ev =
      (case fst (health_admit ev) of None \<Rightarrow> tab | Some s \<Rightarrow> tab @ [s], snd (health_admit ev))"
    if "length tab < cap"
  proof (cases ev)
    case (Arrival p)
    then show ?thesis
      using observe_packet_unknown(1) [OF consistent_of_entries, of cfg cap tab p] f' that same
      by (simp add: health_table_def case_prod_beta entries_def len of_entries_def)
  next
    case (Problem p issue)
    then show ?thesis using f' by (simp add: health_table_def observe_issue_def)
  qed
  show "fst (health_table cfg cap tab ev) = tab" if "cap \<le> length tab"
  proof (cases ev)
    case (Arrival p)
    then show ?thesis
      using observe_packet_unknown(2) [OF consistent_of_entries, of cfg cap tab p] f' that same
      by (simp add: health_table_def case_prod_beta entries_def len)
  next
    case (Problem p issue)
    then show ?thesis using f' by (simp add: health_table_def observe_issue_def)
  qed
qed

end
