(* ===== verification/Worker_Pipeline.thy ===== *)
theory Worker_Pipeline
  imports Received Sample_Processor "HOL-Library.Multiset"
begin

text \<open>
  \<open>WorkerPipeline\<close> of \<open>src/src/runtime/worker_pipeline.cpp\<close>: a bounded FIFO queue drained by a
  fixed set of threads.

  Each critical section of \<open>state_mutex_\<close> is one atomic operation on the state (\<open>try_submit\<close>,
  \<open>request_stop\<close>, \<open>worker_check\<close>, \<open>worker_finish\<close>); what happens outside the mutex is a separate
  step: the \<open>notify_one\<close> of an accepted submission, the \<open>notify_all\<close> of a stop, the processor call
  (a worker that is \<open>Running\<close> a packet), and wake-ups that no notification caused, which the
  language permits. \<open>pipeline_step\<close> is the interleaving of all threads. \<open>lifecycle_mutex_\<close> makes
  calls of \<open>stop\<close> exclusive: there is one \<open>stopper\<close>.

  Fields: \<open>wc_\<close> for \<open>WorkerPipelineConfig\<close>, \<open>wm_\<close> for \<open>WorkerPipelineMetrics\<close>, \<open>wp_\<close> for the pipeline.
\<close>

section \<open>Data\<close>

record pipeline_config =
  wc_worker_count :: nat
  wc_queue_capacity :: nat

datatype submit_result = Accepted | QueueFull | Stopped

record pipeline_metrics =
  wm_packets_submitted :: u64
  wm_packets_processed :: u64
  wm_packets_dropped_queue_full :: u64
  wm_packets_rejected_stopped :: u64
  wm_handler_failures :: u64
  wm_queue_high_watermark :: nat

text \<open>Where a worker thread is: about to lock and test the wait predicate, asleep on the condition
  variable, calling the processor, or returned from \<open>worker_loop\<close>.\<close>

datatype worker_state = Ready | Asleep | Running received_packet | Exited

text \<open>Where the thread inside \<open>stop\<close> is.\<close>

datatype stopper_state = NoStop | BeforeNotifyAll | Joining

record pipeline =
  wp_queue_capacity :: nat
  wp_queue :: "received_packet list"
  wp_accepting :: bool
  wp_stop_requested :: bool
  wp_metrics :: pipeline_metrics
  wp_workers :: "worker_state list"
  wp_pending_notify :: nat
  wp_stopper :: stopper_state

datatype check_result = Slept | Took received_packet | Left | Again

definition zero_pipeline_metrics :: pipeline_metrics where
  "zero_pipeline_metrics = \<lparr>wm_packets_submitted = 0, wm_packets_processed = 0,
     wm_packets_dropped_queue_full = 0, wm_packets_rejected_stopped = 0, wm_handler_failures = 0,
     wm_queue_high_watermark = 0\<rparr>"

section \<open>Operations\<close>

text \<open>\<open>Impl::Impl\<close>: the third argument tells whether the processor is not empty.\<close>

definition new_pipeline :: "pipeline_config \<Rightarrow> bool \<Rightarrow> pipeline cpp" where
  "new_pipeline config has_processor =
     throw_if (wc_worker_count config = 0) (Invalid_argument ''worker count must be greater than zero'')
     (throw_if (wc_queue_capacity config = 0) (Invalid_argument ''worker queue capacity must be greater than zero'')
     (throw_if (\<not> has_processor) (Invalid_argument ''packet processor must not be empty'')
     (Inr \<lparr>wp_queue_capacity = wc_queue_capacity config, wp_queue = [], wp_accepting = True,
           wp_stop_requested = False, wp_metrics = zero_pipeline_metrics,
           wp_workers = replicate (wc_worker_count config) Ready, wp_pending_notify = 0,
           wp_stopper = NoStop\<rparr>)))"

definition try_submit :: "pipeline \<Rightarrow> received_packet \<Rightarrow> pipeline \<times> submit_result" where
  "try_submit s packet =
     (let m = wp_metrics s in
      if \<not> wp_accepting s then
        (s\<lparr>wp_metrics := m\<lparr>wm_packets_rejected_stopped := wm_packets_rejected_stopped m + 1\<rparr>\<rparr>, Stopped)
      else if length (wp_queue s) \<ge> wp_queue_capacity s then
        (s\<lparr>wp_metrics := m\<lparr>wm_packets_dropped_queue_full := wm_packets_dropped_queue_full m + 1\<rparr>\<rparr>, QueueFull)
      else
        (let queue = wp_queue s @ [packet]
         in (s\<lparr>wp_queue := queue,
               wp_metrics := m\<lparr>wm_packets_submitted := wm_packets_submitted m + 1,
                 wm_queue_high_watermark := max (wm_queue_high_watermark m) (length queue)\<rparr>,
               wp_pending_notify := wp_pending_notify s + 1\<rparr>, Accepted)))"

definition request_stop :: "pipeline \<Rightarrow> pipeline" where
  "request_stop s = s\<lparr>wp_accepting := False, wp_stop_requested := True, wp_stopper := BeforeNotifyAll\<rparr>"

definition set_worker :: "pipeline \<Rightarrow> nat \<Rightarrow> worker_state \<Rightarrow> pipeline" where
  "set_worker s i w = s\<lparr>wp_workers := (wp_workers s)[i := w]\<rparr>"

text \<open>\<open>notify_one\<close> wakes some sleeping worker, or nobody when none sleeps.\<close>

definition notify_one :: "pipeline \<Rightarrow> nat option \<Rightarrow> pipeline" where
  "notify_one s who =
     (let s = s\<lparr>wp_pending_notify := wp_pending_notify s - 1\<rparr>
      in case who of None \<Rightarrow> s | Some i \<Rightarrow> set_worker s i Ready)"

definition notify_all :: "pipeline \<Rightarrow> pipeline" where
  "notify_all s = s\<lparr>wp_workers := map (\<lambda>w. if w = Asleep then Ready else w) (wp_workers s),
     wp_stopper := Joining\<rparr>"

text \<open>The critical section at the head of \<open>worker_loop\<close>: the predicate of \<open>wait\<close>, then the pop.\<close>

definition worker_check :: "pipeline \<Rightarrow> nat \<Rightarrow> pipeline \<times> check_result" where
  "worker_check s i =
     (if \<not> (wp_stop_requested s \<or> wp_queue s \<noteq> []) then (set_worker s i Asleep, Slept)
      else case wp_queue s of
        [] \<Rightarrow> if wp_stop_requested s then (set_worker s i Exited, Left) else (s, Again)
      | packet # rest \<Rightarrow> (set_worker (s\<lparr>wp_queue := rest\<rparr>) i (Running packet), Took packet))"

text \<open>The processor returned or threw; both outcomes are counted under the mutex.\<close>

definition worker_finish :: "pipeline \<Rightarrow> nat \<Rightarrow> handler_result \<Rightarrow> pipeline" where
  "worker_finish s i outcome =
     (let m = wp_metrics s;
          m = (case outcome of
                 Returned \<Rightarrow> m\<lparr>wm_packets_processed := wm_packets_processed m + 1\<rparr>
               | Threw \<Rightarrow> m\<lparr>wm_handler_failures := wm_handler_failures m + 1\<rparr>)
      in set_worker (s\<lparr>wp_metrics := m\<rparr>) i Ready)"

text \<open>\<open>join_workers\<close> returns when every worker has returned; then \<open>stop\<close> reads the metrics.\<close>

definition all_exited :: "pipeline \<Rightarrow> bool" where
  "all_exited s \<longleftrightarrow> (\<forall>w \<in> set (wp_workers s). w = Exited)"

section \<open>Interleaving\<close>

datatype action =
    Submit received_packet submit_result
  | NotifyOne "nat option"
  | Check nat check_result
  | Finish nat received_packet handler_result
  | Spurious nat
  | RequestStop
  | NotifyAll
  | StopReturn pipeline_metrics

abbreviation worker_at :: "pipeline \<Rightarrow> nat \<Rightarrow> worker_state \<Rightarrow> bool" where
  "worker_at s i w \<equiv> i < length (wp_workers s) \<and> wp_workers s ! i = w"

inductive pipeline_step :: "pipeline \<Rightarrow> action \<Rightarrow> pipeline \<Rightarrow> bool" where
  submit: "try_submit s p = (t, r) \<Longrightarrow> pipeline_step s (Submit p r) t"
| notify: "0 < wp_pending_notify s \<Longrightarrow> worker_at s i Asleep \<Longrightarrow>
     pipeline_step s (NotifyOne (Some i)) (notify_one s (Some i))"
| notify_nobody: "0 < wp_pending_notify s \<Longrightarrow> Asleep \<notin> set (wp_workers s) \<Longrightarrow>
     pipeline_step s (NotifyOne None) (notify_one s None)"
| check: "worker_at s i Ready \<Longrightarrow> worker_check s i = (t, r) \<Longrightarrow> pipeline_step s (Check i r) t"
| finish: "worker_at s i (Running p) \<Longrightarrow> pipeline_step s (Finish i p outcome) (worker_finish s i outcome)"
| spurious: "worker_at s i Asleep \<Longrightarrow> pipeline_step s (Spurious i) (set_worker s i Ready)"
| request: "wp_stopper s = NoStop \<Longrightarrow> pipeline_step s RequestStop (request_stop s)"
| notify_everybody: "wp_stopper s = BeforeNotifyAll \<Longrightarrow> pipeline_step s NotifyAll (notify_all s)"
| joined: "wp_stopper s = Joining \<Longrightarrow> all_exited s \<Longrightarrow>
     pipeline_step s (StopReturn (wp_metrics s)) (s\<lparr>wp_stopper := NoStop\<rparr>)"

text \<open>Runs, with their actions in order.\<close>

inductive run :: "('s \<Rightarrow> 'a \<Rightarrow> 's \<Rightarrow> bool) \<Rightarrow> 's \<Rightarrow> 'a list \<Rightarrow> 's \<Rightarrow> bool" for step where
  run_start: "run step s [] s"
| run_more: "run step s as t \<Longrightarrow> step t a u \<Longrightarrow> run step s (as @ [a]) u"

abbreviation pipeline_run :: "pipeline \<Rightarrow> action list \<Rightarrow> pipeline \<Rightarrow> bool" where
  "pipeline_run \<equiv> run pipeline_step"

inductive_simps run_Nil [simp]: "run step s [] t"
inductive_cases run_snocE: "run step s (as @ [a]) t"

lemma run_invariant:
  assumes "run step s as t" "P s" and "\<And>s a t. P s \<Longrightarrow> step s a t \<Longrightarrow> P t"
  shows "P t"
  using assms(1,2) by (induction rule: run.induct) (auto intro: assms(3))

lemma run_append: "run step s as t \<Longrightarrow> run step t bs u \<Longrightarrow> run step s (as @ bs) u"
proof (induction bs arbitrary: u rule: rev_induct)
  case (snoc b bs)
  then show ?case by (metis append_assoc run.run_more run_snocE append1_eq_conv)
qed auto

lemma run_one: "step s a t \<Longrightarrow> run step s [a] t"
  using run.run_more [OF run.run_start, of step s a t] by simp

section \<open>The state invariant\<close>

definition active :: "worker_state \<Rightarrow> bool" where
  "active w \<longleftrightarrow> w \<noteq> Asleep \<and> w \<noteq> Exited"

text \<open>No wake-up is lost: waiting work and a sleeping worker imply a notification under way or a
  worker that will look at the queue before it sleeps.\<close>

definition pipeline_ok :: "pipeline \<Rightarrow> bool" where
  "pipeline_ok s \<longleftrightarrow>
     0 < wp_queue_capacity s \<and> 0 < length (wp_workers s)
     \<and> length (wp_queue s) \<le> wm_queue_high_watermark (wp_metrics s)
     \<and> wm_queue_high_watermark (wp_metrics s) \<le> wp_queue_capacity s
     \<and> (wp_accepting s \<longleftrightarrow> \<not> wp_stop_requested s)
     \<and> (wp_stopper s \<noteq> NoStop \<longrightarrow> wp_stop_requested s)
     \<and> (Exited \<in> set (wp_workers s) \<longrightarrow> wp_stop_requested s \<and> wp_queue s = [])
     \<and> (wp_stop_requested s \<and> Asleep \<in> set (wp_workers s) \<longrightarrow> wp_stopper s = BeforeNotifyAll)
     \<and> (wp_queue s \<noteq> [] \<and> Asleep \<in> set (wp_workers s) \<longrightarrow>
          0 < wp_pending_notify s \<or> wp_stopper s = BeforeNotifyAll \<or> (\<exists>w \<in> set (wp_workers s). active w))"

lemma pipeline_ok_start: "new_pipeline config b = Inr s \<Longrightarrow> pipeline_ok s"
  by (auto simp: new_pipeline_def pipeline_ok_def zero_pipeline_metrics_def)

lemma set_worker_simps [simp]:
  "wp_queue_capacity (set_worker s i w) = wp_queue_capacity s" "wp_queue (set_worker s i w) = wp_queue s"
  "wp_accepting (set_worker s i w) = wp_accepting s" "wp_stop_requested (set_worker s i w) = wp_stop_requested s"
  "wp_metrics (set_worker s i w) = wp_metrics s" "wp_pending_notify (set_worker s i w) = wp_pending_notify s"
  "wp_stopper (set_worker s i w) = wp_stopper s" "wp_workers (set_worker s i w) = (wp_workers s)[i := w]"
  by (simp_all add: set_worker_def)

lemma in_update: "i < length xs \<Longrightarrow> y \<in> set (xs[i := x]) \<longleftrightarrow> y = x \<or> (\<exists>j < length xs. j \<noteq> i \<and> xs ! j = y)"
  by (auto simp: in_set_conv_nth nth_list_update)

lemma update_subset: "y \<in> set (xs[i := x]) \<Longrightarrow> y = x \<or> y \<in> set xs"
  using set_update_subset_insert [of xs i x] by auto

lemma active_simps [simp]: "active Ready" "active (Running p)" "\<not> active Asleep" "\<not> active Exited"
  by (simp_all add: active_def)

lemma updated_in: "i < length xs \<Longrightarrow> x \<in> set (xs[i := x])"
  by (simp add: set_update_memI)

lemma pipeline_ok_submit: "pipeline_ok s \<Longrightarrow> pipeline_ok (fst (try_submit s p))"
  by (auto simp: pipeline_ok_def try_submit_def Let_def)

lemma pipeline_ok_wake: "pipeline_ok s \<Longrightarrow> worker_at s i Asleep \<Longrightarrow> pipeline_ok (set_worker s i Ready)"
  by (auto simp: pipeline_ok_def dest!: update_subset intro!: bexI [OF _ updated_in])

lemma pipeline_ok_notify: "pipeline_ok s \<Longrightarrow> worker_at s i Asleep \<Longrightarrow> pipeline_ok (notify_one s (Some i))"
  by (auto simp: pipeline_ok_def notify_one_def Let_def dest!: update_subset intro!: bexI [OF _ updated_in])

lemma pipeline_ok_check: "pipeline_ok s \<Longrightarrow> worker_at s i Ready \<Longrightarrow> pipeline_ok (fst (worker_check s i))"
  by (auto simp: pipeline_ok_def worker_check_def split: list.splits
      dest!: update_subset intro!: bexI [OF _ updated_in])

lemma pipeline_ok_finish:
  "pipeline_ok s \<Longrightarrow> worker_at s i (Running p) \<Longrightarrow> pipeline_ok (worker_finish s i outcome)"
  by (cases outcome) (auto simp: pipeline_ok_def worker_finish_def Let_def
      dest!: update_subset intro!: bexI [OF _ updated_in])

lemma pipeline_ok_step: "pipeline_step s a t \<Longrightarrow> pipeline_ok s \<Longrightarrow> pipeline_ok t"
proof (induction rule: pipeline_step.induct)
  case (submit s p t r)
  then show ?case using pipeline_ok_submit [of s p] by simp
next
  case (notify s i)
  then show ?case by (simp add: pipeline_ok_notify)
next
  case (check s i t r)
  then show ?case using pipeline_ok_check [of s i] by simp
next
  case (finish s i p outcome)
  then show ?case by (simp add: pipeline_ok_finish)
next
  case (spurious s i)
  then show ?case by (simp add: pipeline_ok_wake)
qed (auto simp: pipeline_ok_def notify_one_def request_stop_def notify_all_def all_exited_def)

lemma pipeline_ok_run: "pipeline_run s as t \<Longrightarrow> pipeline_ok s \<Longrightarrow> pipeline_ok t"
  by (erule run_invariant [where P = pipeline_ok]) (auto intro: pipeline_ok_step)

section \<open>Accounting along a run\<close>

fun accepted_by :: "action \<Rightarrow> received_packet list" where
  "accepted_by (Submit p Accepted) = [p]" | "accepted_by _ = []"

fun taken_by :: "action \<Rightarrow> received_packet list" where
  "taken_by (Check i (Took p)) = [p]" | "taken_by _ = []"

fun finished_by :: "action \<Rightarrow> received_packet list" where
  "finished_by (Finish i p outcome) = [p]" | "finished_by _ = []"

definition accepted where "accepted as = concat (map accepted_by as)"
definition taken where "taken as = concat (map taken_by as)"
definition finished where "finished as = concat (map finished_by as)"

definition submit_count :: "submit_result \<Rightarrow> action list \<Rightarrow> nat" where
  "submit_count r as = length (filter (\<lambda>a. \<exists>p. a = Submit p r) as)"

definition outcome_count :: "handler_result \<Rightarrow> action list \<Rightarrow> nat" where
  "outcome_count r as = length (filter (\<lambda>a. \<exists>i p. a = Finish i p r) as)"

lemmas trace_defs = accepted_def taken_def finished_def submit_count_def outcome_count_def

fun running_packet :: "worker_state \<Rightarrow> received_packet list" where
  "running_packet (Running p) = [p]" | "running_packet _ = []"

definition in_flight :: "pipeline \<Rightarrow> received_packet list" where
  "in_flight s = concat (map running_packet (wp_workers s))"

lemma mset_in_flight_update:
  "i < length ws \<Longrightarrow> mset (concat (map running_packet (ws[i := w]))) + mset (running_packet (ws ! i))
     = mset (concat (map running_packet ws)) + mset (running_packet w)"
proof (induction ws arbitrary: i)
  case (Cons x ws)
  then show ?case by (cases i) (auto simp: ac_simps)
qed simp

text \<open>What the trace says about the state: the queue is the accepted packets not yet taken, in order;
  the taken ones are finished or being processed; the counters are the counts.\<close>

definition accounted :: "action list \<Rightarrow> pipeline \<Rightarrow> bool" where
  "accounted as s \<longleftrightarrow> accepted as = taken as @ wp_queue s
     \<and> mset (taken as) = mset (finished as) + mset (in_flight s)
     \<and> wm_packets_submitted (wp_metrics s) = of_nat (length (accepted as))
     \<and> wm_packets_dropped_queue_full (wp_metrics s) = of_nat (submit_count QueueFull as)
     \<and> wm_packets_rejected_stopped (wp_metrics s) = of_nat (submit_count Stopped as)
     \<and> wm_packets_processed (wp_metrics s) = of_nat (outcome_count Returned as)
     \<and> wm_handler_failures (wp_metrics s) = of_nat (outcome_count Threw as)
     \<and> length (finished as) = outcome_count Returned as + outcome_count Threw as"

lemma accounted_start: "new_pipeline config b = Inr s \<Longrightarrow> accounted [] s"
  by (auto simp: new_pipeline_def accounted_def trace_defs in_flight_def zero_pipeline_metrics_def)

lemma in_flight_same:
  "worker_at s i w \<Longrightarrow> running_packet w = [] \<Longrightarrow> running_packet w' = [] \<Longrightarrow>
     mset (concat (map running_packet ((wp_workers s)[i := w']))) = mset (in_flight s)"
  using mset_in_flight_update [of i "wp_workers s" w'] by (auto simp: in_flight_def)

lemma snoc_traces [simp]:
  "accepted (as @ [a]) = accepted as @ accepted_by a"
  "taken (as @ [a]) = taken as @ taken_by a"
  "finished (as @ [a]) = finished as @ finished_by a"
  "submit_count r (as @ [a]) = submit_count r as + (if \<exists>p. a = Submit p r then 1 else 0)"
  "outcome_count o' (as @ [a]) = outcome_count o' as + (if \<exists>i p. a = Finish i p o' then 1 else 0)"
  by (simp_all add: trace_defs)

lemma accounted_step:
  assumes "pipeline_step s a t" "accounted as s"
  shows "accounted (as @ [a]) t"
  using assms
proof (induction rule: pipeline_step.induct)
  case (submit s p t r)
  have t: "t = fst (try_submit s p)" "r = snd (try_submit s p)" using submit(1) by simp_all
  show ?case using submit(2) unfolding t
    by (auto simp: accounted_def try_submit_def Let_def in_flight_def)
next
  case (notify s i)
  then show ?case
    using in_flight_same [where s = s and i = i and w = Asleep and w' = Ready] by (simp add: accounted_def notify_one_def Let_def in_flight_def)
next
  case (check s i t r)
  have t: "t = fst (worker_check s i)" "r = snd (worker_check s i)" using check(2) by simp_all
  show ?case
  proof (cases "wp_queue s")
    case Nil
    then show ?thesis using check(1,3) in_flight_same [where s = s and i = i and w = Ready] unfolding t
      by (auto simp: accounted_def worker_check_def in_flight_def)
  next
    case (Cons p ps)
    then show ?thesis using check(1,3) mset_in_flight_update [of i "wp_workers s" "Running p"] unfolding t
      by (auto simp: accounted_def worker_check_def in_flight_def ac_simps)
  qed
next
  case (finish s i p outcome)
  then show ?case using mset_in_flight_update [of i "wp_workers s" Ready]
    by (cases outcome) (auto simp: accounted_def worker_finish_def Let_def in_flight_def ac_simps)
next
  case (spurious s i)
  then show ?case using in_flight_same [where s = s and i = i and w = Asleep and w' = Ready] by (simp add: accounted_def in_flight_def)
next
  case (notify_everybody s)
  have "concat (map running_packet (map (\<lambda>w. if w = Asleep then Ready else w) ws)) = concat (map running_packet ws)"
    for ws by (induction ws) auto
  then show ?case using notify_everybody by (simp add: accounted_def notify_all_def in_flight_def)
qed (simp_all add: accounted_def notify_one_def request_stop_def in_flight_def)

lemma accounted_run:
  assumes "pipeline_run s as t" "accounted [] s"
  shows "accounted as t"
  using assms by (induction rule: run.induct) (auto intro: accounted_step)

section \<open>Progress and termination\<close>

definition internal :: "action \<Rightarrow> bool" where
  "internal a \<longleftrightarrow> (\<forall>p r. a \<noteq> Submit p r) \<and> a \<noteq> RequestStop"

text \<open>Steps the pipeline owes: no new submissions or stops, and no reliance on spurious wake-ups.\<close>

definition owed :: "action \<Rightarrow> bool" where
  "owed a \<longleftrightarrow> internal a \<and> (\<forall>i. a \<noteq> Spurious i)"

lemma progress:
  assumes ok: "pipeline_ok s" and work: "wp_queue s \<noteq> [] \<or> wp_stopper s \<noteq> NoStop \<or> in_flight s \<noteq> []"
  shows "\<exists>a t. pipeline_step s a t \<and> owed a"
proof -
  have check: ?thesis if "worker_at s i Ready" for i
    using pipeline_step.check [OF that, of "fst (worker_check s i)" "snd (worker_check s i)"]
    by (auto simp: owed_def internal_def)
  have finish: ?thesis if "worker_at s i (Running p)" for i p
    using pipeline_step.finish [OF that, of Returned] by (auto simp: owed_def internal_def)
  have act: ?thesis if w: "w \<in> set (wp_workers s)" and a: "active w" for w
  proof -
    obtain i where "worker_at s i w" using w by (auto simp: in_set_conv_nth)
    then show ?thesis using a check finish by (cases w) auto
  qed
  have notify: ?thesis if pending: "0 < wp_pending_notify s"
  proof (cases "Asleep \<in> set (wp_workers s)")
    case True
    then obtain i where i: "worker_at s i Asleep" by (auto simp: in_set_conv_nth)
    show ?thesis using pipeline_step.notify [OF pending i] by (auto simp: owed_def internal_def)
  next
    case False
    then show ?thesis using pipeline_step.notify_nobody [OF pending] by (auto simp: owed_def internal_def)
  qed
  have all: ?thesis if "wp_stopper s = BeforeNotifyAll"
    using pipeline_step.notify_everybody [OF that] by (auto simp: owed_def internal_def)
  show ?thesis
  proof (cases "\<exists>w \<in> set (wp_workers s). active w")
    case True
    then show ?thesis using act by blast
  next
    case False
    then have quiet: "\<forall>w \<in> set (wp_workers s). w = Asleep \<or> w = Exited" by (auto simp: active_def)
    then have "in_flight s = []" by (auto simp: in_flight_def)
    show ?thesis
    proof (cases "Asleep \<in> set (wp_workers s)")
      case True
      then have "0 < wp_pending_notify s \<or> wp_stopper s = BeforeNotifyAll \<or> wp_stopper s = NoStop \<and> wp_queue s = []"
        using ok False by (cases "wp_stopper s") (auto simp: pipeline_ok_def)
      then show ?thesis using notify all work \<open>in_flight s = []\<close> by blast
    next
      case False
      then have ex: "\<forall>w \<in> set (wp_workers s). w = Exited" using quiet by auto
      then have "wp_queue s = []" using ok by (cases "wp_workers s") (auto simp: pipeline_ok_def)
      then have "wp_stopper s \<noteq> NoStop" using work \<open>in_flight s = []\<close> by simp
      then show ?thesis
        using all pipeline_step.joined [of s] ex
        by (cases "wp_stopper s") (auto simp: all_exited_def owed_def internal_def)
    qed
  qed
qed

fun worker_work :: "worker_state \<Rightarrow> nat" where
  "worker_work Exited = 0" | "worker_work Ready = 1" | "worker_work (Running p) = 2" | "worker_work Asleep = 2"

fun stopper_work :: "stopper_state \<Rightarrow> nat" where
  "stopper_work NoStop = 0" | "stopper_work Joining = 1" | "stopper_work BeforeNotifyAll = 2"

text \<open>How many steps a stopping pipeline can still take by itself.\<close>

definition remaining_work :: "pipeline \<Rightarrow> nat" where
  "remaining_work s = 2 * length (wp_queue s) + sum_list (map worker_work (wp_workers s))
     + wp_pending_notify s + stopper_work (wp_stopper s)"

lemma work_update:
  "i < length ws \<Longrightarrow> sum_list (map worker_work (ws[i := w])) + worker_work (ws ! i)
     = sum_list (map worker_work ws) + worker_work w"
proof (induction ws arbitrary: i)
  case (Cons x ws)
  then show ?case by (cases i) auto
qed simp

lemma wake_all_work:
  "sum_list (map worker_work (map (\<lambda>w. if w = Asleep then Ready else w) ws)) \<le> sum_list (map worker_work ws)"
  by (induction ws) auto

lemma work_decreases:
  assumes "pipeline_step s a t" "wp_stop_requested s" "internal a"
  shows "remaining_work t < remaining_work s \<and> wp_stop_requested t"
  using assms
proof (induction rule: pipeline_step.induct)
  case (notify s i)
  then show ?case using work_update [of i "wp_workers s" Ready]
    by (simp add: remaining_work_def notify_one_def Let_def)
next
  case (check s i t r)
  have t: "t = fst (worker_check s i)" using check(2) by simp
  have i: "i < length (wp_workers s)" "wp_workers s ! i = Ready" using check(1) by auto
  show ?case
  proof (cases "wp_queue s")
    case Nil
    then show ?thesis unfolding t using check(3) work_update [OF i(1), of Exited] i(2)
      by (simp add: remaining_work_def worker_check_def)
  next
    case (Cons p ps)
    then show ?thesis unfolding t using check(3) work_update [OF i(1), of "Running p"] i(2)
      by (simp add: remaining_work_def worker_check_def)
  qed
next
  case (finish s i p outcome)
  then show ?case using work_update [of i "wp_workers s" Ready]
    by (cases outcome) (simp_all add: remaining_work_def worker_finish_def Let_def)
next
  case (spurious s i)
  then show ?case using work_update [of i "wp_workers s" Ready] by (simp add: remaining_work_def)
next
  case (notify_everybody s)
  then show ?case using wake_all_work [of "wp_workers s"]
    by (simp add: remaining_work_def notify_all_def comp_def)
qed (simp_all add: internal_def remaining_work_def notify_one_def request_stop_def)

section \<open>Executing actions\<close>

text \<open>An action determines the step: the relation is the graph of \<open>exec_step\<close>.\<close>

fun exec_step :: "pipeline \<Rightarrow> action \<Rightarrow> pipeline option" where
  "exec_step s (Submit p r) = (let (t, r') = try_submit s p in if r' = r then Some t else None)"
| "exec_step s (NotifyOne who) =
     (if 0 < wp_pending_notify s \<and> (case who of None \<Rightarrow> Asleep \<notin> set (wp_workers s) | Some i \<Rightarrow> worker_at s i Asleep)
      then Some (notify_one s who) else None)"
| "exec_step s (Check i r) =
     (if worker_at s i Ready then (let (t, r') = worker_check s i in if r' = r then Some t else None) else None)"
| "exec_step s (Finish i p outcome) =
     (if worker_at s i (Running p) then Some (worker_finish s i outcome) else None)"
| "exec_step s (Spurious i) = (if worker_at s i Asleep then Some (set_worker s i Ready) else None)"
| "exec_step s RequestStop = (if wp_stopper s = NoStop then Some (request_stop s) else None)"
| "exec_step s NotifyAll = (if wp_stopper s = BeforeNotifyAll then Some (notify_all s) else None)"
| "exec_step s (StopReturn m) =
     (if wp_stopper s = Joining \<and> all_exited s \<and> m = wp_metrics s then Some (s\<lparr>wp_stopper := NoStop\<rparr>) else None)"

lemma pipeline_step_iff: "pipeline_step s a t \<longleftrightarrow> exec_step s a = Some t"
proof
  show "pipeline_step s a t \<Longrightarrow> exec_step s a = Some t"
    by (induction rule: pipeline_step.induct) auto
  show "exec_step s a = Some t \<Longrightarrow> pipeline_step s a t"
    by (cases a) (auto split: if_splits prod.splits option.splits intro: pipeline_step.intros)
qed

fun exec :: "pipeline \<Rightarrow> action list \<Rightarrow> pipeline option" where
  "exec s [] = Some s"
| "exec s (a # as) = (case exec_step s a of None \<Rightarrow> None | Some t \<Rightarrow> exec t as)"

lemma run_exec: "exec s as = Some t \<Longrightarrow> pipeline_run s as t"
proof (induction as arbitrary: s)
  case (Cons a as)
  then obtain u where "exec_step s a = Some u" "exec u as = Some t" by (auto split: option.splits)
  then have "pipeline_run s [a] u" "pipeline_run u as t"
    using Cons.IH by (auto intro: run_one pipeline_step_iff [THEN iffD2])
  then have "pipeline_run s ([a] @ as) t" by (rule run_append)
  then show ?case by simp
qed simp

lemma request_stop_stays: "pipeline_step s a t \<Longrightarrow> wp_stop_requested s \<Longrightarrow> wp_stop_requested t"
  by (induction rule: pipeline_step.induct)
    (auto simp: try_submit_def notify_one_def worker_check_def worker_finish_def request_stop_def
      notify_all_def Let_def split: if_splits list.splits option.splits)

lemma stop_requested_run: "pipeline_run s as t \<Longrightarrow> RequestStop \<in> set as \<Longrightarrow> wp_stop_requested t"
proof (induction rule: run.induct)
  case (run_more s as t a u)
  then show ?case
    by (cases "a = RequestStop") (auto simp: request_stop_def dest: request_stop_stays elim: pipeline_step.cases)
qed simp

lemma internal_run_bounded:
  assumes "pipeline_run s bs t" "wp_stop_requested s" "\<forall>b \<in> set bs. internal b"
  shows "remaining_work t + length bs \<le> remaining_work s \<and> wp_stop_requested t"
  using assms
proof (induction rule: run.induct)
  case (run_more s bs t b u)
  then show ?case using work_decreases [of t b u] by fastforce
qed simp

lemma accepts_nothing:
  assumes "pipeline_run s as t" "pipeline_ok s" "wp_stop_requested s"
  shows "accepted as = []"
proof -
  have "accepted as = [] \<and> pipeline_ok t \<and> wp_stop_requested t"
    using assms
  proof (induction rule: run.induct)
    case (run_more s as t a u)
    then have t: "accepted as = []" "pipeline_ok t" "wp_stop_requested t" by simp_all
    moreover have "accepted_by a = []"
      using run_more.hyps(2) t(2,3)
      by (cases rule: pipeline_step.cases) (auto simp: try_submit_def pipeline_ok_def Let_def split: if_splits)
    ultimately show ?case using run_more.hyps(2) pipeline_ok_step request_stop_stays by simp
  qed (simp add: accepted_def)
  then show ?thesis by simp
qed

text \<open>Once stop has been requested and no step is owed, every worker has returned.\<close>

lemma quiet_all_exited:
  assumes ok: "pipeline_ok s" and stop: "wp_stop_requested s" and quiet: "\<nexists>a t. pipeline_step s a t \<and> owed a"
  shows "all_exited s"
proof -
  have "w = Exited" if w: "w \<in> set (wp_workers s)" for w
  proof (cases "active w")
    case True
    obtain i where i: "worker_at s i w" using w by (auto simp: in_set_conv_nth)
    have False
    proof (cases w)
      case Ready
      then show ?thesis
        using quiet pipeline_step.check [where s = s and i = i and t = "fst (worker_check s i)" and r = "snd (worker_check s i)"] i
        by (auto simp: owed_def internal_def)
    next
      case (Running p)
      then show ?thesis
        using quiet pipeline_step.finish [where s = s and i = i and p = p and outcome = Returned] i by (auto simp: owed_def internal_def)
    qed (use True in \<open>simp_all add: active_def\<close>)
    then show ?thesis ..
  next
    case False
    then have "w = Asleep \<or> w = Exited" by (auto simp: active_def)
    moreover have "wp_stopper s = NoStop" using progress [OF ok] quiet by blast
    then have "Asleep \<notin> set (wp_workers s)" using ok stop by (auto simp: pipeline_ok_def)
    ultimately show ?thesis using w by metis
  qed
  then show ?thesis by (simp add: all_exited_def)
qed

section \<open>Properties\<close>

definition sample_actions :: "received_packet \<Rightarrow> received_packet \<Rightarrow> action list" where
  "sample_actions p q = [Check 0 Slept, Submit p Accepted, NotifyOne (Some 0), Submit q QueueFull,
     Check 0 (Took p), Submit q Accepted, NotifyOne None, Finish 0 p Threw, RequestStop,
     Submit p Stopped, NotifyAll, Check 0 (Took q), Finish 0 q Returned, Check 0 Left]"

definition sample_pipeline :: pipeline where
  "sample_pipeline = \<lparr>wp_queue_capacity = 1, wp_queue = [], wp_accepting = True, wp_stop_requested = False,
     wp_metrics = zero_pipeline_metrics, wp_workers = [Ready], wp_pending_notify = 0, wp_stopper = NoStop\<rparr>"

definition final_metrics :: pipeline_metrics where
  "final_metrics = \<lparr>wm_packets_submitted = 2, wm_packets_processed = 1, wm_packets_dropped_queue_full = 1,
     wm_packets_rejected_stopped = 1, wm_handler_failures = 1, wm_queue_high_watermark = 1\<rparr>"

definition packet_a :: received_packet where "packet_a = imu_packet [1]"
definition packet_b :: received_packet where "packet_b = imu_packet []"

lemma sample_pipeline:
  "new_pipeline \<lparr>wc_worker_count = 1, wc_queue_capacity = 1\<rparr> True = Inr sample_pipeline"
  by (simp add: new_pipeline_def sample_pipeline_def)

definition sample_end :: pipeline where
  "sample_end = the (exec sample_pipeline (sample_actions packet_a packet_b))"

lemma sample_pipeline_run: "pipeline_run sample_pipeline (sample_actions packet_a packet_b) sample_end"
proof -
  have "exec sample_pipeline (sample_actions packet_a packet_b) \<noteq> None" by code_simp
  then show ?thesis unfolding sample_end_def by (intro run_exec) auto
qed

text \<open>C18. In every reachable state of the pipeline, for any number of threads submitting, working and
  stopping in any interleaving: the queue is exactly the accepted packets not yet taken, in order of
  acceptance (strict FIFO); every packet taken is either finished or being processed, each exactly
  once; every counter is the number of its outcomes; neither the queue nor its high watermark ever
  exceeds the capacity, and at most one packet is in flight per worker.\<close>

theorem pipeline_accounting:
  assumes "new_pipeline config b = Inr s0" and "pipeline_run s0 as s"
  shows "accepted as = taken as @ wp_queue s
    \<and> mset (taken as) = mset (finished as) + mset (in_flight s)
    \<and> wm_packets_submitted (wp_metrics s) = of_nat (length (accepted as))
    \<and> wm_packets_processed (wp_metrics s) = of_nat (outcome_count Returned as)
    \<and> wm_handler_failures (wp_metrics s) = of_nat (outcome_count Threw as)
    \<and> wm_packets_dropped_queue_full (wp_metrics s) = of_nat (submit_count QueueFull as)
    \<and> wm_packets_rejected_stopped (wp_metrics s) = of_nat (submit_count Stopped as)
    \<and> length (wp_queue s) \<le> wm_queue_high_watermark (wp_metrics s)
    \<and> wm_queue_high_watermark (wp_metrics s) \<le> wc_queue_capacity config
    \<and> length (in_flight s) \<le> wc_worker_count config"
proof -
  have cap: "wp_queue_capacity s0 = wc_queue_capacity config" "length (wp_workers s0) = wc_worker_count config"
    using assms(1) by (auto simp: new_pipeline_def)
  have "wp_queue_capacity t = wp_queue_capacity u \<and> length (wp_workers t) = length (wp_workers u)"
    if "pipeline_step u a t" for u a t
    using that by (induction rule: pipeline_step.induct)
      (auto simp: try_submit_def notify_one_def worker_check_def worker_finish_def request_stop_def
        notify_all_def Let_def split: if_splits list.splits option.splits)
  then have "wp_queue_capacity s = wc_queue_capacity config \<and> length (wp_workers s) = wc_worker_count config"
    by (intro run_invariant [OF assms(2), of "\<lambda>s. wp_queue_capacity s = wc_queue_capacity config
          \<and> length (wp_workers s) = wc_worker_count config"]) (auto simp: cap)
  moreover have "length (concat (map running_packet ws)) \<le> length ws" for ws
  proof (induction ws)
    case (Cons w ws)
    then show ?case by (cases w) simp_all
  qed simp
  ultimately show ?thesis
    using accounted_run [OF assms(2) accounted_start [OF assms(1)]]
      pipeline_ok_run [OF assms(2) pipeline_ok_start [OF assms(1)]]
    unfolding accounted_def pipeline_ok_def in_flight_def by metis
qed

lemma pipeline_accounting_witness:
  "accepted (sample_actions packet_a packet_b) = taken (sample_actions packet_a packet_b) @ wp_queue sample_end
   \<and> wm_handler_failures (wp_metrics sample_end) = 1 \<and> wm_packets_dropped_queue_full (wp_metrics sample_end) = 1"
proof -
  have "outcome_count Threw (sample_actions packet_a packet_b) = 1"
    "submit_count QueueFull (sample_actions packet_a packet_b) = 1"
    by (simp_all add: outcome_count_def submit_count_def sample_actions_def)
  then show ?thesis using pipeline_accounting [OF sample_pipeline sample_pipeline_run] by simp
qed

text \<open>C19. No wake-up is lost and nothing deadlocks: in every reachable state with a waiting packet, a
  packet being processed or a \<open>stop\<close> in progress, some thread of the pipeline can take a step
  (a pending notification, a worker, or the stopping thread), without relying on spurious wake-ups
  or on further calls of the client.\<close>

theorem pipeline_never_stuck:
  assumes "new_pipeline config b = Inr s0" and "pipeline_run s0 as s"
    and "wp_queue s \<noteq> [] \<or> in_flight s \<noteq> [] \<or> wp_stopper s \<noteq> NoStop"
  shows "\<exists>a t. pipeline_step s a t \<and> owed a"
  by (rule progress [OF pipeline_ok_run [OF assms(2) pipeline_ok_start [OF assms(1)]]]) (use assms(3) in auto)

lemma pipeline_never_stuck_witness:
  "wp_stopper sample_end = Joining \<and> (\<exists>a t. pipeline_step sample_end a t \<and> owed a)"
proof -
  have j: "wp_stopper sample_end = Joining" by code_simp
  then have "wp_queue sample_end \<noteq> [] \<or> in_flight sample_end \<noteq> [] \<or> wp_stopper sample_end \<noteq> NoStop" by simp
  with j pipeline_never_stuck [OF sample_pipeline sample_pipeline_run] show ?thesis by blast
qed

text \<open>C20. A stop terminates: once stop has been requested, however the threads interleave and whatever
  the processor does, the workers and notifiers take at most \<open>remaining_work\<close> further steps in
  total, and when no step is owed any more, every worker has returned, the queue is empty, no stop is
  waiting and each accepted packet has been processed exactly once.\<close>

theorem stop_terminates_drained:
  assumes "new_pipeline config b = Inr s0" and "pipeline_run s0 as s" and "RequestStop \<in> set as"
    and "pipeline_run s bs t" and "\<forall>x \<in> set bs. internal x"
  shows "length bs \<le> remaining_work s
    \<and> ((\<nexists>a u. pipeline_step t a u \<and> owed a) \<longrightarrow>
        all_exited t \<and> wp_stopper t = NoStop \<and> wp_queue t = [] \<and> in_flight t = []
        \<and> mset (accepted (as @ bs)) = mset (finished (as @ bs)))"
proof -
  have len: "length bs \<le> remaining_work s" and stop: "wp_stop_requested t"
    using internal_run_bounded [OF assms(4) stop_requested_run [OF assms(2,3)] assms(5)] by simp_all
  have run: "pipeline_run s0 (as @ bs) t" using run_append [OF assms(2,4)] .
  note ok = pipeline_ok_run [OF run pipeline_ok_start [OF assms(1)]]
  have "all_exited t \<and> wp_stopper t = NoStop \<and> wp_queue t = [] \<and> in_flight t = []"
    if "\<nexists>a u. pipeline_step t a u \<and> owed a"
    using that progress [OF ok] quiet_all_exited [OF ok stop that] by blast
  moreover have "mset (accepted (as @ bs)) = mset (finished (as @ bs)) + mset (in_flight t) + mset (wp_queue t)"
    using accounted_run [OF run accounted_start [OF assms(1)]] by (simp add: accounted_def)
  ultimately show ?thesis using len by simp
qed

lemma stop_terminates_drained_witness:
  "pipeline_run sample_end [StopReturn final_metrics] (sample_end\<lparr>wp_stopper := NoStop\<rparr>)
   \<and> length [StopReturn final_metrics] \<le> remaining_work sample_end \<and> remaining_work sample_end = 1
   \<and> (\<nexists>a u. pipeline_step (sample_end\<lparr>wp_stopper := NoStop\<rparr>) a u \<and> owed a)
   \<and> all_exited (sample_end\<lparr>wp_stopper := NoStop\<rparr>)"
proof -
  let ?t = "sample_end\<lparr>wp_stopper := NoStop\<rparr>"
  have w: "remaining_work sample_end = 1" by code_simp
  have "wp_stopper sample_end = Joining" "all_exited sample_end" "wp_metrics sample_end = final_metrics"
    by code_simp+
  then have "pipeline_step sample_end (StopReturn final_metrics) ?t"
    using pipeline_step.joined by metis
  then have last: "pipeline_run sample_end [StopReturn final_metrics] ?t"
    using run_more [OF run_start] by fastforce
  have "wp_workers ?t = [Exited]" "wp_pending_notify ?t = 0" "wp_stopper ?t = NoStop" by code_simp+
  then have quiet: "\<nexists>a u. pipeline_step ?t a u \<and> owed a"
    by (auto simp: owed_def internal_def elim!: pipeline_step.cases)
  have "RequestStop \<in> set (sample_actions packet_a packet_b)" by (simp add: sample_actions_def)
  then show ?thesis
    using stop_terminates_drained [OF sample_pipeline sample_pipeline_run _ last] last w quiet
    by (simp add: internal_def)
qed

text \<open>C21. What \<open>stop\<close> returns is final: all workers have been joined, every accepted packet was
  processed exactly once, and the returned metrics balance: submitted is processed plus failed.
  After the first stop request no submission is ever accepted.\<close>

theorem stop_returns_balanced:
  assumes "new_pipeline config b = Inr s0" and "pipeline_run s0 as s" and "pipeline_step s (StopReturn m) t"
  shows "all_exited t \<and> mset (accepted as) = mset (finished as)
    \<and> wm_packets_submitted m = wm_packets_processed m + wm_handler_failures m
    \<and> (pipeline_run t bs u \<longrightarrow> accepted bs = [])"
proof -
  have m: "m = wp_metrics s" "all_exited s" "t = s\<lparr>wp_stopper := NoStop\<rparr>" "wp_stopper s = Joining"
    using assms(3) by (auto elim: pipeline_step.cases)
  have acc: "accounted as s" by (rule accounted_run [OF assms(2) accounted_start [OF assms(1)]])
  have ok: "pipeline_ok s" by (rule pipeline_ok_run [OF assms(2) pipeline_ok_start [OF assms(1)]])
  have "wp_workers s \<noteq> []" using ok by (auto simp: pipeline_ok_def)
  then have q: "wp_queue s = []" "\<not> wp_accepting s"
    using ok m(2) by (cases "wp_workers s"; auto simp: pipeline_ok_def all_exited_def)+
  have "in_flight s = []" using m(2) by (auto simp: in_flight_def all_exited_def)
  then have fin: "mset (accepted as) = mset (finished as)" using acc q by (simp add: accounted_def)
  then have "length (accepted as) = outcome_count Returned as + outcome_count Threw as"
    using acc by (metis accounted_def size_mset)
  then have "wm_packets_submitted m = wm_packets_processed m + wm_handler_failures m"
    using acc by (simp add: accounted_def m(1))
  moreover have "pipeline_ok t" "wp_stop_requested t"
    using pipeline_ok_step [OF assms(3) ok] ok m(3,4) by (auto simp: pipeline_ok_def)
  ultimately show ?thesis using m fin accepts_nothing by (auto simp: all_exited_def)
qed

lemma stop_returns_balanced_witness:
  "pipeline_step sample_end (StopReturn final_metrics) (sample_end\<lparr>wp_stopper := NoStop\<rparr>)
   \<and> mset (accepted (sample_actions packet_a packet_b)) = mset (finished (sample_actions packet_a packet_b))"
proof -
  have "wp_stopper sample_end = Joining" "all_exited sample_end" "wp_metrics sample_end = final_metrics"
    by code_simp+
  then have step: "pipeline_step sample_end (StopReturn final_metrics) (sample_end\<lparr>wp_stopper := NoStop\<rparr>)"
    using pipeline_step.joined by metis
  with stop_returns_balanced [OF sample_pipeline sample_pipeline_run step] show ?thesis by blast
qed

end
