(* ===== verification/Epoll_Receiver.thy ===== *)
theory Epoll_Receiver
  imports Udp_Socket "HOL-Library.Multiset"
begin

text \<open>
  \<open>EpollReceiver\<close> of \<open>src/src/runtime/epoll_receiver.cpp\<close>: construction of the listeners (with the
  unwinding that closes what was opened) and \<open>poll\<close>, which drains ready listeners up to a limit,
  decodes the datagrams and counts them. Fields: \<open>ec_\<close> for the configuration, \<open>rm_\<close> of the source's
  \<open>ReceiverMetrics\<close> are \<open>rx_\<close>, \<open>er_\<close> for the receiver.
\<close>

section \<open>Data\<close>

record receiver_config =
  ec_listen_endpoints :: "ipv4_endpoint list"
  ec_max_datagrams_per_listener_per_poll :: nat

record receiver_metrics =
  rx_epoll_wakeups :: u64
  rx_datagrams_received :: u64
  rx_packets_accepted :: u64
  rx_packets_rejected :: u64

record listener =
  ln_socket :: fd
  ln_local_endpoint :: ipv4_endpoint

record receiver =
  er_epoll :: fd
  er_max_datagrams :: nat
  er_listeners :: "listener list"
  er_metrics :: receiver_metrics

definition INT_MAX :: int where "INT_MAX = 2147483647"
definition EPOLLIN :: u32 where "EPOLLIN = 1"

definition zero_receiver_metrics :: receiver_metrics where
  "zero_receiver_metrics = \<lparr>rx_epoll_wakeups = 0, rx_datagrams_received = 0, rx_packets_accepted = 0,
     rx_packets_rejected = 0\<rparr>"

section \<open>Construction\<close>

definition create_epoll :: "'w os \<Rightarrow> receiver_config \<Rightarrow> ('w, fd) io" where
  "create_epoll os config =
     (if ec_listen_endpoints config = [] then
        io_throw (Invalid_argument ''epoll receiver requires at least one listen endpoint'')
      else if ec_max_datagrams_per_listener_per_poll config = 0 then
        io_throw (Invalid_argument ''max datagrams per listener per poll must be greater than zero'')
      else if int (length (ec_listen_endpoints config)) > INT_MAX then
        io_throw (Invalid_argument ''too many epoll listen endpoints'')
      else
        io_bind (io_call (sys_epoll_create os)) (\<lambda>r.
        io_bind (io_check ''epoll_create1'' r) (\<lambda>d.
        io_bind (io_opened d) (\<lambda>_. io_return d))))"

text \<open>The body of the constructor's loop for one endpoint, given the listeners added so far.\<close>

definition add_listener :: "'w os \<Rightarrow> fd \<Rightarrow> listener list \<Rightarrow> ipv4_endpoint \<Rightarrow> ('w, listener list) io" where
  "add_listener os epoll listeners requested_endpoint =
     io_bind (bind_to os requested_endpoint) (\<lambda>socket. io_guarded os [socket]
       (io_bind (set_non_blocking os socket) (\<lambda>_.
        io_bind (local_endpoint os socket) (\<lambda>actual_endpoint.
        io_bind (io_call (sys_epoll_add os epoll socket
          \<lparr>ev_events = EPOLLIN, ev_data = of_nat (length listeners)\<rparr>)) (\<lambda>r.
        io_bind (io_check ''epoll_ctl(EPOLL_CTL_ADD)'' r) (\<lambda>_.
        io_return (listeners @ [\<lparr>ln_socket = socket, ln_local_endpoint = actual_endpoint\<rparr>])))))))"

text \<open>When an iteration throws, the vector of listeners built so far is destroyed: each closes.\<close>

fun add_listeners :: "'w os \<Rightarrow> fd \<Rightarrow> listener list \<Rightarrow> ipv4_endpoint list \<Rightarrow> ('w, listener list) io" where
  "add_listeners os epoll listeners [] = io_return listeners"
| "add_listeners os epoll listeners (e # es) =
     io_bind (io_guarded os (map ln_socket listeners) (add_listener os epoll listeners e))
       (\<lambda>listeners. add_listeners os epoll listeners es)"

definition new_receiver :: "'w os \<Rightarrow> receiver_config \<Rightarrow> ('w, receiver) io" where
  "new_receiver os config =
     io_bind (create_epoll os config) (\<lambda>epoll.
     io_bind (io_guarded os [epoll] (add_listeners os epoll [] (ec_listen_endpoints config))) (\<lambda>listeners.
     io_return \<lparr>er_epoll = epoll, er_max_datagrams = ec_max_datagrams_per_listener_per_poll config,
       er_listeners = listeners, er_metrics = zero_receiver_metrics\<rparr>))"

definition local_endpoints :: "receiver \<Rightarrow> ipv4_endpoint list" where
  "local_endpoints r = map ln_local_endpoint (er_listeners r)"

section \<open>Polling\<close>

text \<open>The state \<open>poll\<close> updates: the metrics of the receiver and the packets returned. An exception
  leaves the metrics as they are and drops the packets.\<close>

type_synonym poll_state = "receiver_metrics \<times> received_packet list"

text \<open>The inner loop, over the number of receives it may still do.\<close>

fun drain :: "'w os \<Rightarrow> listener \<Rightarrow> nat \<Rightarrow> poll_state \<Rightarrow> 'w machine \<Rightarrow> (unit cpp \<times> poll_state) \<times> 'w machine" where
  "drain os listener 0 (m, ps) s = ((Inr (), (m, ps)), s)"
| "drain os listener (Suc n) (m, ps) s =
     (case try_receive os (ln_socket listener) kMaxUdpPayloadSize s of
        (Inl e, s) \<Rightarrow> ((Inl e, (m, ps)), s)
      | (Inr None, s) \<Rightarrow> ((Inr (), (m, ps)), s)
      | (Inr (Some datagram), s) \<Rightarrow>
          (let m = m\<lparr>rx_datagrams_received := rx_datagrams_received m + 1\<rparr>;
               (now, w) = lib_steady_now os (m_world s);
               s = s\<lparr>m_world := w\<rparr>
           in case decode_packet (rd_bytes datagram) of
                Inl e \<Rightarrow> ((Inl e, (m, ps)), s)
              | Inr decoded \<Rightarrow>
                  (case dr_packet decoded of
                     None \<Rightarrow> drain os listener n (m\<lparr>rx_packets_rejected := rx_packets_rejected m + 1\<rparr>, ps) s
                   | Some packet \<Rightarrow>
                       drain os listener n
                         (m\<lparr>rx_packets_accepted := rx_packets_accepted m + 1\<rparr>,
                          ps @ [\<lparr>rp_packet = packet, rp_source = rd_source datagram,
                                 rp_listener = ln_local_endpoint listener,
                                 rp_receive_timestamp_ns = now\<rparr>]) s)))"

text \<open>The outer loop, over the ready events.\<close>

fun poll_events ::
  "'w os \<Rightarrow> receiver \<Rightarrow> epoll_event list \<Rightarrow> poll_state \<Rightarrow> 'w machine \<Rightarrow> (unit cpp \<times> poll_state) \<times> 'w machine"
where
  "poll_events os r [] st s = ((Inr (), st), s)"
| "poll_events os r (event # events) st s =
     (if ev_events event AND EPOLLIN = 0 then poll_events os r events st s
      else
        (let listener_index = unat (ev_data event) in
         if listener_index \<ge> length (er_listeners r) then
           ((Inl (Runtime_error ''epoll returned an unknown listener''), st), s)
         else
           (case drain os (er_listeners r ! listener_index) (er_max_datagrams r) st s of
              ((Inl e, st), s) \<Rightarrow> ((Inl e, st), s)
            | ((Inr _, st), s) \<Rightarrow> poll_events os r events st s)))"

definition poll ::
  "'w os \<Rightarrow> receiver \<Rightarrow> int \<Rightarrow> 'w machine \<Rightarrow> (received_packet list cpp \<times> receiver) \<times> 'w machine" where
  "poll os r timeout s =
     (if timeout < 0 \<or> timeout > INT_MAX then
        ((Inl (Invalid_argument ''epoll timeout must fit a non-negative int''), r), s)
      else
        (let (ready, w) = sys_epoll_wait os (er_epoll r) (length (er_listeners r)) (nat timeout) (m_world s);
             s = s\<lparr>m_world := w\<rparr>
         in case ready of
              Inl e \<Rightarrow> ((if e = EINTR then Inr [] else Inl (System_error ''epoll_wait''), r), s)
            | Inr events \<Rightarrow>
                (let m = er_metrics r;
                     m = (if events \<noteq> [] then m\<lparr>rx_epoll_wakeups := rx_epoll_wakeups m + 1\<rparr> else m);
                     ((res, (m, packets)), s) = poll_events os r events (m, []) s
                 in ((case res of Inl e \<Rightarrow> Inl e | Inr _ \<Rightarrow> Inr packets, r\<lparr>er_metrics := m\<rparr>), s))))"

definition destroy_receiver :: "'w os \<Rightarrow> receiver \<Rightarrow> 'w machine \<Rightarrow> 'w machine" where
  "destroy_receiver os r s = io_close os (er_epoll r) (fold (io_close os) (map ln_socket (er_listeners r)) s)"

section \<open>Descriptors\<close>

lemma mset_close: "0 \<le> d \<Longrightarrow> mset (m_open (io_close os d s)) = mset (m_open s) - {#d#}"
  by (simp add: io_close_def)

lemma mset_close_all:
  "\<forall>d \<in> set ds. 0 \<le> d \<Longrightarrow> mset (m_open (fold (io_close os) ds s)) = mset (m_open s) - mset ds"
  by (induction ds arbitrary: s) (simp_all add: mset_close)

lemma io_guarded_cases:
  "io_guarded os ds m s = (case fst (m s) of Inl e \<Rightarrow> (Inl e, fold (io_close os) ds (snd (m s))) | Inr x \<Rightarrow> (Inr x, snd (m s)))"
  by (auto simp: io_guarded_def split: sum.split prod.split)

lemma add_listener_opens:
  assumes "descriptors_valid os"
  shows "case add_listener os epoll ls e s of (Inl x, t) \<Rightarrow> m_open t = m_open s
    | (Inr ls', t) \<Rightarrow> \<exists>d ep. ls' = ls @ [\<lparr>ln_socket = d, ln_local_endpoint = ep\<rparr>] \<and> 0 \<le> d \<and> m_open t = d # m_open s"
proof (cases "bind_to os e s")
  case (Pair r u)
  have b: "case bind_to os e s of (Inl x, t) \<Rightarrow> m_open t = m_open s | (Inr d, t) \<Rightarrow> 0 \<le> d \<and> m_open t = d # m_open s"
    using bind_to_opens [OF assms, of e] by (simp add: opens_one_def)
  show ?thesis
  proof (cases r)
    case (Inl x)
    then show ?thesis using b Pair by (simp add: add_listener_def io_bind_eq [of "bind_to os e"])
  next
    case (Inr d)
    let ?m = "io_bind (set_non_blocking os d) (\<lambda>_. io_bind (local_endpoint os d) (\<lambda>actual_endpoint.
        io_bind (io_call (sys_epoll_add os epoll d \<lparr>ev_events = EPOLLIN, ev_data = of_nat (length ls)\<rparr>)) (\<lambda>r.
        io_bind (io_check ''epoll_ctl(EPOLL_CTL_ADD)'' r) (\<lambda>_.
        io_return (ls @ [\<lparr>ln_socket = d, ln_local_endpoint = actual_endpoint\<rparr>])))))"
    have u: "0 \<le> d" "m_open u = d # m_open s" using b Pair Inr by simp_all
    have n: "fd_neutral ?m" by auto
    have v: "fst (?m u) = Inr ls' \<Longrightarrow> \<exists>ep. ls' = ls @ [\<lparr>ln_socket = d, ln_local_endpoint = ep\<rparr>]" for ls'
      by (auto simp: io_bind_eq io_call_eq io_check_def split: sum.splits)
    have "add_listener os epoll ls e s = io_guarded os [d] ?m u"
      using Pair Inr by (simp add: add_listener_def io_bind_eq [of "bind_to os e"])
    then show ?thesis
      using guarded_neutral [OF n u, of os] v u(1)
      by (auto simp: io_guarded_cases split: sum.splits)
  qed
qed

lemma add_listeners_opens:
  assumes "descriptors_valid os" and "mset (m_open s) = A + mset (map ln_socket ls)"
    and "\<forall>l \<in> set ls. 0 \<le> ln_socket l"
  shows "case add_listeners os epoll ls es s of (Inl x, t) \<Rightarrow> es \<noteq> [] \<and> mset (m_open t) = A
    | (Inr ls', t) \<Rightarrow> mset (m_open t) = A + mset (map ln_socket ls') \<and> length ls' = length ls + length es
        \<and> (\<forall>l \<in> set ls'. 0 \<le> ln_socket l)"
  using assms(2,3)
proof (induction es arbitrary: ls s)
  case (Cons e es)
  let ?a = "add_listener os epoll ls e s"
  note opens = add_listener_opens [OF assms(1), where epoll = epoll and ls = ls and e = e and s = s]
  show ?case
  proof (cases "fst ?a")
    case (Inl x)
    then have "m_open (snd ?a) = m_open s" using opens by (simp add: case_prod_beta)
    then show ?thesis using Inl Cons.prems
      by (auto simp: io_bind_eq io_guarded_cases mset_close_all)
  next
    case (Inr ls')
    obtain d ep where ls': "ls' = ls @ [\<lparr>ln_socket = d, ln_local_endpoint = ep\<rparr>]" "0 \<le> d"
      "m_open (snd ?a) = d # m_open s"
      using opens Inr by (auto simp: case_prod_beta)
    have "mset (m_open (snd ?a)) = A + mset (map ln_socket ls')" "\<forall>l \<in> set ls'. 0 \<le> ln_socket l"
      using Cons.prems ls' by (auto simp del: map_append simp add: map_append)
    from Cons.IH [OF this] show ?thesis
      using Inr ls' by (auto simp: io_bind_eq io_guarded_cases split: sum.splits prod.splits)
  qed
qed simp

section \<open>Draining\<close>

text \<open>A packet that some datagram within the UDP limit decodes to.\<close>

definition genuine :: "packet \<Rightarrow> bool" where
  "genuine p \<longleftrightarrow> (\<exists>bs r. length bs \<le> kMaxUdpPayloadSize \<and> decode_packet bs = Inr r \<and> dr_packet r = Some p)"

definition count_received :: "receiver_metrics \<Rightarrow> nat \<Rightarrow> nat \<Rightarrow> receiver_metrics" where
  "count_received m acc rej = m\<lparr>rx_datagrams_received := rx_datagrams_received m + of_nat (acc + rej),
     rx_packets_accepted := rx_packets_accepted m + of_nat acc,
     rx_packets_rejected := rx_packets_rejected m + of_nat rej\<rparr>"

lemma count_received_0 [simp]: "count_received m 0 0 = m"
  by (simp add: count_received_def)

lemma count_received_add:
  "count_received (count_received m a b) c d = count_received m (a + c) (b + d)"
  by (simp add: count_received_def algebra_simps)

definition drained :: "listener list \<Rightarrow> nat \<Rightarrow> poll_state \<Rightarrow> (unit cpp \<times> poll_state) \<times> 'w machine \<Rightarrow> bool" where
  "drained ls n st out \<longleftrightarrow> (\<exists>new rej. length new + rej \<le> n
     \<and> snd (fst out) = (count_received (fst st) (length new) rej, snd st @ new)
     \<and> (\<forall>p \<in> set new. rp_listener p \<in> ln_local_endpoint ` set ls \<and> genuine (rp_packet p)))"

lemma drained_same: "drained ls n st ((res, st), s)"
  unfolding drained_def by (rule exI [of _ "[]"], rule exI [of _ 0]) simp

lemma drained_mono: "drained ls n st out \<Longrightarrow> n \<le> n' \<Longrightarrow> set ls \<subseteq> set ls' \<Longrightarrow> drained ls' n' st out"
  unfolding drained_def by (blast intro: order_trans)

lemma drained_trans:
  assumes "drained ls n st ((r, st'), s')" "drained ls n' st' out"
  shows "drained ls (n + n') st out"
proof -
  obtain new rej where a: "length new + rej \<le> n" "st' = (count_received (fst st) (length new) rej, snd st @ new)"
    "\<forall>p \<in> set new. rp_listener p \<in> ln_local_endpoint ` set ls \<and> genuine (rp_packet p)"
    using assms(1) by (auto simp: drained_def)
  obtain new' rej' where b: "length new' + rej' \<le> n'"
    "snd (fst out) = (count_received (fst st') (length new') rej', snd st' @ new')"
    "\<forall>p \<in> set new'. rp_listener p \<in> ln_local_endpoint ` set ls \<and> genuine (rp_packet p)"
    using assms(2) by (auto simp: drained_def)
  show ?thesis unfolding drained_def
    by (rule exI [of _ "new @ new'"], rule exI [of _ "rej + rej'"])
      (use a b in \<open>auto simp: count_received_add\<close>)
qed

lemma drain_drained: "drained [l] n st (drain os l n st s)"
proof (induction n arbitrary: st s)
  case 0
  then show ?case by (cases st) (simp add: drained_same)
next
  case (Suc n)
  obtain m ps where st: "st = (m, ps)" by (cases st)
  obtain r t where tr: "try_receive os (ln_socket l) kMaxUdpPayloadSize s = (r, t)" by (cases "try_receive os (ln_socket l) kMaxUdpPayloadSize s")
  consider e where "r = Inl e" | "r = Inr None" | dg where "r = Inr (Some dg)"
    by (cases r; cases "projr r") auto
  then show ?case
  proof cases
    case (3 dg)
    have len: "length (rd_bytes dg) \<le> kMaxUdpPayloadSize"
      using receive_datagram_result tr 3 unfolding try_receive_def by fastforce
    obtain d where d: "decode_packet (rd_bytes dg) = Inr d" using decode_packet_eq by blast
    define s' where "s' = t\<lparr>m_world := snd (lib_steady_now os (m_world t))\<rparr>"
    show ?thesis
    proof (cases "dr_packet d")
      case None
      let ?m = "count_received m 0 1"
      have eq: "drain os l (Suc n) st s = drain os l n (?m, ps) s'"
        by (simp add: st tr 3 d None s'_def case_prod_beta count_received_def)
      have "drained [l] 1 st ((Inr (), (?m, ps)), s')"
        unfolding drained_def by (rule exI [of _ "[]"], rule exI [of _ 1]) (simp add: st)
      from drained_trans [OF this Suc.IH] show ?thesis unfolding eq by simp
    next
      case (Some p)
      let ?p = "\<lparr>rp_packet = p, rp_source = rd_source dg, rp_listener = ln_local_endpoint l,
        rp_receive_timestamp_ns = fst (lib_steady_now os (m_world t))\<rparr>"
      let ?m = "count_received m 1 0"
      have eq: "drain os l (Suc n) st s = drain os l n (?m, ps @ [?p]) s'"
        by (simp add: st tr 3 d Some s'_def case_prod_beta count_received_def)
      have "drained [l] 1 st ((Inr (), (?m, ps @ [?p])), s')"
        unfolding drained_def
        by (rule exI [of _ "[?p]"], rule exI [of _ 0]) (use d Some len in \<open>auto simp: st genuine_def\<close>)
      from drained_trans [OF this Suc.IH] show ?thesis unfolding eq by simp
    qed
  qed (simp_all add: st tr drained_same)
qed

lemma drain_neutral: "m_open (snd (drain os l n st s)) = m_open s"
proof (induction n arbitrary: st s)
  case (Suc n)
  obtain m ps where st: "st = (m, ps)" by (cases st)
  have "m_open (snd (try_receive os (ln_socket l) kMaxUdpPayloadSize s)) = m_open s"
    by (rule fd_neutralD) simp
  then show ?case
    by (auto simp: st Suc case_prod_beta Let_def split: sum.split option.split)
next
  case 0
  then show ?case by (cases st) simp
qed

lemma poll_events_neutral: "m_open (snd (poll_events os r evs st s)) = m_open s"
proof (induction evs arbitrary: st s)
  case (Cons ev evs)
  then show ?case using drain_neutral [of os _ _ st s]
    by (auto simp: Let_def split: sum.split prod.split dest: arg_cong [of _ _ "\<lambda>x. m_open (snd x)"])
qed simp

lemma poll_events_drained:
  "drained (er_listeners r) (length evs * er_max_datagrams r) st (poll_events os r evs st s)"
proof (induction evs arbitrary: st s)
  case Nil
  show ?case using drained_same [where n = 0] by simp
next
  case (Cons ev evs)
  let ?n = "er_max_datagrams r" and ?L = "er_listeners r"
  have skip: "drained ?L (length (ev # evs) * ?n) st (poll_events os r evs st s)"
    by (rule drained_mono [OF Cons.IH]) simp_all
  show ?case
  proof (cases "ev_events ev AND EPOLLIN = 0 \<or> unat (ev_data ev) \<ge> length ?L")
    case True
    then show ?thesis using skip by (auto simp: Let_def drained_same)
  next
    case False
    let ?l = "?L ! unat (ev_data ev)"
    have l: "set [?l] \<subseteq> set ?L" using False by simp
    obtain res st' s' where d: "drain os ?l ?n st s = ((res, st'), s')" by (metis prod.exhaust)
    have one: "drained ?L ?n st ((res, st'), s')"
      using drained_mono [OF drain_drained [of ?l ?n st os s] le_refl l] d by simp
    show ?thesis
    proof (cases res)
      case (Inl e)
      then show ?thesis using False d drained_mono [OF one, where n' = "length (ev # evs) * ?n" and ls' = ?L] by (simp add: Let_def)
    next
      case (Inr u)
      then show ?thesis using False d drained_trans [OF one Cons.IH] by (simp add: Let_def)
    qed
  qed
qed

section \<open>The datagrams the kernel hands over\<close>

text \<open>A log of the datagrams the kernel has handed over, with the socket of each, as a function of the
  world: every successful \<open>recvmsg\<close> appends the datagram it reports, and a failed one, a wait and the
  clock leave the log alone. Every kernel can be extended with such a log (\<open>recording\<close> below).\<close>

type_synonym receive_log = "(fd \<times> received_message) list"

definition records_receives :: "'w os \<Rightarrow> ('w \<Rightarrow> receive_log) \<Rightarrow> bool" where
  "records_receives os got \<longleftrightarrow>
     (\<forall>d n w. got (snd (sys_recvmsg os d n w)) = got w @
        (case fst (sys_recvmsg os d n w) of Inl e \<Rightarrow> [] | Inr message \<Rightarrow> [(d, message)]))
   \<and> (\<forall>d n timeout w. got (snd (sys_epoll_wait os d n timeout w)) = got w)
   \<and> (\<forall>w. got (snd (lib_steady_now os w)) = got w)"

text \<open>What one datagram read from a listener has to lead to: its packet with the sender's and the
  listener's endpoint, or nothing when it does not decode.\<close>

fun packet_of :: "'w os \<Rightarrow> listener \<times> received_message \<Rightarrow> (packet \<times> ipv4_endpoint \<times> ipv4_endpoint) list" where
  "packet_of os (l, message) =
     (case decode_packet (rm_data message) of
        Inl e \<Rightarrow> []
      | Inr r \<Rightarrow> (case (dr_packet r, from_sockaddr os (rm_name message)) of
           (Some p, Inr source) \<Rightarrow> [(p, source, ln_local_endpoint l)]
         | _ \<Rightarrow> []))"

definition packets_of where "packets_of os rs = concat (map (packet_of os) rs)"
definition refused_in where "refused_in os rs = length (filter (\<lambda>x. packet_of os x = []) rs)"

text \<open>What a returned packet says.\<close>

definition content :: "received_packet \<Rightarrow> packet \<times> ipv4_endpoint \<times> ipv4_endpoint" where
  "content p = (rp_packet p, rp_source p, rp_listener p)"

text \<open>A datagram whose receiving throws: truncated, over the limit, or from an address without text.\<close>

definition unreceivable :: "'w os \<Rightarrow> received_message \<Rightarrow> bool" where
  "unreceivable os message \<longleftrightarrow> rm_truncated message \<or> kMaxUdpPayloadSize < length (rm_data message)
     \<or> (\<exists>e. from_sockaddr os (rm_name message) = Inl e)"

lemma packets_of_simps [simp]:
  "packets_of os [] = []" "packets_of os (xs @ ys) = packets_of os xs @ packets_of os ys"
  "refused_in os [] = 0" "refused_in os (xs @ ys) = refused_in os xs + refused_in os ys"
  by (simp_all add: packets_of_def refused_in_def)

lemma packets_of_count: "length (packets_of os rs) + refused_in os rs = length rs"
proof (induction rs)
  case (Cons x rs)
  have "length (packet_of os x) \<le> 1"
    by (cases x) (auto split: sum.split option.split)
  then have "length (packet_of os x) = (if packet_of os x = [] then 0 else 1)"
    by (cases "packet_of os x") auto
  then show ?case using Cons by (simp add: packets_of_def refused_in_def)
qed simp

text \<open>The log grows by the datagrams \<open>rs\<close>, each counted and turned into its packet, and by at most one
  more, when receiving that one throws.\<close>

definition logged :: "'w os \<Rightarrow> ('w \<Rightarrow> receive_log) \<Rightarrow> listener list \<Rightarrow> nat \<Rightarrow> poll_state \<Rightarrow> 'w machine
    \<Rightarrow> (unit cpp \<times> poll_state) \<times> 'w machine \<Rightarrow> bool" where
  "logged os got ls n st s out \<longleftrightarrow> (\<exists>rs lost new.
     length rs \<le> n \<and> fst ` set rs \<subseteq> set ls
     \<and> got (m_world (snd out)) = got (m_world s) @ map (\<lambda>(l, message). (ln_socket l, message)) rs @ lost
     \<and> snd (fst out) = (count_received (fst st) (length (packets_of os rs)) (refused_in os rs), snd st @ new)
     \<and> map content new = packets_of os rs
     \<and> length lost \<le> 1 \<and> (\<forall>x \<in> set lost. unreceivable os (snd x)) \<and> (fst (fst out) = Inr () \<longrightarrow> lost = []))"

lemma logged_same: "got (m_world t) = got (m_world s) \<Longrightarrow> logged os got ls n st s ((res, st), t)"
  unfolding logged_def by (rule exI [of _ "[]"], rule exI [of _ "[]"], rule exI [of _ "[]"]) simp

lemma logged_mono: "logged os got ls n st s out \<Longrightarrow> n \<le> n' \<Longrightarrow> set ls \<subseteq> set ls' \<Longrightarrow> logged os got ls' n' st s out"
  unfolding logged_def by (elim exE, intro exI) auto

lemma logged_trans:
  assumes "logged os got ls n st s ((Inr u, st'), s')" "logged os got ls n' st' s' out"
  shows "logged os got ls (n + n') st s out"
proof -
  obtain rs new where a: "length rs \<le> n" "fst ` set rs \<subseteq> set ls"
    "got (m_world s') = got (m_world s) @ map (\<lambda>(l, message). (ln_socket l, message)) rs"
    "st' = (count_received (fst st) (length (packets_of os rs)) (refused_in os rs), snd st @ new)"
    "map content new = packets_of os rs"
    using assms(1) by (auto simp: logged_def)
  obtain rs' lost new' where b: "length rs' \<le> n'" "fst ` set rs' \<subseteq> set ls"
    "got (m_world (snd out)) = got (m_world s') @ map (\<lambda>(l, message). (ln_socket l, message)) rs' @ lost"
    "snd (fst out) = (count_received (fst st') (length (packets_of os rs')) (refused_in os rs'), snd st' @ new')"
    "map content new' = packets_of os rs'"
    "length lost \<le> 1" "\<forall>x \<in> set lost. unreceivable os (snd x)" "fst (fst out) = Inr () \<longrightarrow> lost = []"
    using assms(2) unfolding logged_def by blast
  show ?thesis unfolding logged_def
    by (rule exI [of _ "rs @ rs'"], rule exI [of _ lost], rule exI [of _ "new @ new'"])
      (use a b in \<open>simp add: count_received_add image_Un\<close>)
qed

lemma try_receive_log:
  assumes "records_receives os got" and "try_receive os d kMaxUdpPayloadSize s = (r, t)"
  shows "case r of
      Inr (Some dg) \<Rightarrow> (\<exists>message. got (m_world t) = got (m_world s) @ [(d, message)]
        \<and> rd_bytes dg = rm_data message \<and> from_sockaddr os (rm_name message) = Inr (rd_source dg))
    | Inr None \<Rightarrow> got (m_world t) = got (m_world s)
    | Inl e \<Rightarrow> got (m_world t) = got (m_world s)
        \<or> (\<exists>message. got (m_world t) = got (m_world s) @ [(d, message)] \<and> unreceivable os message)"
proof -
  let ?call = "sys_recvmsg os d kMaxUdpPayloadSize (m_world s)"
  have g: "got (snd ?call) = got (m_world s) @ (case fst ?call of Inl e \<Rightarrow> [] | Inr message \<Rightarrow> [(d, message)])"
    using assms(1) by (simp add: records_receives_def)
  show ?thesis
  proof (cases "fst ?call")
    case (Inl e)
    then show ?thesis using assms(2) g
      by (auto simp: try_receive_def receive_datagram_def io_simps kMaxUdpPayloadSize_def split: if_splits)
  next
    case (Inr message)
    then show ?thesis using assms(2) g
      by (auto simp: try_receive_def receive_datagram_def io_simps kMaxUdpPayloadSize_def unreceivable_def
          split: if_splits sum.splits)
  qed
qed

lemma drain_logged:
  assumes "records_receives os got"
  shows "logged os got [l] n st s (drain os l n st s)"
proof (induction n arbitrary: st s)
  case 0
  then show ?case by (cases st) (simp add: logged_same)
next
  case (Suc n)
  obtain m ps where st: "st = (m, ps)" by (cases st)
  obtain r t where tr: "try_receive os (ln_socket l) kMaxUdpPayloadSize s = (r, t)" by (cases "try_receive os (ln_socket l) kMaxUdpPayloadSize s")
  note rlog = try_receive_log [OF assms tr]
  consider e where "r = Inl e" | "r = Inr None" | dg where "r = Inr (Some dg)"
    by (cases r; cases "projr r") auto
  then show ?case
  proof cases
    case (1 e)
    consider "got (m_world t) = got (m_world s)"
      | message where "got (m_world t) = got (m_world s) @ [(ln_socket l, message)]" "unreceivable os message"
      using rlog 1 by auto
    then show ?thesis
    proof cases
      case 1
      then show ?thesis by (simp add: st tr \<open>r = Inl e\<close> logged_same)
    next
      case (2 message)
      show ?thesis unfolding logged_def
        by (rule exI [of _ "[]"], rule exI [of _ "[(ln_socket l, message)]"], rule exI [of _ "[]"])
          (simp add: st tr \<open>r = Inl e\<close> 2)
    qed
  next
    case 2
    then show ?thesis using rlog by (simp add: st tr logged_same)
  next
    case (3 dg)
    obtain message where message: "got (m_world t) = got (m_world s) @ [(ln_socket l, message)]"
      "rd_bytes dg = rm_data message" "from_sockaddr os (rm_name message) = Inr (rd_source dg)"
      using rlog 3 by auto
    obtain d where d: "decode_packet (rm_data message) = Inr d" using decode_packet_eq by blast
    define s' where "s' = t\<lparr>m_world := snd (lib_steady_now os (m_world t))\<rparr>"
    have world: "got (m_world s') = got (m_world s) @ [(ln_socket l, message)]"
      using assms message(1) by (simp add: s'_def records_receives_def)
    show ?thesis
    proof (cases "dr_packet d")
      case None
      let ?m = "count_received m 0 1"
      have eq: "drain os l (Suc n) st s = drain os l n (?m, ps) s'"
        by (simp add: st tr 3 message(2) d None s'_def case_prod_beta count_received_def)
      have "logged os got [l] 1 st s ((Inr (), (?m, ps)), s')"
        unfolding logged_def
        by (rule exI [of _ "[(l, message)]"], rule exI [of _ "[]"], rule exI [of _ "[]"])
          (simp add: st world packets_of_def refused_in_def d None)
      from logged_trans [OF this Suc.IH] show ?thesis unfolding eq by simp
    next
      case (Some p)
      let ?p = "\<lparr>rp_packet = p, rp_source = rd_source dg, rp_listener = ln_local_endpoint l,
        rp_receive_timestamp_ns = fst (lib_steady_now os (m_world t))\<rparr>"
      let ?m = "count_received m 1 0"
      have eq: "drain os l (Suc n) st s = drain os l n (?m, ps @ [?p]) s'"
        by (simp add: st tr 3 message(2) d Some s'_def case_prod_beta count_received_def)
      have "logged os got [l] 1 st s ((Inr (), (?m, ps @ [?p])), s')"
        unfolding logged_def
        by (rule exI [of _ "[(l, message)]"], rule exI [of _ "[]"], rule exI [of _ "[?p]"])
          (simp add: st world packets_of_def refused_in_def content_def d Some message(3))
      from logged_trans [OF this Suc.IH] show ?thesis unfolding eq by simp
    qed
  qed
qed

lemma poll_events_logged:
  assumes "records_receives os got"
  shows "logged os got (er_listeners r) (length evs * er_max_datagrams r) st s (poll_events os r evs st s)"
proof (induction evs arbitrary: st s)
  case Nil
  show ?case by (simp add: logged_same)
next
  case (Cons ev evs)
  let ?n = "er_max_datagrams r" and ?L = "er_listeners r"
  have skip: "logged os got ?L (length (ev # evs) * ?n) st s (poll_events os r evs st s)"
    by (rule logged_mono [OF Cons.IH]) simp_all
  show ?case
  proof (cases "ev_events ev AND EPOLLIN = 0 \<or> unat (ev_data ev) \<ge> length ?L")
    case True
    then show ?thesis using skip by (auto simp: Let_def logged_same)
  next
    case False
    let ?l = "?L ! unat (ev_data ev)"
    have l: "set [?l] \<subseteq> set ?L" using False by simp
    obtain res st' s' where d: "drain os ?l ?n st s = ((res, st'), s')" by (metis prod.exhaust)
    have one: "logged os got ?L ?n st s ((res, st'), s')"
      using logged_mono [OF drain_logged [OF assms, of ?l ?n st s] le_refl l] d by simp
    show ?thesis
    proof (cases res)
      case (Inl e)
      then show ?thesis using False d logged_mono [OF one, where n' = "length (ev # evs) * ?n" and ls' = ?L]
        by (simp add: Let_def)
    next
      case (Inr u)
      then show ?thesis using False d logged_trans [OF one [unfolded Inr] Cons.IH] by (simp add: Let_def)
    qed
  qed
qed

section \<open>Properties\<close>

definition balanced :: "receiver_metrics \<Rightarrow> bool" where
  "balanced m \<longleftrightarrow> rx_datagrams_received m = rx_packets_accepted m + rx_packets_rejected m"

lemma balanced_count [simp]: "balanced (count_received m a b) \<longleftrightarrow> balanced m"
  by (simp add: balanced_def count_received_def algebra_simps)

text \<open>The events a poll handles: those the wait reports, none when the timeout is out of range or the
  wait fails.\<close>

definition ready_events :: "'w os \<Rightarrow> receiver \<Rightarrow> int \<Rightarrow> 'w \<Rightarrow> epoll_event list" where
  "ready_events os r timeout w =
     (if timeout < 0 \<or> INT_MAX < timeout then []
      else case fst (sys_epoll_wait os (er_epoll r) (length (er_listeners r)) (nat timeout) w) of
        Inl e \<Rightarrow> [] | Inr events \<Rightarrow> events)"

text \<open>A poll is its wait followed by the loop over the events, from either of two starting points.\<close>

lemma poll_run:
  assumes "poll os r timeout s = ((res, r'), t)" and "events = ready_events os r timeout (m_world s)"
    and "m = (if events = [] then er_metrics r else (er_metrics r)\<lparr>rx_epoll_wakeups := rx_epoll_wakeups (er_metrics r) + 1\<rparr>)"
  shows "\<exists>s' x m' ps. (s' = s \<or> s' = s\<lparr>m_world := snd (sys_epoll_wait os (er_epoll r) (length (er_listeners r)) (nat timeout) (m_world s))\<rparr>)
    \<and> poll_events os r events (m, []) s' = ((x, (m', ps)), t) \<and> r' = r\<lparr>er_metrics := m'\<rparr>
    \<and> (\<forall>qs. res = Inr qs \<longrightarrow> x = Inr () \<and> qs = ps)"
proof -
  let ?wait = "sys_epoll_wait os (er_epoll r) (length (er_listeners r)) (nat timeout) (m_world s)"
  consider "timeout < 0 \<or> INT_MAX < timeout" | e where "0 \<le> timeout" "timeout \<le> INT_MAX" "fst ?wait = Inl e"
    | evs where "0 \<le> timeout" "timeout \<le> INT_MAX" "fst ?wait = Inr evs"
    by (cases "fst ?wait") force+
  then show ?thesis
  proof cases
    case 1
    then show ?thesis using assms
      by (intro exI [of _ s] exI [of _ "Inr ()"] exI [of _ m] exI [of _ "[]"]) (auto simp: poll_def ready_events_def)
  next
    case 2
    then show ?thesis using assms
      by (intro exI [of _ "s\<lparr>m_world := snd ?wait\<rparr>"] exI [of _ "Inr ()"] exI [of _ m] exI [of _ "[]"])
        (auto simp: poll_def ready_events_def case_prod_beta Let_def split: if_splits)
  next
    case 3
    then have ev: "events = evs" using assms(2) by (simp add: ready_events_def)
    let ?s = "s\<lparr>m_world := snd ?wait\<rparr>"
    obtain x m' ps t' where pe: "poll_events os r events (m, []) ?s = ((x, (m', ps)), t')" by (metis prod.exhaust)
    have "poll os r timeout s = ((case x of Inl e \<Rightarrow> Inl e | Inr _ \<Rightarrow> Inr ps, r\<lparr>er_metrics := m'\<rparr>), t')"
      using 3 pe [unfolded assms(3)]
      by (cases "evs = []"; cases x) (simp_all add: poll_def Let_def case_prod_beta ev)
    then show ?thesis using assms(1) pe
      by (intro exI [of _ ?s] exI [of _ x] exI [of _ m'] exI [of _ ps]) (auto split: sum.splits)
  qed
qed

text \<open>C24. Whatever the kernel and the network deliver, \<open>poll\<close> returns or throws after at most
  \<open>max_datagrams_per_listener_per_poll\<close> receives per ready event, so one busy socket cannot starve
  the others. Against any log of the datagrams the kernel hands over: the datagrams read during the
  poll are counted as received, each once, those that decode as accepted and the others as rejected,
  even when the poll then throws; the packets a poll returns are exactly those of the accepted
  datagrams, in the order they were read, each with its sender and the local endpoint of the listener
  it was read from. The one exception is a datagram whose own receiving throws (truncated, over the
  limit, or with an address that cannot be written): it is read last, is not counted, and makes the
  poll throw. A wake-up is counted when there were events. No descriptor is opened or closed.\<close>

theorem poll_accounts:
  assumes "poll os r timeout s = ((res, r'), t)" and events: "events = ready_events os r timeout (m_world s)"
  shows "m_open t = m_open s
    \<and> er_listeners r' = er_listeners r
    \<and> (balanced (er_metrics r) \<longrightarrow> balanced (er_metrics r'))
    \<and> rx_epoll_wakeups (er_metrics r') = rx_epoll_wakeups (er_metrics r) + (if events = [] then 0 else 1)
    \<and> (\<exists>acc rej. acc + rej \<le> length events * er_max_datagrams r
        \<and> rx_datagrams_received (er_metrics r') = rx_datagrams_received (er_metrics r) + of_nat (acc + rej)
        \<and> rx_packets_accepted (er_metrics r') = rx_packets_accepted (er_metrics r) + of_nat acc
        \<and> (\<forall>ps. res = Inr ps \<longrightarrow> length ps = acc
            \<and> (\<forall>p \<in> set ps. rp_listener p \<in> set (local_endpoints r) \<and> genuine (rp_packet p))))
    \<and> (\<forall>got. records_receives os got \<longrightarrow> (\<exists>rs lost.
        got (m_world t) = got (m_world s) @ map (\<lambda>(l, message). (ln_socket l, message)) rs @ lost
        \<and> length rs \<le> length events * er_max_datagrams r \<and> fst ` set rs \<subseteq> set (er_listeners r)
        \<and> rx_datagrams_received (er_metrics r') = rx_datagrams_received (er_metrics r) + of_nat (length rs)
        \<and> rx_packets_accepted (er_metrics r') = rx_packets_accepted (er_metrics r) + of_nat (length (packets_of os rs))
        \<and> rx_packets_rejected (er_metrics r') = rx_packets_rejected (er_metrics r) + of_nat (refused_in os rs)
        \<and> (\<forall>ps. res = Inr ps \<longrightarrow> map content ps = packets_of os rs \<and> lost = [])
        \<and> length lost \<le> 1 \<and> (\<forall>x \<in> set lost. unreceivable os (snd x))))"
proof -
  define m where "m = (if events = [] then er_metrics r
    else (er_metrics r)\<lparr>rx_epoll_wakeups := rx_epoll_wakeups (er_metrics r) + 1\<rparr>)"
  obtain s' x m' ps where run: "s' = s \<or> s' = s\<lparr>m_world := snd (sys_epoll_wait os (er_epoll r) (length (er_listeners r)) (nat timeout) (m_world s))\<rparr>"
    "poll_events os r events (m, []) s' = ((x, (m', ps)), t)" "r' = r\<lparr>er_metrics := m'\<rparr>"
    "\<forall>qs. res = Inr qs \<longrightarrow> x = Inr () \<and> qs = ps"
    using poll_run [OF assms m_def] by blast
  have m: "balanced m \<longleftrightarrow> balanced (er_metrics r)" "rx_datagrams_received m = rx_datagrams_received (er_metrics r)"
    "rx_packets_accepted m = rx_packets_accepted (er_metrics r)" "rx_packets_rejected m = rx_packets_rejected (er_metrics r)"
    "rx_epoll_wakeups m = rx_epoll_wakeups (er_metrics r) + (if events = [] then 0 else 1)"
    by (simp_all add: m_def balanced_def)
  obtain new rej where d: "length new + rej \<le> length events * er_max_datagrams r"
    "m' = count_received m (length new) rej" "ps = new"
    "\<forall>p \<in> set new. rp_listener p \<in> ln_local_endpoint ` set (er_listeners r) \<and> genuine (rp_packet p)"
    using poll_events_drained [where os = os and r = r and evs = events and st = "(m, [])" and s = s'] unfolding run(2) drained_def by auto
  have "m_open t = m_open s"
    using poll_events_neutral [of os r events "(m, [])" s'] run(1,2) by auto
  moreover have "\<exists>acc rej. acc + rej \<le> length events * er_max_datagrams r
        \<and> rx_datagrams_received (er_metrics r') = rx_datagrams_received (er_metrics r) + of_nat (acc + rej)
        \<and> rx_packets_accepted (er_metrics r') = rx_packets_accepted (er_metrics r) + of_nat acc
        \<and> (\<forall>ps. res = Inr ps \<longrightarrow> length ps = acc
            \<and> (\<forall>p \<in> set ps. rp_listener p \<in> set (local_endpoints r) \<and> genuine (rp_packet p)))"
    by (rule exI [of _ "length new"], rule exI [of _ rej])
      (use d run(3,4) m in \<open>simp add: count_received_def local_endpoints_def\<close>)
  moreover have "\<exists>rs lost.
        got (m_world t) = got (m_world s) @ map (\<lambda>(l, message). (ln_socket l, message)) rs @ lost
        \<and> length rs \<le> length events * er_max_datagrams r \<and> fst ` set rs \<subseteq> set (er_listeners r)
        \<and> rx_datagrams_received (er_metrics r') = rx_datagrams_received (er_metrics r) + of_nat (length rs)
        \<and> rx_packets_accepted (er_metrics r') = rx_packets_accepted (er_metrics r) + of_nat (length (packets_of os rs))
        \<and> rx_packets_rejected (er_metrics r') = rx_packets_rejected (er_metrics r) + of_nat (refused_in os rs)
        \<and> (\<forall>ps. res = Inr ps \<longrightarrow> map content ps = packets_of os rs \<and> lost = [])
        \<and> length lost \<le> 1 \<and> (\<forall>x \<in> set lost. unreceivable os (snd x))"
    if rec: "records_receives os got" for got
  proof -
    have w: "got (m_world s') = got (m_world s)" using run(1) rec by (auto simp: records_receives_def)
    obtain rs lost where l: "length rs \<le> length events * er_max_datagrams r" "fst ` set rs \<subseteq> set (er_listeners r)"
      "got (m_world t) = got (m_world s) @ map (\<lambda>(l, message). (ln_socket l, message)) rs @ lost"
      "m' = count_received m (length (packets_of os rs)) (refused_in os rs)" "map content ps = packets_of os rs"
      "length lost \<le> 1" "\<forall>x \<in> set lost. unreceivable os (snd x)" "x = Inr () \<longrightarrow> lost = []"
      using poll_events_logged [OF rec, where r = r and evs = events and st = "(m, [])" and s = s']
      unfolding run(2) logged_def w by auto
    have "rx_datagrams_received m' = rx_datagrams_received m + of_nat (length rs)"
      using packets_of_count [of os rs] by (simp add: l(4) count_received_def flip: of_nat_add)
    moreover have "\<forall>qs. res = Inr qs \<longrightarrow> map content qs = packets_of os rs \<and> lost = []"
      using l(5,8) run(4) by auto
    ultimately show ?thesis using l(1-4,6,7) run(3) m
      by (intro exI [of _ rs] exI [of _ lost]) (simp add: count_received_def)
  qed
  moreover have "er_listeners r' = er_listeners r" by (simp add: run(3))
  moreover have "balanced (er_metrics r) \<longrightarrow> balanced (er_metrics r')" using m(1) by (simp add: run(3) d(2))
  moreover have "rx_epoll_wakeups (er_metrics r') = rx_epoll_wakeups (er_metrics r) + (if events = [] then 0 else 1)"
    using m(5) by (simp add: run(3) d(2) count_received_def)
  ultimately show ?thesis by blast
qed

text \<open>The descriptors of a receiver that was constructed, and of one that is destroyed.\<close>

definition owns_descriptors :: "receiver \<Rightarrow> fd multiset \<Rightarrow> 'w machine \<Rightarrow> bool" where
  "owns_descriptors r others s \<longleftrightarrow>
     mset (m_open s) = others + {#er_epoll r#} + mset (map ln_socket (er_listeners r))
     \<and> 0 \<le> er_epoll r \<and> (\<forall>l \<in> set (er_listeners r). 0 \<le> ln_socket l)"

lemma destroy_receiver_closes:
  "owns_descriptors r others s \<Longrightarrow> mset (m_open (destroy_receiver os r s)) = others"
  by (simp add: owns_descriptors_def destroy_receiver_def mset_close mset_close_all)

lemma new_receiver_opens:
  assumes "descriptors_valid os"
  shows "case new_receiver os config s of
      (Inl e, t) \<Rightarrow> mset (m_open t) = mset (m_open s)
    | (Inr r, t) \<Rightarrow> owns_descriptors r (mset (m_open s)) t
        \<and> length (er_listeners r) = length (ec_listen_endpoints config)
        \<and> 0 < er_max_datagrams r \<and> er_listeners r \<noteq> []"
proof (cases "create_epoll os config s")
  case (Pair x u)
  show ?thesis
  proof (cases x)
    case (Inl e)
    then have "m_open u = m_open s"
      using Pair by (auto simp: create_epoll_def io_bind_eq io_call_eq io_check_def split: if_splits sum.splits)
    then show ?thesis using Pair Inl by (simp add: new_receiver_def io_bind_eq)
  next
    case (Inr d)
    then have u: "m_open u = d # m_open s" "0 \<le> d" "ec_listen_endpoints config \<noteq> []"
      "0 < ec_max_datagrams_per_listener_per_poll config"
      using Pair assms by (auto simp: create_epoll_def io_bind_eq io_call_eq io_check_def descriptors_valid_def
          split: if_splits sum.splits)
    let ?a = "add_listeners os d [] (ec_listen_endpoints config) u"
    have "mset (m_open u) = (mset (m_open s) + {#d#}) + mset (map ln_socket [])" by (simp add: u(1))
    note a = add_listeners_opens [OF assms this, where epoll = d and es = "ec_listen_endpoints config"]
    show ?thesis
    proof (cases "fst ?a")
      case (Inl e)
      then show ?thesis using a Pair Inr u(2)
        by (auto simp: new_receiver_def io_bind_eq io_guarded_cases mset_close split: sum.splits prod.splits)
    next
      case ls: (Inr ls)
      then have l: "mset (m_open (snd ?a)) = mset (m_open s) + {#d#} + mset (map ln_socket ls)"
        "length ls = length (ec_listen_endpoints config)" "\<forall>l \<in> set ls. 0 \<le> ln_socket l"
        using a by (auto simp: case_prod_beta)
      then show ?thesis using Pair Inr u ls
        by (auto simp: new_receiver_def io_bind_eq io_guarded_cases owns_descriptors_def)
    qed
  qed
qed

text \<open>A poll leaves the descriptors, the listeners and undefined behaviour alone.\<close>

lemma drain_defined: "fst (fst (drain os l n (m, ps) s)) \<noteq> Inl Out_of_bounds"
proof (induction n arbitrary: m ps s)
  case (Suc n)
  have "fst (try_receive os (ln_socket l) kMaxUdpPayloadSize s) \<noteq> Inl Out_of_bounds"
    by (auto simp: try_receive_def receive_datagram_def io_simps from_sockaddr_def split: if_splits sum.splits)
  then show ?case using Suc
    by (auto simp: Let_def decode_packet_eq split: sum.split prod.split option.split)
qed simp

lemma poll_events_defined: "fst (fst (poll_events os r evs st s)) \<noteq> Inl Out_of_bounds"
proof (induction evs arbitrary: st s)
  case (Cons ev evs)
  have "fst (fst (drain os (er_listeners r ! unat (ev_data ev)) (er_max_datagrams r) st s)) \<noteq> Inl Out_of_bounds"
    by (cases st) (simp only: drain_defined not_False_eq_True)
  then show ?case using Cons by (auto simp: Let_def split: sum.split prod.split)
qed simp

lemma poll_keeps:
  assumes "poll os r timeout s = ((res, r'), t)"
  shows "m_open t = m_open s" "er_listeners r' = er_listeners r" "er_epoll r' = er_epoll r"
    "res \<noteq> Inl Out_of_bounds"
proof -
  show "m_open t = m_open s" "er_listeners r' = er_listeners r" "er_epoll r' = er_epoll r"
    using assms poll_events_neutral [of os r]
    by (auto simp: poll_def Let_def case_prod_beta split: if_splits sum.splits)
  show "res \<noteq> Inl Out_of_bounds"
    using assms poll_events_defined [of os r]
    by (auto simp: poll_def Let_def case_prod_beta split: if_splits sum.splits)
qed

text \<open>C25. Construction is leak-free: if any system call, address or configuration check fails after
  some listeners were opened, every descriptor opened so far has been closed again; on success
  exactly the epoll descriptor and one socket per configured endpoint are open, and destroying the
  receiver closes exactly those. An empty endpoint list, a zero datagram limit or too many endpoints
  throw before anything is opened.\<close>

theorem new_receiver_leak_free:
  assumes "descriptors_valid os"
  shows "case new_receiver os config s of
      (Inl e, t) \<Rightarrow> mset (m_open t) = mset (m_open s)
    | (Inr r, t) \<Rightarrow> mset (m_open t) = mset (m_open s) + {#er_epoll r#} + mset (map ln_socket (er_listeners r))
        \<and> length (er_listeners r) = length (ec_listen_endpoints config)
        \<and> 0 < er_max_datagrams r \<and> er_listeners r \<noteq> []
        \<and> mset (m_open (destroy_receiver os r t)) = mset (m_open s)"
proof (cases "new_receiver os config s")
  case (Pair x t)
  then show ?thesis
    using new_receiver_opens [OF assms, where config = config and s = s] destroy_receiver_closes [where os = os and s = t]
    by (auto simp: owns_descriptors_def split: sum.splits)
qed

definition toy_receiver :: receiver where
  "toy_receiver = \<lparr>er_epoll = 3, er_max_datagrams = Suc (Suc (Suc 0)),
     er_listeners = [\<lparr>ln_socket = 4, ln_local_endpoint = \<lparr>ep_address = ''127.0.0.1'', ep_port = 9000\<rparr>\<rparr>],
     er_metrics = zero_receiver_metrics\<rparr>"

definition toy_machine :: "toy_world machine" where
  "toy_machine = \<lparr>m_world = (5, [packet_bytes kImu 1 2 [], [1, 2, 3]]), m_open = [4, 3]\<rparr>"

text \<open>Any kernel with a log beside its world.\<close>

definition beside :: "('w \<Rightarrow> 'a \<times> 'w) \<Rightarrow> 'w \<times> 'g \<Rightarrow> 'a \<times> ('w \<times> 'g)" where
  "beside f wg = (fst (f (fst wg)), (snd (f (fst wg)), snd wg))"

definition recording :: "'w os \<Rightarrow> ('w \<times> receive_log) os" where
  "recording os =
     \<lparr>sys_socket = beside (sys_socket os), sys_bind = (\<lambda>d a. beside (sys_bind os d a)),
      sys_getsockname = (\<lambda>d. beside (sys_getsockname os d)),
      sys_fcntl_getfl = (\<lambda>d. beside (sys_fcntl_getfl os d)),
      sys_fcntl_setfl = (\<lambda>d fl. beside (sys_fcntl_setfl os d fl)),
      sys_recvmsg = (\<lambda>d n (w, g). case sys_recvmsg os d n w of
          (Inl e, w) \<Rightarrow> (Inl e, (w, g)) | (Inr message, w) \<Rightarrow> (Inr message, (w, g @ [(d, message)]))),
      sys_sendto = (\<lambda>d b a. beside (sys_sendto os d b a)),
      sys_close = (\<lambda>d (w, g). (sys_close os d w, g)),
      sys_epoll_create = beside (sys_epoll_create os),
      sys_epoll_add = (\<lambda>e d ev. beside (sys_epoll_add os e d ev)),
      sys_epoll_wait = (\<lambda>e n ms. beside (sys_epoll_wait os e n ms)),
      lib_inet_pton = lib_inet_pton os, lib_inet_ntop = lib_inet_ntop os,
      lib_steady_now = beside (lib_steady_now os)\<rparr>"

lemma recording_calls:
  "sys_recvmsg (recording os) d n (w, g) = (case sys_recvmsg os d n w of
     (Inl e, w) \<Rightarrow> (Inl e, (w, g)) | (Inr message, w) \<Rightarrow> (Inr message, (w, g @ [(d, message)])))"
  "sys_epoll_wait (recording os) d n timeout (w, g)
     = (fst (sys_epoll_wait os d n timeout w), (snd (sys_epoll_wait os d n timeout w), g))"
  "lib_steady_now (recording os) (w, g) = (fst (lib_steady_now os w), (snd (lib_steady_now os w), g))"
  "lib_inet_ntop (recording os) = lib_inet_ntop os"
  by (simp_all add: recording_def beside_def)

lemma recording_records: "records_receives (recording os) snd"
  by (auto simp: records_receives_def recording_def beside_def split: prod.splits sum.splits)

lemma poll_accounts_witness:
  "\<exists>ps r' t. poll (recording toy_os) toy_receiver 10 \<lparr>m_world = (m_world toy_machine, []), m_open = [4, 3]\<rparr>
      = ((Inr ps, r'), t)
    \<and> length ps = 1 \<and> genuine (rp_packet (hd ps)) \<and> balanced (er_metrics r') \<and> m_open t = [4, 3]
    \<and> map (rm_data \<circ> snd) (snd (m_world t)) = [packet_bytes kImu 1 2 [], [1, 2, 3]]
    \<and> rx_datagrams_received (er_metrics r') = 2 \<and> rx_epoll_wakeups (er_metrics r') = 1"
proof -
  let ?s = "\<lparr>m_world = (m_world toy_machine, [] :: receive_log), m_open = [4, 3]\<rparr>"
  obtain res r' t where p: "poll (recording toy_os) toy_receiver 10 ?s = ((res, r'), t)" by (metis prod.exhaust)
  have "case poll (recording toy_os) toy_receiver 10 ?s of
      ((Inr ps, r'), t) \<Rightarrow> length ps = 1 \<and> map (rm_data \<circ> snd) (snd (m_world t)) = [packet_bytes kImu 1 2 [], [1, 2, 3]]
    | _ \<Rightarrow> False"
  proof -
    have good: "\<exists>h. dr_packet (decode_outcome (packet_bytes kImu 1 2 [])) = Some h"
      using decode_packet_bytes [of kImu "[]" 1 2] by simp
    have bad: "dr_packet (decode_outcome [1, 2, 3]) = None"
      by (simp add: decode_outcome_def decode_checks_def Let_def)
    show ?thesis
      using good by (auto simp: poll_def toy_receiver_def toy_machine_def recording_calls toy_os_def
          INT_MAX_def EPOLLIN_def try_receive_def receive_datagram_def kMaxUdpPayloadSize_def from_sockaddr_def
          io_simps decode_packet_eq bad)
  qed
  from this [unfolded p] obtain ps where ps: "res = Inr ps" "length ps = 1"
    "map (rm_data \<circ> snd) (snd (m_world t)) = [packet_bytes kImu 1 2 [], [1, 2, 3]]"
    by (auto split: sum.splits)
  have bal: "balanced (er_metrics toy_receiver)" by code_simp
  have ev: "ready_events (recording toy_os) toy_receiver 10 (m_world ?s) = [\<lparr>ev_events = 1, ev_data = 0\<rparr>]"
    by (simp add: ready_events_def INT_MAX_def recording_calls toy_os_def toy_machine_def)
  note acc = poll_accounts [OF p refl, unfolded ev]
  note account = acc [THEN conjunct2, THEN conjunct2, THEN conjunct2, THEN conjunct2, THEN conjunct2, rule_format,
      OF recording_records]
  have two: "length (snd (m_world t)) = 2" using arg_cong [OF ps(3), of length] by simp
  have "rx_datagrams_received (er_metrics r') = 2"
    using account
  proof (elim exE conjE)
    fix rs lost
    assume a: "snd (m_world t) = snd (m_world ?s) @ map (\<lambda>(l, message). (ln_socket l, message)) rs @ lost"
      "rx_datagrams_received (er_metrics r') = rx_datagrams_received (er_metrics toy_receiver) + of_nat (length rs)"
      "\<forall>qs. res = Inr qs \<longrightarrow> map content qs = packets_of (recording toy_os) rs \<and> lost = []"
    then have "lost = []" using ps(1) by blast
    then have "length rs = 2" using a(1) two by simp
    then show ?thesis using a(2) by (simp add: toy_receiver_def zero_receiver_metrics_def)
  qed
  moreover have "rx_epoll_wakeups (er_metrics r') = 1"
    using acc [THEN conjunct2, THEN conjunct2, THEN conjunct2, THEN conjunct1]
    by (simp add: toy_receiver_def zero_receiver_metrics_def)
  moreover have "hd ps \<in> set ps" using ps(2) by (intro hd_in_set) auto
  moreover have "balanced (er_metrics r')" using acc bal by blast
  moreover have "m_open t = [4, 3]" using acc [THEN conjunct1] by simp
  moreover have "\<forall>p \<in> set ps. genuine (rp_packet p)" using acc ps(1) by blast
  ultimately show ?thesis using p ps
    by (intro exI [of _ ps] exI [of _ r'] exI [of _ t]) simp
qed

definition toy_config :: receiver_config where
  "toy_config = \<lparr>ec_listen_endpoints = [\<lparr>ep_address = ''127.0.0.1'', ep_port = 9000\<rparr>,
     \<lparr>ep_address = ''nowhere'', ep_port = 9001\<rparr>], ec_max_datagrams_per_listener_per_poll = 64\<rparr>"

text \<open>The second endpoint of \<open>toy_config\<close> has no valid address: the first socket and the epoll descriptor
  are closed again.\<close>

lemma new_receiver_leak_free_witness:
  "fst (new_receiver toy_os toy_config (toy_machine\<lparr>m_open := [0]\<rparr>)) = Inl (Invalid_argument ''invalid IPv4 address: nowhere'')
   \<and> m_open (snd (new_receiver toy_os toy_config (toy_machine\<lparr>m_open := [0]\<rparr>))) = [0]"
proof -
  have e: "fst (new_receiver toy_os toy_config (toy_machine\<lparr>m_open := [0]\<rparr>)) = Inl (Invalid_argument ''invalid IPv4 address: nowhere'')"
    by (simp add: new_receiver_def create_epoll_def add_listener_def bind_to_def udp_open_def
        set_non_blocking_def local_endpoint_def to_sockaddr_def from_sockaddr_def io_guarded_cases io_simps
        io_check_def toy_os_def toy_config_def toy_machine_def toy_pton_def INT_MAX_def c_str_def NUL_char_def)
  then have "mset (m_open (snd (new_receiver toy_os toy_config (toy_machine\<lparr>m_open := [0]\<rparr>)))) = {#0#}"
    using new_receiver_leak_free [OF toy_os_valid, where config = toy_config and s = "toy_machine\<lparr>m_open := [0]\<rparr>"]
    by (simp add: case_prod_beta)
  then show ?thesis using e by simp
qed

end
