(* ===== verification/Runtime_Config.thy ===== *)
theory Runtime_Config
  imports Decimal Health_Monitor Worker_Pipeline Epoll_Receiver
begin

text \<open>
  \<open>RuntimeConfig\<close> and its command line, \<open>src/src/runtime/runtime_config.cpp\<close>: the argument vector is
  read as option and value pairs, each checked as it is met; the first problem is the error message.
  Durations of the health monitor are signed 64-bit counts of nanoseconds, \<open>size_t\<close> has 64 bits.
  \<open>inet_pton\<close> is the parameter \<open>lib_inet_pton\<close> of the system record.

  The main result is a reference specification without a loop or a state: which pair is the first
  wrong one, and every setting as the value of its option or its default.
\<close>

section \<open>Data\<close>

record runtime_config =
  rc_receiver :: receiver_config
  rc_pipeline :: pipeline_config
  rc_health :: health_config
  rc_packet_count :: "u64 option"
  rc_poll_timeout :: int

type_synonym parse_runtime_config_result = "string + runtime_config"

definition default_config :: runtime_config where
  "default_config =
     \<lparr>rc_receiver = \<lparr>ec_listen_endpoints = [\<lparr>ep_address = ''0.0.0.0'', ep_port = 9000\<rparr>],
                     ec_max_datagrams_per_listener_per_poll = 64\<rparr>,
      rc_pipeline = \<lparr>wc_worker_count = 2, wc_queue_capacity = 1024\<rparr>,
      rc_health = \<lparr>hc_max_sources = 256, hc_healthy_after_packets = 2,
                   hc_degraded_after = 500000000, hc_offline_after = 2000000000,
                   hc_recovery_after = 1000000000\<rparr>,
      rc_packet_count = None, rc_poll_timeout = 100\<rparr>"

section \<open>Values\<close>

definition parse_positive_integer :: "string \<Rightarrow> u64 option" where
  "parse_positive_integer text = (case parse_whole uint64_max text of
      None \<Rightarrow> None
    | Some value \<Rightarrow> if value = 0 then None else Some (word_of_int value))"

definition kNanosecondsPerMillisecond :: u64 where "kNanosecondsPerMillisecond = 1000000"

definition int64_max :: u64 where "int64_max = 0x7FFFFFFFFFFFFFFF"

definition parse_milliseconds :: "u64 \<Rightarrow> u64 option" where
  "parse_milliseconds value =
     (if value > int64_max div kNanosecondsPerMillisecond then None
      else Some (value * kNanosecondsPerMillisecond))"

definition rfind :: "char \<Rightarrow> string \<Rightarrow> nat option" where
  "rfind c text = (if c \<in> set text
     then Some (length text - 1 - length (takeWhile (\<lambda>x. x \<noteq> c) (rev text))) else None)"

definition parse_endpoint :: "'w os \<Rightarrow> string \<Rightarrow> ipv4_endpoint option" where
  "parse_endpoint os text = (case rfind CHR '':'' text of
      None \<Rightarrow> None
    | Some separator \<Rightarrow>
        if separator = 0 \<or> separator + 1 = length text then None
        else (case parse_positive_integer (drop (separator + 1) text) of
            None \<Rightarrow> None
          | Some port \<Rightarrow>
              if port > 65535 then None
              else (let address = take separator text in
                case lib_inet_pton os (c_str address) of
                  PtonOk _ \<Rightarrow> Some \<lparr>ep_address = address, ep_port = ucast port\<rparr>
                | _ \<Rightarrow> None)))"

section \<open>The command line\<close>

text \<open>One option that may appear once, with its number; \<open>size_max\<close> is \<open>numeric_limits<size_t>::max()\<close>.\<close>

definition size_max :: u64 where "size_max = u64_max"

definition apply_option :: "string \<Rightarrow> u64 \<Rightarrow> runtime_config \<Rightarrow> string + runtime_config" where
  "apply_option option number c =
     (if option = ''--count'' then Inr (c\<lparr>rc_packet_count := Some number\<rparr>)
      else if option = ''--poll-timeout-ms'' then
        (if number > 2147483647 then Inl ''--poll-timeout-ms is too large''
         else Inr (c\<lparr>rc_poll_timeout := uint number\<rparr>))
      else if option = ''--max-drain'' then
        (if number > size_max then Inl ''--max-drain is too large''
         else Inr (c\<lparr>rc_receiver := (rc_receiver c)\<lparr>ec_max_datagrams_per_listener_per_poll := unat number\<rparr>\<rparr>))
      else if option = ''--max-sources'' then
        (if number > size_max then Inl ''--max-sources is too large''
         else Inr (c\<lparr>rc_health := (rc_health c)\<lparr>hc_max_sources := unat number\<rparr>\<rparr>))
      else if option = ''--health-degraded-ms'' \<or> option = ''--health-offline-ms''
          \<or> option = ''--health-recovery-ms'' then
        (case parse_milliseconds number of
           None \<Rightarrow> Inl (option @ '' is too large'')
         | Some duration \<Rightarrow>
             if option = ''--health-degraded-ms'' then
               Inr (c\<lparr>rc_health := (rc_health c)\<lparr>hc_degraded_after := duration\<rparr>\<rparr>)
             else if option = ''--health-offline-ms'' then
               Inr (c\<lparr>rc_health := (rc_health c)\<lparr>hc_offline_after := duration\<rparr>\<rparr>)
             else Inr (c\<lparr>rc_health := (rc_health c)\<lparr>hc_recovery_after := duration\<rparr>\<rparr>))
      else if option = ''--workers'' then
        (if number > size_max then Inl ''--workers is too large''
         else Inr (c\<lparr>rc_pipeline := (rc_pipeline c)\<lparr>wc_worker_count := unat number\<rparr>\<rparr>))
      else if option = ''--queue-capacity'' then
        (if number > size_max then Inl ''--queue-capacity is too large''
         else Inr (c\<lparr>rc_pipeline := (rc_pipeline c)\<lparr>wc_queue_capacity := unat number\<rparr>\<rparr>))
      else Inl (''unknown option: '' @ option))"

text \<open>The loop, with \<open>has_explicit_listener\<close> and the set of options seen.\<close>

fun parse_arguments ::
  "'w os \<Rightarrow> runtime_config \<Rightarrow> bool \<Rightarrow> string set \<Rightarrow> string list \<Rightarrow> string + runtime_config"
where
  "parse_arguments os c has_listener seen [] = Inr c"
| "parse_arguments os c has_listener seen [option] = Inl (''missing value for '' @ option)"
| "parse_arguments os c has_listener seen (option # value # arguments) =
     (if option = ''--listen'' then
        (case parse_endpoint os value of
           None \<Rightarrow> Inl ''--listen must use IPv4:port with port between 1 and 65535''
         | Some endpoint \<Rightarrow>
             (let endpoints = (if has_listener then ec_listen_endpoints (rc_receiver c) else [])
              in parse_arguments os
                (c\<lparr>rc_receiver := (rc_receiver c)\<lparr>ec_listen_endpoints := endpoints @ [endpoint]\<rparr>\<rparr>)
                True seen arguments))
      else if option \<in> seen then Inl (''duplicate option: '' @ option)
      else (case parse_positive_integer value of
          None \<Rightarrow> Inl (option @ '' must be a positive integer'')
        | Some number \<Rightarrow>
            (case apply_option option number c of
               Inl e \<Rightarrow> Inl e
             | Inr c \<Rightarrow> parse_arguments os c has_listener (insert option seen) arguments)))"

definition parse_runtime_config :: "'w os \<Rightarrow> string list \<Rightarrow> parse_runtime_config_result" where
  "parse_runtime_config os arguments =
     (case parse_arguments os default_config False {} arguments of
        Inl e \<Rightarrow> Inl e
      | Inr c \<Rightarrow>
          if sint (hc_offline_after (rc_health c)) \<le> sint (hc_degraded_after (rc_health c))
          then Inl ''--health-offline-ms must exceed --health-degraded-ms''
          else Inr c)"


section \<open>A reference specification\<close>

fun option_pairs :: "string list \<Rightarrow> (string \<times> string) list" where
  "option_pairs (option # value # arguments) = (option, value) # option_pairs arguments"
| "option_pairs _ = []"

definition singleton_options :: "string list" where
  "singleton_options = [''--count'', ''--poll-timeout-ms'', ''--max-drain'', ''--max-sources'',
     ''--health-degraded-ms'', ''--health-offline-ms'', ''--health-recovery-ms'', ''--workers'',
     ''--queue-capacity'']"

definition duration_options :: "string list" where
  "duration_options = [''--health-degraded-ms'', ''--health-offline-ms'', ''--health-recovery-ms'']"

text \<open>The largest number an option takes.\<close>

definition option_limit :: "string \<Rightarrow> int" where
  "option_limit option =
     (if option = ''--poll-timeout-ms'' then 2 ^ 31 - 1
      else if option \<in> set duration_options then (2 ^ 63 - 1) div 10 ^ 6
      else 2 ^ 64 - 1)"

text \<open>What is wrong with a pair, after the pairs before it.\<close>

definition pair_problem :: "'w os \<Rightarrow> (string \<times> string) list \<Rightarrow> string \<times> string \<Rightarrow> string option" where
  "pair_problem os earlier p = (case p of (option, value) \<Rightarrow>
     if option = ''--listen'' then
       (if parse_endpoint os value = None
        then Some ''--listen must use IPv4:port with port between 1 and 65535'' else None)
     else if option \<in> fst ` set earlier then Some (''duplicate option: '' @ option)
     else (case parse_positive_integer value of
         None \<Rightarrow> Some (option @ '' must be a positive integer'')
       | Some number \<Rightarrow>
           if option \<notin> set singleton_options then Some (''unknown option: '' @ option)
           else if uint number > option_limit option then Some (option @ '' is too large'')
           else None))"

definition no_problem :: "'w os \<Rightarrow> (string \<times> string) list \<Rightarrow> nat \<Rightarrow> bool" where
  "no_problem os ps n \<longleftrightarrow> (\<forall>i < n. pair_problem os (take i ps) (ps ! i) = None)"

abbreviation offline_ns :: "runtime_config \<Rightarrow> int" where
  "offline_ns c \<equiv> sint (hc_offline_after (rc_health c))"

abbreviation degraded_ns :: "runtime_config \<Rightarrow> int" where
  "degraded_ns c \<equiv> sint (hc_degraded_after (rc_health c))"

text \<open>Each setting is the value of its option, or its default.\<close>

definition setting :: "(string \<times> string) list \<Rightarrow> string \<Rightarrow> u64 \<Rightarrow> u64" where
  "setting ps option fallback = (case map_of ps option of
      None \<Rightarrow> fallback
    | Some value \<Rightarrow> the (parse_positive_integer value))"

definition listeners_given :: "'w os \<Rightarrow> (string \<times> string) list \<Rightarrow> ipv4_endpoint list" where
  "listeners_given os ps =
     map (\<lambda>p. the (parse_endpoint os (snd p))) (filter (\<lambda>p. fst p = ''--listen'') ps)"

definition config_from :: "'w os \<Rightarrow> (string \<times> string) list \<Rightarrow> runtime_config" where
  "config_from os ps =
     \<lparr>rc_receiver = \<lparr>ec_listen_endpoints =
         (if listeners_given os ps = [] then [\<lparr>ep_address = ''0.0.0.0'', ep_port = 9000\<rparr>]
          else listeners_given os ps),
         ec_max_datagrams_per_listener_per_poll = unat (setting ps ''--max-drain'' 64)\<rparr>,
      rc_pipeline = \<lparr>wc_worker_count = unat (setting ps ''--workers'' 2),
         wc_queue_capacity = unat (setting ps ''--queue-capacity'' 1024)\<rparr>,
      rc_health = \<lparr>hc_max_sources = unat (setting ps ''--max-sources'' 256),
         hc_healthy_after_packets = 2,
         hc_degraded_after = setting ps ''--health-degraded-ms'' 500 * 1000000,
         hc_offline_after = setting ps ''--health-offline-ms'' 2000 * 1000000,
         hc_recovery_after = setting ps ''--health-recovery-ms'' 1000 * 1000000\<rparr>,
      rc_packet_count = (if map_of ps ''--count'' = None then None else Some (setting ps ''--count'' 0)),
      rc_poll_timeout = uint (setting ps ''--poll-timeout-ms'' 100)\<rparr>"

lemma config_from_Nil: "config_from os [] = default_config"
  by (simp add: config_from_def default_config_def setting_def listeners_given_def)

lemma setting_snoc:
  "option \<notin> fst ` set ps \<Longrightarrow> setting (ps @ [(option, value)]) o' d =
     (if o' = option then the (parse_positive_integer value) else setting ps o' d)"
  using map_of_eq_None_iff [of ps option] by (auto simp: setting_def map_add_def split: option.splits)

lemma map_of_snoc:
  "map_of (ps @ [(option, value)]) o' =
     (if map_of ps o' = None \<and> o' = option then Some value else map_of ps o')"
  by (auto simp: map_add_def split: option.splits)

lemma setting_listen [simp]:
  "o' \<noteq> ''--listen'' \<Longrightarrow> setting (ps @ [(''--listen'', value)]) o' d = setting ps o' d"
  "o' \<noteq> ''--listen'' \<Longrightarrow> map_of (ps @ [(''--listen'', value)]) o' = map_of ps o'"
  by (auto simp: setting_def map_add_def split: option.splits)

lemma listeners_given_snoc [simp]:
  "listeners_given os (ps @ [(option, value)]) = listeners_given os ps @
     (if option = ''--listen'' then [the (parse_endpoint os value)] else [])"
  by (simp add: listeners_given_def)

text \<open>One accepted pair updates the configuration the lookups describe.\<close>

lemma config_from_listen:
  "config_from os (ps @ [(''--listen'', value)]) =
     (config_from os ps)\<lparr>rc_receiver := (rc_receiver (config_from os ps))\<lparr>ec_listen_endpoints :=
       (if listeners_given os ps \<noteq> [] then ec_listen_endpoints (rc_receiver (config_from os ps)) else [])
        @ [the (parse_endpoint os value)]\<rparr>\<rparr>"
  by (simp add: config_from_def)

lemma duration_limit:
  "parse_milliseconds n = (if uint n > (2 ^ 63 - 1) div 10 ^ 6 then None else Some (n * 1000000))"
proof -
  have "n > int64_max div kNanosecondsPerMillisecond \<longleftrightarrow> uint n > (2 ^ 63 - 1) div 10 ^ 6"
    by (simp add: word_less_def uint_div int64_max_def kNanosecondsPerMillisecond_def)
  then show ?thesis by (simp add: parse_milliseconds_def kNanosecondsPerMillisecond_def)
qed

lemma not_above_size_max: "\<not> n > size_max"
  by (simp add: size_max_def)

lemma apply_option_spec:
  assumes "option \<notin> fst ` set ps" "parse_positive_integer value = Some n" "option \<noteq> ''--listen''"
  shows "apply_option option n (config_from os ps) =
    (if option \<notin> set singleton_options then Inl (''unknown option: '' @ option)
     else if uint n > option_limit option then Inl (option @ '' is too large'')
     else Inr (config_from os (ps @ [(option, value)])))"
proof -
  have [simp]: "the (parse_positive_integer value) = n" using assms by simp
  have m: "map_of ps option = None" using assms by (simp add: map_of_eq_None_iff)
  have big: "\<not> uint n > 2 ^ 64 - 1" using unsigned_less [of n, where ?'a = int] by simp
  show ?thesis
  proof (cases "option \<in> set singleton_options")
    case False
    then show ?thesis by (simp add: apply_option_def singleton_options_def)
  next
    case True
    then show ?thesis using big m assms not_above_size_max [of n]
      by (simp only: singleton_options_def list.set insert_iff empty_iff, elim disjE)
        (simp_all add: apply_option_def singleton_options_def duration_options_def option_limit_def
          config_from_def setting_snoc duration_limit word_less_def map_of_snoc)
  qed
qed


text \<open>The loop, started after some accepted pairs, stops at the first problem or accepts them all.\<close>

fun first_problem :: "'w os \<Rightarrow> (string \<times> string) list \<Rightarrow> (string \<times> string) list \<Rightarrow> string option" where
  "first_problem os earlier [] = None"
| "first_problem os earlier (p # ps) = (case pair_problem os earlier p of
      None \<Rightarrow> first_problem os (earlier @ [p]) ps
    | Some e \<Rightarrow> Some e)"

lemma parse_arguments_spec:
  "parse_arguments os (config_from os earlier) (listeners_given os earlier \<noteq> [])
      (fst ` set earlier - {''--listen''}) arguments =
    (case first_problem os earlier (option_pairs arguments) of
       Some e \<Rightarrow> Inl e
     | None \<Rightarrow> if odd (length arguments) then Inl (''missing value for '' @ last arguments)
         else Inr (config_from os (earlier @ option_pairs arguments)))"
proof (induction arguments arbitrary: earlier rule: option_pairs.induct)
  case (1 option v arguments)
  let ?e = "earlier @ [(option, v)]"
  note IH = 1 [of ?e]
  have l: "odd (length arguments) \<Longrightarrow> last (option # v # arguments) = last arguments" by (cases arguments) auto
  show ?case
  proof (cases "option = ''--listen''")
    case True
    then show ?thesis using IH
      by (auto simp: pair_problem_def config_from_listen l split: option.split)
  next
    case False
    have s: "insert option (fst ` set earlier - {''--listen''}) = fst ` set ?e - {''--listen''}"
      "option \<in> fst ` set earlier - {''--listen''} \<longleftrightarrow> option \<in> fst ` set earlier"
      using False by auto
    show ?thesis
    proof (cases "option \<in> fst ` set earlier \<or> parse_positive_integer v = None")
      case True
      then show ?thesis using False by (auto simp: pair_problem_def split: option.splits)
    next
      case fresh: False
      then obtain n where n: "parse_positive_integer v = Some n" "option \<notin> fst ` set earlier" by auto
      from apply_option_spec [OF n(2,1) False, of os] show ?thesis
        using IH False n by (auto simp: pair_problem_def s l split: option.split)
    qed
  qed
qed simp_all

lemma first_problem_Some:
  "first_problem os earlier ps = Some e \<longleftrightarrow>
     (\<exists>n < length ps. (\<forall>i < n. pair_problem os (earlier @ take i ps) (ps ! i) = None)
        \<and> pair_problem os (earlier @ take n ps) (ps ! n) = Some e)"
proof (induction ps arbitrary: earlier)
  case (Cons p ps)
  show ?case
  proof (cases "pair_problem os earlier p")
    case None
    then show ?thesis using Cons [of "earlier @ [p]"]
      by (auto simp: Ex_less_Suc2 All_less_Suc2)
  qed (auto simp: Ex_less_Suc2 All_less_Suc2)
qed simp

lemma first_problem_None:
  "first_problem os earlier ps = None \<longleftrightarrow>
     (\<forall>i < length ps. pair_problem os (earlier @ take i ps) (ps ! i) = None)"
  by (induction ps arbitrary: earlier) (auto simp: All_less_Suc2 split: option.splits)


lemma no_problem_snoc:
  "no_problem os (ps @ [p]) (length (ps @ [p])) \<longleftrightarrow>
     no_problem os ps (length ps) \<and> pair_problem os ps p = None"
  by (auto simp: no_problem_def less_Suc_eq nth_append)

text \<open>Acceptance without the order: every pair is good on its own, and no option but
  \<open>--listen\<close> occurs twice.\<close>

definition good_pair :: "'w os \<Rightarrow> string \<times> string \<Rightarrow> bool" where
  "good_pair os p = (case p of (option, value) \<Rightarrow>
     if option = ''--listen'' then parse_endpoint os value \<noteq> None
     else option \<in> set singleton_options
       \<and> (case parse_positive_integer value of None \<Rightarrow> False | Some n \<Rightarrow> uint n \<le> option_limit option))"

definition good_pairs :: "'w os \<Rightarrow> (string \<times> string) list \<Rightarrow> bool" where
  "good_pairs os ps \<longleftrightarrow> (\<forall>p \<in> set ps. good_pair os p)
     \<and> distinct (filter (\<lambda>option. option \<noteq> ''--listen'') (map fst ps))"

lemma no_problem_iff_good: "no_problem os ps (length ps) \<longleftrightarrow> good_pairs os ps"
proof (induction ps rule: rev_induct)
  case Nil
  then show ?case by (simp add: no_problem_def good_pairs_def)
next
  case (snoc p ps)
  have "pair_problem os ps p = None \<longleftrightarrow>
      good_pair os p \<and> (fst p \<noteq> ''--listen'' \<longrightarrow> fst p \<notin> fst ` set ps)"
    by (cases p) (auto simp: pair_problem_def good_pair_def split: option.splits)
  then show ?case
    using snoc by (auto simp: no_problem_snoc good_pairs_def simp del: length_append)
qed

lemma parse_runtime_config_eq:
  "parse_runtime_config os args =
     (case first_problem os [] (option_pairs args) of
        Some e \<Rightarrow> Inl e
      | None \<Rightarrow>
          if odd (length args) then Inl (''missing value for '' @ last args)
          else if offline_ns (config_from os (option_pairs args)) \<le> degraded_ns (config_from os (option_pairs args))
          then Inl ''--health-offline-ms must exceed --health-degraded-ms''
          else Inr (config_from os (option_pairs args)))"
proof -
  have "parse_arguments os default_config False {} args = (case first_problem os [] (option_pairs args) of
      Some e \<Rightarrow> Inl e
    | None \<Rightarrow> if odd (length args) then Inl (''missing value for '' @ last args)
        else Inr (config_from os (option_pairs args)))"
    using parse_arguments_spec [of os "[]" args]
    by (simp only: append_Nil config_from_Nil listeners_given_def filter.simps list.map list.set
        image_empty empty_Diff not_True_eq_False simp_thms)
  then show ?thesis by (simp add: parse_runtime_config_def split: option.split)
qed

lemma first_problem_good: "first_problem os [] ps = None \<longleftrightarrow> good_pairs os ps"
  unfolding no_problem_iff_good [symmetric] by (simp add: first_problem_None no_problem_def)

lemma parse_Inr_iff:
  "parse_runtime_config os args = Inr c \<longleftrightarrow>
     even (length args) \<and> good_pairs os (option_pairs args) \<and> c = config_from os (option_pairs args)
       \<and> degraded_ns c < offline_ns c"
  by (auto simp: parse_runtime_config_eq simp flip: first_problem_good split: option.splits)

text \<open>C27. \<open>parse_runtime_config\<close> agrees with a specification without a loop. It accepts exactly the
  argument vectors of even length whose pairs are each good on their own (a known option, a number
  within its limit, an endpoint) with no option but \<open>--listen\<close> repeated, and whose offline timeout
  exceeds the degraded one; every setting of the accepted configuration is then the value of its
  option or its default, and the listeners are the endpoints in order. Otherwise the message is the
  one of the first wrong pair, else of the option without a value, else of the timeouts.\<close>

theorem parse_runtime_config_spec:
  "(parse_runtime_config os args = Inr c \<longleftrightarrow>
      even (length args) \<and> good_pairs os (option_pairs args) \<and> c = config_from os (option_pairs args) \<and> degraded_ns c < offline_ns c)
    \<and> (parse_runtime_config os args = Inl e \<longleftrightarrow>
      (\<exists>n < length (option_pairs args). no_problem os (option_pairs args) n
         \<and> pair_problem os (take n (option_pairs args)) (option_pairs args ! n) = Some e)
      \<or> good_pairs os (option_pairs args) \<and> odd (length args) \<and> e = ''missing value for '' @ last args
      \<or> good_pairs os (option_pairs args) \<and> even (length args)
         \<and> offline_ns (config_from os (option_pairs args)) \<le> degraded_ns (config_from os (option_pairs args))
         \<and> e = ''--health-offline-ms must exceed --health-degraded-ms'')"
proof -
  let ?ps = "option_pairs args"
  show ?thesis
  proof (cases "first_problem os [] ?ps")
    case None
    then have good: "no_problem os ?ps (length ?ps)"
      by (simp add: first_problem_None no_problem_def)
    then have "\<not> (\<exists>n < length ?ps. pair_problem os (take n ?ps) (?ps ! n) = Some e)"
      by (auto simp: no_problem_def)
    then show ?thesis using None good
      by (auto simp: parse_runtime_config_eq no_problem_iff_good)
  next
    case (Some x)
    then obtain n where n: "n < length ?ps" "no_problem os ?ps n" "pair_problem os (take n ?ps) (?ps ! n) = Some x"
      by (auto simp: first_problem_Some no_problem_def)
    have uniq: "m < length ?ps \<Longrightarrow> no_problem os ?ps m \<Longrightarrow> pair_problem os (take m ?ps) (?ps ! m) = Some y \<Longrightarrow> m = n" for m y
      using n by (cases m n rule: linorder_cases) (auto simp: no_problem_def)
    have "(\<exists>m < length ?ps. no_problem os ?ps m \<and> pair_problem os (take m ?ps) (?ps ! m) = Some e) \<longleftrightarrow> x = e"
      using n uniq by (metis option.inject)
    moreover have "\<not> good_pairs os ?ps" using Some by (simp flip: first_problem_good)
    ultimately show ?thesis using Some by (simp add: parse_runtime_config_eq)
  qed
qed

section \<open>Accepted settings\<close>

lemma option_limits [simp]:
  "option_limit ''--count'' = 2 ^ 64 - 1" "option_limit ''--max-drain'' = 2 ^ 64 - 1"
  "option_limit ''--max-sources'' = 2 ^ 64 - 1" "option_limit ''--workers'' = 2 ^ 64 - 1"
  "option_limit ''--queue-capacity'' = 2 ^ 64 - 1" "option_limit ''--poll-timeout-ms'' = 2 ^ 31 - 1"
  by (simp_all add: option_limit_def duration_options_def)

lemma parse_positive_nonzero: "parse_positive_integer text = Some n \<Longrightarrow> n \<noteq> 0"
proof -
  assume "parse_positive_integer text = Some n"
  then obtain v where v: "parse_whole uint64_max text = Some v" "v \<noteq> 0" "n = word_of_int v"
    by (auto simp: parse_positive_integer_def split: option.splits if_splits)
  then have "0 < v \<and> v < 2 ^ 64" using parse_whole_bounds [OF v(1)] by (simp add: uint64_max_def)
  then have "uint n = v" by (simp add: v(3) uint_word_of_int)
  then show ?thesis using v(2) by auto
qed

lemma setting_accepted:
  assumes "good_pairs os ps" "option \<in> set singleton_options" "0 < uint fallback" "uint fallback \<le> option_limit option"
  shows "0 < uint (setting ps option fallback) \<and> uint (setting ps option fallback) \<le> option_limit option"
proof (cases "map_of ps option")
  case None
  then show ?thesis using assms by (simp add: setting_def)
next
  case (Some v)
  then have "good_pair os (option, v)" using assms(1) by (auto simp: good_pairs_def dest: map_of_SomeD)
  then obtain n where n: "parse_positive_integer v = Some n" "uint n \<le> option_limit option"
    using assms(2) by (auto simp: good_pair_def singleton_options_def split: option.splits)
  then show ?thesis
    using Some parse_positive_nonzero [OF n(1)] by (simp add: setting_def less_le uint_0_iff)
qed

lemma duration_accepted:
  assumes "0 < uint d" "uint d \<le> (2 ^ 63 - 1) div 10 ^ 6"
  shows "sint (d * 1000000 :: u64) = uint d * 1000000"
proof -
  have b: "uint d * 1000000 < 2 ^ 63" using assms(2) by simp
  have "uint (d * 1000000) = uint d * 1000000" using b assms(1) by (simp add: uint_word_ariths)
  then show ?thesis using b assms(1) by (simp add: sint_uint signed_take_bit_int_eq_self)
qed

lemma accepted_settings:
  assumes "parse_runtime_config os args = Inr c"
  shows "0 < ec_max_datagrams_per_listener_per_poll (rc_receiver c)" "0 < hc_max_sources (rc_health c)"
    "0 < wc_worker_count (rc_pipeline c)" "0 < wc_queue_capacity (rc_pipeline c)"
    "rc_packet_count c \<noteq> Some 0" "0 < rc_poll_timeout c" "rc_poll_timeout c < 2 ^ 31"
    "hc_healthy_after_packets (rc_health c) = 2"
    "0 < degraded_ns c" "degraded_ns c < offline_ns c" "0 < sint (hc_recovery_after (rc_health c))"
    "ec_listen_endpoints (rc_receiver c) \<noteq> []"
proof -
  let ?ps = "option_pairs args"
  have good: "good_pairs os ?ps" and c: "c = config_from os ?ps" and "degraded_ns c < offline_ns c"
    using assms by (auto simp: parse_Inr_iff)
  then show "degraded_ns c < offline_ns c" by simp
  note s = setting_accepted [OF good]
  have pos: "0 < unat n" if "0 < uint n" for n :: u64 using that by (simp add: uint_nat del: uint_nat [symmetric] of_nat_unat)
  have counts: "0 < unat (setting ?ps ''--max-drain'' 64)" "0 < unat (setting ?ps ''--max-sources'' 256)"
    "0 < unat (setting ?ps ''--workers'' 2)" "0 < unat (setting ?ps ''--queue-capacity'' 1024)"
    by (rule pos, rule s [THEN conjunct1]; simp add: singleton_options_def)+
  show "0 < ec_max_datagrams_per_listener_per_poll (rc_receiver c)" "0 < hc_max_sources (rc_health c)"
    "0 < wc_worker_count (rc_pipeline c)" "0 < wc_queue_capacity (rc_pipeline c)"
    unfolding c config_from_def using counts by simp_all
  show "0 < rc_poll_timeout c" "rc_poll_timeout c < 2 ^ 31"
    using s [of "''--poll-timeout-ms''" 100] by (simp_all add: c config_from_def singleton_options_def)
  show "hc_healthy_after_packets (rc_health c) = 2" by (simp add: c config_from_def)
  show "ec_listen_endpoints (rc_receiver c) \<noteq> []" by (simp add: c config_from_def)
  have d: "option_limit ''--health-degraded-ms'' = (2 ^ 63 - 1) div 10 ^ 6"
    "option_limit ''--health-recovery-ms'' = (2 ^ 63 - 1) div 10 ^ 6"
    by (simp_all add: option_limit_def duration_options_def)
  show "0 < degraded_ns c" "0 < sint (hc_recovery_after (rc_health c))"
    using s [of "''--health-degraded-ms''" 500] s [of "''--health-recovery-ms''" 1000]
    by (simp_all add: c config_from_def singleton_options_def d duration_accepted)
  show "rc_packet_count c \<noteq> Some 0"
  proof (cases "map_of ?ps ''--count''")
    case (Some v)
    then have "setting ?ps ''--count'' 0 = setting ?ps ''--count'' 1" by (simp add: setting_def)
    moreover have "0 < uint (setting ?ps ''--count'' 1)"
      using s [of "''--count''" 1] by (simp add: singleton_options_def)
    ultimately show ?thesis using Some by (auto simp: c config_from_def)
  qed (simp add: c config_from_def)
qed

section \<open>Writing a configuration back\<close>

definition show_endpoint :: "ipv4_endpoint \<Rightarrow> string" where
  "show_endpoint e = ep_address e @ '':'' @ show_decimal (unat (ep_port e))"

definition show_config :: "runtime_config \<Rightarrow> string list" where
  "show_config c =
     concat (map (\<lambda>e. [''--listen'', show_endpoint e]) (ec_listen_endpoints (rc_receiver c)))
     @ (case rc_packet_count c of None \<Rightarrow> [] | Some n \<Rightarrow> [''--count'', show_decimal (unat n)])
     @ [''--poll-timeout-ms'', show_decimal (nat (rc_poll_timeout c)),
        ''--max-drain'', show_decimal (ec_max_datagrams_per_listener_per_poll (rc_receiver c)),
        ''--max-sources'', show_decimal (hc_max_sources (rc_health c)),
        ''--health-degraded-ms'', show_decimal (unat (hc_degraded_after (rc_health c)) div 1000000),
        ''--health-offline-ms'', show_decimal (unat (hc_offline_after (rc_health c)) div 1000000),
        ''--health-recovery-ms'', show_decimal (unat (hc_recovery_after (rc_health c)) div 1000000),
        ''--workers'', show_decimal (wc_worker_count (rc_pipeline c)),
        ''--queue-capacity'', show_decimal (wc_queue_capacity (rc_pipeline c))]"

text \<open>What a command line can say: positive whole milliseconds, valid endpoints, the fixed packet
  count of recovery.\<close>

definition whole_milliseconds :: "u64 \<Rightarrow> bool" where
  "whole_milliseconds d \<longleftrightarrow> unat d mod 1000000 = 0 \<and> 0 < unat d \<and> unat d < 2 ^ 63"

definition listenable :: "'w os \<Rightarrow> ipv4_endpoint \<Rightarrow> bool" where
  "listenable os e \<longleftrightarrow> ep_address e \<noteq> [] \<and> ep_port e \<noteq> 0
     \<and> (\<exists>a. lib_inet_pton os (c_str (ep_address e)) = PtonOk a)"

definition expressible :: "'w os \<Rightarrow> runtime_config \<Rightarrow> bool" where
  "expressible os c \<longleftrightarrow>
     ec_listen_endpoints (rc_receiver c) \<noteq> [] \<and> (\<forall>e \<in> set (ec_listen_endpoints (rc_receiver c)). listenable os e)
     \<and> rc_packet_count c \<noteq> Some 0 \<and> 0 < rc_poll_timeout c \<and> rc_poll_timeout c < 2 ^ 31
     \<and> (\<forall>n \<in> {ec_max_datagrams_per_listener_per_poll (rc_receiver c), hc_max_sources (rc_health c),
          wc_worker_count (rc_pipeline c), wc_queue_capacity (rc_pipeline c)}. 0 < n \<and> n < 2 ^ 64)
     \<and> hc_healthy_after_packets (rc_health c) = 2
     \<and> (\<forall>d \<in> {hc_degraded_after (rc_health c), hc_offline_after (rc_health c), hc_recovery_after (rc_health c)}.
          whole_milliseconds d)
     \<and> degraded_ns c < offline_ns c"

lemma parse_positive_show:
  "0 < n \<Longrightarrow> n < 2 ^ 64 \<Longrightarrow> parse_positive_integer (show_decimal n) = Some (of_nat n)"
  using parse_show [of n uint64_max] by (simp add: parse_positive_integer_def uint64_max_def)

lemma rfind_last: "c \<notin> set b \<Longrightarrow> rfind c (a @ c # b) = Some (length a)"
proof -
  assume "c \<notin> set b"
  then have "takeWhile (\<lambda>x. x \<noteq> c) (rev b @ c # rev a) = rev b"
    by (subst takeWhile_append2) auto
  then show ?thesis by (simp add: rfind_def)
qed

lemma parse_show_endpoint:
  assumes "listenable os e"
  shows "parse_endpoint os (show_endpoint e) = Some e"
proof -
  have p: "0 < unat (ep_port e)" "unat (ep_port e) < 2 ^ 16"
    using assms unsigned_less [of "ep_port e", where ?'a = nat]
    by (simp_all add: listenable_def unat_gt_0)
  have no_colon: "CHR '':'' \<notin> set (show_decimal n)" for n
    using show_decimal_digits [of "CHR '':''" n] by (auto simp: is_digit_def)
  have port: "of_nat (unat (ep_port e)) \<le> (65535 :: u64)"
    using p by (simp add: word_le_nat_alt unat_of_nat del: of_nat_unat)
  have narrow: "ucast (of_nat (unat (ep_port e)) :: u64) = ep_port e"
    by (rule bit_word_eqI) (simp add: bit_simps)
  show ?thesis
    using assms p port narrow
    by (auto simp: parse_endpoint_def show_endpoint_def rfind_last [OF no_colon] listenable_def
        show_decimal_nonempty parse_positive_show Let_def not_less)
qed


lemma option_pairs_listen [simp]:
  "option_pairs (concat (map (\<lambda>e. [''--listen'', f e]) es) @ rest) =
     map (\<lambda>e. (''--listen'', f e)) es @ option_pairs rest"
  "length (concat (map (\<lambda>e. [''--listen'', f e]) es)) = 2 * length es"
  by (induction es) simp_all

lemma listen_pairs:
  assumes "\<forall>e \<in> set es. listenable os e"
    and "\<forall>p \<in> set ps. fst p \<noteq> ''--listen'' \<and> good_pair os p" and "distinct (map fst ps)"
  defines "qs \<equiv> map (\<lambda>e. (''--listen'', show_endpoint e)) es @ ps"
  shows "good_pairs os qs" "listeners_given os qs = es"
    and "o' \<noteq> ''--listen'' \<Longrightarrow> map_of qs o' = map_of ps o'"
    and "o' \<noteq> ''--listen'' \<Longrightarrow> setting qs o' d = setting ps o' d"
proof -
  have f: "filter (\<lambda>p. fst p = ''--listen'') ps = []" "filter (\<lambda>o'. o' \<noteq> ''--listen'') (map fst ps) = map fst ps"
    using assms(2) by (auto simp: filter_empty_conv filter_id_conv)
  have h: "filter (\<lambda>o'. o' \<noteq> ''--listen'') (map (\<lambda>e. ''--listen'') es) = []" for es :: "ipv4_endpoint list"
    by (simp add: filter_empty_conv)
  show "good_pairs os qs"
    using assms by (auto simp: good_pairs_def good_pair_def qs_def parse_show_endpoint f(2) h comp_def)
  show "listeners_given os qs = es"
    using assms(1) by (auto simp: listeners_given_def qs_def f(1) filter_map comp_def parse_show_endpoint
        intro!: map_idI)
  show m: "o' \<noteq> ''--listen'' \<Longrightarrow> map_of qs o' = map_of ps o'"
    by (auto simp: qs_def map_add_def split: option.split dest: map_of_SomeD)
  show "o' \<noteq> ''--listen'' \<Longrightarrow> setting qs o' d = setting ps o' d"
    by (simp add: setting_def m)
qed

lemma good_number:
  assumes "option \<in> set singleton_options" "0 < n" "int n \<le> option_limit option"
  shows "good_pair os (option, show_decimal n)"
    and "parse_positive_integer (show_decimal n) = Some (of_nat n)" "unat (of_nat n :: u64) = n"
proof -
  have l: "option \<noteq> ''--listen''" using assms(1) by (auto simp: singleton_options_def)
  have "n < 2 ^ 64" using assms(3) by (simp add: option_limit_def split: if_splits)
  then show "parse_positive_integer (show_decimal n) = Some (of_nat n)" and u: "unat (of_nat n :: u64) = n"
    using assms(2) by (simp_all add: parse_positive_show unat_of_nat)
  then show "good_pair os (option, show_decimal n)"
    using assms l by (simp add: good_pair_def uint_nat del: of_nat_unat)
qed


lemma whole_milliseconds_number:
  assumes "whole_milliseconds d" "option \<in> set duration_options"
  shows "0 < unat d div 1000000" "int (unat d div 1000000) \<le> option_limit option"
    "of_nat (unat d div 1000000) * 1000000 = d"
proof -
  let ?n = "unat d div 1000000"
  have d: "?n * 1000000 = unat d" "0 < ?n" "unat d < 2 ^ 63"
    using assms(1) by (auto simp: whole_milliseconds_def)
  then show "0 < ?n" "int ?n \<le> option_limit option"
    using assms(2) by (auto simp: option_limit_def duration_options_def)
  have "of_nat ?n * 1000000 = (of_nat (?n * 1000000) :: u64)" by (simp only: of_nat_mult of_nat_numeral)
  then show "of_nat ?n * 1000000 = d" using d by simp
qed

definition single_pairs :: "runtime_config \<Rightarrow> (string \<times> string) list" where
  "single_pairs c = option_pairs (drop (2 * length (ec_listen_endpoints (rc_receiver c))) (show_config c))"

lemma show_config_pairs:
  "option_pairs (show_config c) =
     map (\<lambda>e. (''--listen'', show_endpoint e)) (ec_listen_endpoints (rc_receiver c)) @ single_pairs c"
  "even (length (show_config c))"
  by (simp_all add: single_pairs_def show_config_def split: option.split)

lemma single_pairs_eq:
  "single_pairs c = (case rc_packet_count c of None \<Rightarrow> [] | Some n \<Rightarrow> [(''--count'', show_decimal (unat n))])
     @ [(''--poll-timeout-ms'', show_decimal (nat (rc_poll_timeout c))),
        (''--max-drain'', show_decimal (ec_max_datagrams_per_listener_per_poll (rc_receiver c))),
        (''--max-sources'', show_decimal (hc_max_sources (rc_health c))),
        (''--health-degraded-ms'', show_decimal (unat (hc_degraded_after (rc_health c)) div 1000000)),
        (''--health-offline-ms'', show_decimal (unat (hc_offline_after (rc_health c)) div 1000000)),
        (''--health-recovery-ms'', show_decimal (unat (hc_recovery_after (rc_health c)) div 1000000)),
        (''--workers'', show_decimal (wc_worker_count (rc_pipeline c))),
        (''--queue-capacity'', show_decimal (wc_queue_capacity (rc_pipeline c)))]"
  by (simp add: single_pairs_def show_config_def split: option.split)

lemma expressible_pairs:
  assumes "expressible os c"
  shows "good_pairs os (option_pairs (show_config c))"
    and "listeners_given os (option_pairs (show_config c)) = ec_listen_endpoints (rc_receiver c)"
    and "o' \<noteq> ''--listen'' \<Longrightarrow> map_of (option_pairs (show_config c)) o' = map_of (single_pairs c) o'"
    and "o' \<noteq> ''--listen'' \<Longrightarrow> setting (option_pairs (show_config c)) o' x = setting (single_pairs c) o' x"
proof -
  note e = assms [unfolded expressible_def]
  have d: "whole_milliseconds (hc_degraded_after (rc_health c))" "whole_milliseconds (hc_offline_after (rc_health c))"
    "whole_milliseconds (hc_recovery_after (rc_health c))" using e by simp_all
  have count: "rc_packet_count c = Some n \<Longrightarrow> 0 < unat n \<and> int (unat n) \<le> 2 ^ 64 - 1" for n
    using e unsigned_less [of n, where ?'a = int] by (auto simp: unat_gt_0)
  have A: "\<forall>p \<in> set (single_pairs c). fst p \<noteq> ''--listen'' \<and> good_pair os p"
    using e d count by (auto simp: single_pairs_eq singleton_options_def duration_options_def
        intro!: good_number whole_milliseconds_number split: option.splits)
  have B: "distinct (map fst (single_pairs c))"
    by (simp add: single_pairs_eq split: option.split)
  have C: "\<forall>x \<in> set (ec_listen_endpoints (rc_receiver c)). listenable os x" using e by simp
  note L = listen_pairs [OF C A B, folded show_config_pairs(1)]
  show "good_pairs os (option_pairs (show_config c))"
    "listeners_given os (option_pairs (show_config c)) = ec_listen_endpoints (rc_receiver c)"
    "o' \<noteq> ''--listen'' \<Longrightarrow> map_of (option_pairs (show_config c)) o' = map_of (single_pairs c) o'"
    "o' \<noteq> ''--listen'' \<Longrightarrow> setting (option_pairs (show_config c)) o' x = setting (single_pairs c) o' x"
    by (fact L)+
qed

lemma number_setting:
  assumes "expressible os c" "map_of (single_pairs c) o' = Some (show_decimal n)"
    "o' \<in> set singleton_options" "0 < n" "int n \<le> option_limit o'"
  shows "setting (option_pairs (show_config c)) o' x = of_nat n"
    and "unat (setting (option_pairs (show_config c)) o' x) = n"
proof -
  have "o' \<noteq> ''--listen''" using assms(3) by (auto simp: singleton_options_def)
  then have "setting (option_pairs (show_config c)) o' x = setting (single_pairs c) o' x"
    by (rule expressible_pairs(4) [OF assms(1)])
  also have "\<dots> = of_nat n"
    by (simp only: setting_def assms(2) good_number(2) [OF assms(3-5)] option.simps option.sel)
  finally show n: "setting (option_pairs (show_config c)) o' x = of_nat n" .
  show "unat (setting (option_pairs (show_config c)) o' x) = n"
    unfolding n by (rule good_number(3) [OF assms(3-5)])
qed

lemma duration_setting:
  assumes "expressible os c" "map_of (single_pairs c) o' = Some (show_decimal (unat d div 1000000))"
    "o' \<in> set duration_options" "whole_milliseconds d"
  shows "setting (option_pairs (show_config c)) o' x * 1000000 = d"
proof -
  have s: "o' \<in> set singleton_options" using assms(3) by (auto simp: duration_options_def singleton_options_def)
  note w = whole_milliseconds_number [OF assms(4,3)]
  show ?thesis
    unfolding number_setting(1) [OF assms(1,2) s w(1,2)] by (rule w(3))
qed

text \<open>C28. Every configuration a command line can express is read back from its rendering:
  \<open>parse_runtime_config\<close> inverts \<open>show_config\<close>.\<close>

theorem config_roundtrip:
  assumes "expressible os c"
  shows "parse_runtime_config os (show_config c) = Inr c"
proof -
  note e = assms [unfolded expressible_def]
  let ?s = "setting (option_pairs (show_config c))"
  have d: "?s ''--health-degraded-ms'' x * 1000000 = hc_degraded_after (rc_health c)"
    "?s ''--health-offline-ms'' x * 1000000 = hc_offline_after (rc_health c)"
    "?s ''--health-recovery-ms'' x * 1000000 = hc_recovery_after (rc_health c)" for x
    using e by (simp_all add: duration_setting [OF assms] single_pairs_eq duration_options_def split: option.split)
  have n: "unat (?s ''--max-drain'' x) = ec_max_datagrams_per_listener_per_poll (rc_receiver c)"
    "unat (?s ''--max-sources'' x) = hc_max_sources (rc_health c)"
    "unat (?s ''--workers'' x) = wc_worker_count (rc_pipeline c)"
    "unat (?s ''--queue-capacity'' x) = wc_queue_capacity (rc_pipeline c)"
    "unat (?s ''--poll-timeout-ms'' x) = nat (rc_poll_timeout c)" for x
    using e by (auto intro!: number_setting(2) [OF assms] simp: single_pairs_eq singleton_options_def split: option.split)
  have t: "uint (?s ''--poll-timeout-ms'' x) = rc_poll_timeout c" for x
    using n(5) [of x] e by (simp add: uint_nat)
  have k: "(if map_of (option_pairs (show_config c)) ''--count'' = None then None
      else Some (?s ''--count'' x)) = rc_packet_count c" for x
  proof (cases "rc_packet_count c")
    case None
    then show ?thesis by (simp add: expressible_pairs(3) [OF assms] single_pairs_eq)
  next
    case (Some m)
    then have m: "map_of (single_pairs c) ''--count'' = Some (show_decimal (unat m))" by (simp add: single_pairs_eq)
    have "0 < unat m" "int (unat m) \<le> option_limit ''--count''"
      using e Some unsigned_less [of m, where ?'a = int] by (auto simp: unat_gt_0)
    then have "?s ''--count'' x = of_nat (unat m)"
      using number_setting(1) [OF assms m, of x] by (simp add: singleton_options_def)
    then show ?thesis using m Some by (simp add: expressible_pairs(3) [OF assms])
  qed
  have "config_from os (option_pairs (show_config c)) = c"
    unfolding config_from_def d n t k expressible_pairs(2) [OF assms]
    using e by (intro runtime_config.equality receiver_config.equality pipeline_config.equality
        health_config.equality) simp_all
  then show ?thesis
    using expressible_pairs(1) [OF assms] e by (simp add: parse_Inr_iff show_config_pairs(2))
qed


definition toy_runtime_config :: runtime_config where
  "toy_runtime_config = default_config\<lparr>rc_packet_count := Some 12,
     rc_receiver := \<lparr>ec_listen_endpoints = [\<lparr>ep_address = ''127.0.0.1'', ep_port = 9001\<rparr>],
       ec_max_datagrams_per_listener_per_poll = 7\<rparr>\<rparr>"

lemma config_roundtrip_witness:
  "parse_runtime_config toy_os (show_config toy_runtime_config) = Inr toy_runtime_config"
  by (rule config_roundtrip)
    (simp add: toy_runtime_config_def expressible_def default_config_def whole_milliseconds_def
      listenable_def toy_os_def toy_pton_def c_str_def NUL_char_def)

end
