(* ===== verification/Health_History.thy ===== *)
theory Health_History
  imports Health_Monitor "HOL-Library.Multiset"
begin

text \<open>
  What the health monitor promises, as functions of the history of one source. \<open>source_events\<close>
  extracts from a run what concerns a source; \<open>health_of\<close> replays it; the functions \<open>arrivals\<close>,
  \<open>clean_since\<close>, \<open>last_issue\<close> and so on state over unbounded lists and naturals what the
  measurements mean; and \<open>history_invariant\<close> is the refinement between the two. The ring buffer
  of 64 timestamps is refined to the last 64 arrivals.
\<close>

section \<open>Histories of a source\<close>

datatype source_event =
    Arrived received_packet sequence_observation
  | Failed received_packet source_health_issue

fun apply_event :: "health_state \<Rightarrow> source_event \<Rightarrow> health_state" where
  "apply_event s (Arrived p obs) = record_packet s p obs"
| "apply_event s (Failed p issue) = apply_issue s p issue"

definition health_of :: "sensor_source \<Rightarrow> source_event list \<Rightarrow> health_state" where
  "health_of src es = foldl apply_event (fresh_state src) es"

lemma health_of_simps [simp]:
  "health_of src [] = fresh_state src"
  "health_of src (es @ [e]) = apply_event (health_of src es) e"
  by (simp_all add: health_of_def)

fun is_failed :: "source_event \<Rightarrow> bool" where
  "is_failed (Failed p issue) = True"
| "is_failed (Arrived p obs) = False"

fun source_event_of :: "monitor_event \<Rightarrow> sequence_observation option \<Rightarrow> source_event" where
  "source_event_of (Arrival p) out = Arrived p (the out)"
| "source_event_of (Problem p issue) out = Failed p issue"

definition monitor_run ::
  "monitor \<Rightarrow> monitor_event list \<Rightarrow> monitor \<times> sequence_observation option list" where
  "monitor_run = run_machine monitor_step"

text \<open>Problems reported before the first packet of a source are ignored.\<close>

definition source_events ::
  "sensor_source \<Rightarrow> monitor_event list \<Rightarrow> sequence_observation option list \<Rightarrow> source_event list" where
  "source_events src evs outs =
     dropWhile is_failed (map (\<lambda>eo. source_event_of (fst eo) (snd eo))
       (filter (\<lambda>eo. event_source (fst eo) = src) (zip evs outs)))"

section \<open>Independence of the sources\<close>

lemma monitor_step_table:
  assumes "consistent mon" and cap: "trk_max_sources (mon_tracker mon) = cap"
  shows "(entries (fst (monitor_step mon ev)), snd (monitor_step mon ev))
    = health_table cfg cap (entries mon) ev"
proof -
  define m where "m = of_entries cfg cap (entries mon)"
  have m: "consistent m" "trk_sources (mon_tracker m) = trk_sources (mon_tracker mon)"
      "mon_sources m = mon_sources mon" "trk_max_sources (mon_tracker m) = cap"
    by (simp_all add: m_def) (simp_all add: of_entries_def of_entries_entries [OF assms(1)])
  have "entries (fst (monitor_step mon ev)) = entries (fst (monitor_step m ev))
      \<and> snd (monitor_step mon ev) = snd (monitor_step m ev)"
  proof (cases ev)
    case (Problem p issue)
    then show ?thesis by (simp add: entries_def m observe_issue_def split: option.split)
  next
    case (Arrival p)
    show ?thesis
    proof (cases "find_source (mon_sources mon) (identify_sensor_source p)")
      case (Some i)
      then show ?thesis
        using observe_packet_known [OF assms(1) Some] observe_packet_known [OF m(1), of p i]
        by (simp add: Arrival entries_def m case_prod_beta)
    next
      case None
      have un: "find_index (\<lambda>candidate. st_source candidate = identify_sensor_source p) (trk_sources (mon_tracker mon)) = None"
        using None consistent_find [OF assms(1)] by simp
      have obs: "snd (observe (mon_tracker m) p) = snd (observe (mon_tracker mon) p)"
        by (simp add: observe_def un m cap Let_def)
      have out: "snd (observe_packet m p) = snd (observe_packet mon p)"
        using obs by (simp add: observe_packet_def Let_def case_prod_beta)
      show ?thesis
        using observe_packet_unknown [OF assms(1) None] observe_packet_unknown [OF m(1), of p] None out
        by (cases "length (trk_sources (mon_tracker mon)) < cap")
          (simp_all add: Arrival entries_def m cap case_prod_beta)
    qed
  qed
  then show ?thesis by (simp add: health_table_def m_def [symmetric] case_prod_beta prod_eq_iff)
qed

lemma monitor_run_table:
  assumes "consistent mon" and "trk_max_sources (mon_tracker mon) = cap"
  shows "entries (fst (monitor_run mon evs)) = fst (run_machine (health_table cfg cap) (entries mon) evs)
    \<and> snd (monitor_run mon evs) = snd (run_machine (health_table cfg cap) (entries mon) evs)"
  unfolding monitor_run_def
  by (rule run_machine_sim [where P = "\<lambda>m. consistent m \<and> trk_max_sources (mon_tracker m) = cap"])
    (use assms monitor_step_table consistent_step in \<open>auto simp: prod_eq_iff\<close>)

lemma consistent_run: "consistent mon \<Longrightarrow> consistent (fst (monitor_run mon evs))"
  unfolding monitor_run_def by (rule run_machine_invariant) (use consistent_step in auto)

abbreviation health_own where "health_own \<equiv> own_step health_admit health_advance"

lemma own_run_known:
  "\<exists>e'. fst (run_machine health_own (Some e) evs) = Some e'
    \<and> snd e' = foldl apply_event (snd e) (map2 source_event_of evs (snd (run_machine health_own (Some e) evs)))"
proof (induction evs arbitrary: e)
  case (Cons ev evs)
  have step: "health_own (Some e) ev = (Some (fst (health_advance e ev)), snd (health_advance e ev))"
    by (simp add: case_prod_beta)
  have "snd (fst (health_advance e ev)) = apply_event (snd e) (source_event_of ev (snd (health_advance e ev)))"
    by (cases ev) (simp_all add: Let_def entry_def)
  then show ?case using Cons.IH [of "fst (health_advance e ev)"] by (simp only: step run_machine_Cons
      fst_conv snd_conv zip_Cons_Cons list.map case_prod_conv foldl_Cons)
qed simp

lemma own_run_unknown:
  assumes "\<forall>ev \<in> set evs. event_source ev = src"
    and "fst (run_machine health_own None evs) = Some e'"
  shows "snd e' = health_of src (dropWhile is_failed (map2 source_event_of evs (snd (run_machine health_own None evs))))"
  using assms
proof (induction evs)
  case (Cons ev evs)
  show ?case
  proof (cases ev)
    case (Problem p issue)
    then show ?thesis using Cons by simp
  next
    case (Arrival p)
    then have src: "identify_sensor_source p = src" using Cons.prems(1) by simp
    let ?e = "the (fst (health_admit (Arrival p)))"
    have "health_own None ev = (Some ?e, Some (snd (stream_admit p)))" by (simp add: Arrival)
    then show ?thesis
      using own_run_known [of ?e evs] Cons.prems(2) src
      by (auto simp: Arrival health_of_def entry_def)
  qed
qed simp

fun event_status :: "source_event \<Rightarrow> sequence_status option" where
  "event_status (Arrived p obs) = Some (obs_status obs)"
| "event_status (Failed p issue) = None"

definition tracked :: "source_event list \<Rightarrow> bool" where
  "tracked es \<longleftrightarrow> (\<forall>e \<in> set es. event_status e \<noteq> Some Untracked)"

lemma own_run_tracked:
  "tracked (map2 source_event_of evs (snd (run_machine health_own x evs)))"
proof (induction evs arbitrary: x)
  case (Cons ev evs)
  have "obs_status (snd (stream_admit p)) \<noteq> Untracked" for p
    by (simp add: stream_admit_def make_observation_def)
  moreover have "obs_status (snd (classify st n)) \<noteq> Untracked" for st n
    using classify_status [of st n] by auto
  ultimately have "event_status (source_event_of ev (snd (health_own x ev))) \<noteq> Some Untracked"
    by (cases x; cases ev) (simp_all add: case_prod_beta Let_def)
  then show ?case using Cons.IH by (simp add: tracked_def)
qed (simp add: tracked_def)

lemma zip_split: "xs = zip (map fst xs) (map snd xs)"
  by (induction xs) auto

lemma source_history:
  assumes "consistent mon" "mon_sources mon = []"
    and "lookup hs_source (mon_sources (fst (monitor_run mon evs))) src = Some s"
  shows "s = health_of src (source_events src evs (snd (monitor_run mon evs)))
    \<and> tracked (source_events src evs (snd (monitor_run mon evs)))"
proof
  define cap where "cap = trk_max_sources (mon_tracker mon)"
  define m where "m = fst (monitor_run mon evs)"
  have e: "entries mon = []" by (simp add: entries_def assms(2))
  have m: "mon_sources m = map snd (entries m)"
    using of_entries_entries(2) [OF consistent_run [OF assms(1)]] by (simp add: m_def)
  note run = monitor_run_table [OF assms(1) cap_def [symmetric], of evs undefined, unfolded e]
  have "find_index (\<lambda>s. hs_source s = src) (mon_sources m) = find_index (\<lambda>s. entry_key s = src) (entries m)"
    by (simp add: m find_index_map comp_def entry_key_def)
  then have lk: "lookup hs_source (mon_sources m) src = map_option snd (lookup entry_key (entries m) src)"
    unfolding lookup_def option.map_comp m
    by (cases "find_index (\<lambda>s. entry_key s = src) (entries m)") (auto dest: find_index_SomeD)
  have "map_option snd (lookup entry_key (entries m) src) = Some s"
    using assms(3) unfolding m_def [symmetric] by (rule lk [symmetric, THEN trans])
  then obtain x where x: "lookup entry_key (entries m) src = Some x" "s = snd x"
    unfolding map_option_eq_Some by (elim exE conjE) (rule that, assumption, erule sym)
  define L where "L = filter (\<lambda>eo. event_source (fst eo) = src) (zip evs (snd (monitor_run mon evs)))"
  define evs' where "evs' = filter (\<lambda>ev. event_source ev = src) evs"
  have x1: "lookup entry_key (fst (run_machine (health_table undefined cap) [] evs)) src = Some x"
    using x(1) run by (simp add: m_def)
  have proj: "(Some x, map snd L) = run_machine health_own None evs'"
    using health.projection [OF option.discI [OF x1]] x1 run by (simp add: L_def evs'_def)
  have "map fst L = filter (\<lambda>ev. event_source ev = src) (map fst (zip evs (snd (monitor_run mon evs))))"
    by (simp add: L_def filter_map comp_def)
  then have "map fst L = evs'" by (simp add: evs'_def monitor_run_def)
  then have "L = zip evs' (snd (run_machine health_own None evs'))"
    using zip_split [of L] proj by (metis snd_conv)
  then have se: "source_events src evs (snd (monitor_run mon evs))
      = dropWhile is_failed (map2 source_event_of evs' (snd (run_machine health_own None evs')))"
    by (simp add: source_events_def L_def [symmetric] case_prod_beta')
  have "\<forall>ev \<in> set evs'. event_source ev = src" by (simp add: evs'_def)
  then show "s = health_of src (source_events src evs (snd (monitor_run mon evs)))"
    unfolding x(2) se by (rule own_run_unknown) (metis proj fst_conv)
  show "tracked (source_events src evs (snd (monitor_run mon evs)))"
    using own_run_tracked [of evs' None] unfolding se tracked_def by (blast dest: set_dropWhileD)
qed

section \<open>The ring buffer\<close>

text \<open>The timestamps in the buffer, oldest first.\<close>

definition window :: "health_state \<Rightarrow> u64 list" where
  "window s = map (\<lambda>i. hs_recent_timestamps s !
      ((hs_next_timestamp_index s + 64 - hs_recent_timestamp_count s + i) mod 64))
    [0..<hs_recent_timestamp_count s]"

definition ring_ok :: "health_state \<Rightarrow> bool" where
  "ring_ok s \<longleftrightarrow> length (hs_recent_timestamps s) = 64 \<and> hs_next_timestamp_index s < 64
     \<and> hs_recent_timestamp_count s \<le> 64
     \<and> (hs_recent_timestamp_count s < 64 \<longrightarrow> hs_next_timestamp_index s = hs_recent_timestamp_count s)"

definition last_n :: "nat \<Rightarrow> 'a list \<Rightarrow> 'a list" where
  "last_n n xs = drop (length xs - n) xs"

lemma ring_record:
  assumes "ring_ok s"
  shows "ring_ok (record_recent_timestamp s t)"
    and "window (record_recent_timestamp s t) = last_n 64 (window s @ [t])"
proof -
  let ?n = "hs_next_timestamp_index s" and ?c = "hs_recent_timestamp_count s"
  let ?b = "hs_recent_timestamps s"
  have w: "length ?b = 64" "?n < 64" "?c \<le> 64" "?c < 64 \<Longrightarrow> ?n = ?c"
    using assms by (simp_all add: ring_ok_def)
  show "ring_ok (record_recent_timestamp s t)"
    using w by (auto simp: ring_ok_def record_recent_timestamp_def kRecentTimestampCapacity_def)
  show "window (record_recent_timestamp s t) = last_n 64 (window s @ [t])"
  proof (cases "?c = 64")
    case True
    have "window (record_recent_timestamp s t) = map (\<lambda>i. (?b[?n := t]) ! (((?n + 1) mod 64 + i) mod 64)) [0..<64]"
      using True by (simp add: window_def record_recent_timestamp_def kRecentTimestampCapacity_def)
    also have "\<dots> = map (\<lambda>i. if i = 63 then t else ?b ! ((?n + (i + 1)) mod 64)) [0..<64]"
    proof (rule map_cong [OF refl])
      fix i assume "i \<in> set [0..<64 :: nat]"
      then have i: "i < 64" by simp
      have "((?n + 1) mod 64 + i) mod 64 = (?n + (i + 1)) mod 64"
        unfolding mod_add_left_eq by (simp add: ac_simps)
      moreover have "(?n + (i + 1)) mod 64 = ?n \<longleftrightarrow> i = 63"
        using w(2) i by (auto simp: mod_if split: if_splits)
      moreover have "(?n + (i + 1)) mod 64 < 64" by simp
      ultimately show "(?b[?n := t]) ! (((?n + 1) mod 64 + i) mod 64) = (if i = 63 then t else ?b ! ((?n + (i + 1)) mod 64))"
        using w(1,2) by (auto simp: nth_list_update)
    qed
    also have "\<dots> = drop 1 (map (\<lambda>i. ?b ! ((?n + i) mod 64)) [0..<64] @ [t])"
      by (rule nth_equalityI) (auto simp: nth_append)
    finally show ?thesis using True by (simp add: last_n_def window_def)
  next
    case False
    then have c: "?n = ?c" "?c < 64" using w by auto
    have "window (record_recent_timestamp s t)
        = map (\<lambda>i. (?b[?c := t]) ! (((?c + 1) mod 64 + 64 - (?c + 1) + i) mod 64)) [0..<Suc ?c]"
      using c by (simp add: window_def record_recent_timestamp_def kRecentTimestampCapacity_def del: upt_Suc)
    also have "\<dots> = map (\<lambda>i. (?b[?c := t]) ! i) [0..<Suc ?c]"
    proof (rule map_cong [OF refl])
      fix i assume "i \<in> set [0..<Suc ?c]"
      then have "i < Suc ?c" "i < 64" using c by auto
      then have "((?c + 1) mod 64 + 64 - (?c + 1) + i) mod 64 = i"
        using c by (cases "?c = 63") simp_all
      then show "(?b[?c := t]) ! (((?c + 1) mod 64 + 64 - (?c + 1) + i) mod 64) = (?b[?c := t]) ! i"
        by (rule arg_cong)
    qed
    also have "\<dots> = map (\<lambda>i. ?b ! i) [0..<?c] @ [t]" using c w(1) by simp
    also have "map (\<lambda>i. ?b ! i) [0..<?c] = window s" using c by (simp add: window_def)
    finally show ?thesis using c by (simp add: last_n_def window_def)
  qed
qed

lemma last_n_last_n_snoc: "last_n n (last_n n xs @ [x]) = last_n n (xs @ [x])"
  by (cases "length xs \<le> n") (auto simp: last_n_def Suc_diff_le)

section \<open>What a history means\<close>

text \<open>The receive time of an event, never earlier than an earlier arrival.\<close>

fun stamped :: "u64 \<Rightarrow> source_event list \<Rightarrow> (source_event \<times> u64) list" where
  "stamped m [] = []"
| "stamped m (Arrived p obs # es) =
     (Arrived p obs, max (rp_receive_timestamp_ns p) m) # stamped (max (rp_receive_timestamp_ns p) m) es"
| "stamped m (Failed p issue # es) = (Failed p issue, rp_receive_timestamp_ns p) # stamped m es"

definition packet_issue :: "received_packet \<Rightarrow> sequence_observation \<Rightarrow> bool" where
  "packet_issue p obs \<longleftrightarrow> rp_source_timestamp_ns p > rp_receive_timestamp_ns p
     \<or> obs_status obs \<in> {Gap, Duplicate, Reordered}"

fun is_issue :: "source_event \<Rightarrow> bool" where
  "is_issue (Arrived p obs) = packet_issue p obs"
| "is_issue (Failed p issue) = True"

fun event_missing :: "source_event \<Rightarrow> nat" where
  "event_missing (Arrived p obs) = (if obs_status obs = Gap then unat (obs_missing_samples obs) else 0)"
| "event_missing (Failed p issue) = 0"

definition arrivals :: "source_event list \<Rightarrow> u64 list" where
  "arrivals es = map snd (filter (\<lambda>x. \<not> is_failed (fst x)) (stamped 0 es))"

definition issue_times :: "source_event list \<Rightarrow> u64 list" where
  "issue_times es = map snd (filter (\<lambda>x. is_issue (fst x)) (stamped 0 es))"

definition last_receive :: "source_event list \<Rightarrow> u64" where
  "last_receive es = last (0 # arrivals es)"

definition last_issue :: "source_event list \<Rightarrow> u64" where
  "last_issue es = fold max (issue_times es) 0"

definition clean_since :: "source_event list \<Rightarrow> nat" where
  "clean_since es = length (takeWhile (\<lambda>e. \<not> is_issue e) (rev es))"

definition event_count :: "(source_event \<Rightarrow> bool) \<Rightarrow> source_event list \<Rightarrow> nat" where
  "event_count P es = length (filter P es)"

abbreviation saturated :: "nat \<Rightarrow> u64" where "saturated n \<equiv> saturated_total 0 n"

lemma saturated_Suc [metric_simps]: "saturating_increment (saturated n) = saturated (Suc n)"
proof -
  have "unat (saturating_increment (saturated n)) = unat (saturated (Suc n))"
    by (simp add: unat_saturating_increment unat_saturated_total)
  then show ?thesis by (simp only: word_unat_eq_iff)
qed

lemma saturated_add [metric_simps]: "saturating_add (saturated n) d = saturated (n + unat d)"
proof -
  have "unat (saturating_add (saturated n) d) = unat (saturated (n + unat d))"
    by (simp add: unat_saturating_add unat_saturated_total)
  then show ?thesis by (simp only: word_unat_eq_iff)
qed

lemma saturated_0 [metric_simps]: "saturated 0 = 0"
  by (simp add: saturated_total_0)

lemma saturated_eq_0 [metric_simps]: "saturated n = 0 \<longleftrightarrow> n = 0"
  by (simp add: word_unat_eq_iff unat_saturated_total min_def)

lemma saturated_less [metric_simps]: "saturated n < h \<longleftrightarrow> n < unat h"
  using unat_u64_bound [of h] by (simp add: word_less_nat_alt unat_saturated_total min_def)

subsection \<open>Histories grow at the end\<close>

lemma stamped_append:
  "stamped m (es @ es') = stamped m es @ stamped (last (m # map snd (filter (\<lambda>x. \<not> is_failed (fst x)) (stamped m es)))) es'"
  by (induction m es rule: stamped.induct) auto

lemma last_receive_snoc [simp]:
  "last_receive [] = 0"
  "last_receive (es @ [Arrived p obs]) = max (rp_receive_timestamp_ns p) (last_receive es)"
  "last_receive (es @ [Failed p issue]) = last_receive es"
  by (simp_all add: last_receive_def arrivals_def stamped_append)

lemma arrivals_snoc [simp]:
  "arrivals [] = []"
  "arrivals (es @ [Arrived p obs]) = arrivals es @ [max (rp_receive_timestamp_ns p) (last_receive es)]"
  "arrivals (es @ [Failed p issue]) = arrivals es"
  by (simp_all add: last_receive_def arrivals_def stamped_append)

lemma last_issue_snoc [simp]:
  "last_issue [] = 0"
  "last_issue (es @ [Arrived p obs]) = (if packet_issue p obs
     then max (last_issue es) (max (rp_receive_timestamp_ns p) (last_receive es)) else last_issue es)"
  "last_issue (es @ [Failed p issue]) = max (last_issue es) (rp_receive_timestamp_ns p)"
  by (simp_all add: last_issue_def issue_times_def last_receive_def arrivals_def stamped_append max.commute)

lemma clean_since_snoc [simp]:
  "clean_since [] = 0"
  "clean_since (es @ [e]) = (if is_issue e then 0 else Suc (clean_since es))"
  by (simp_all add: clean_since_def)

lemma event_count_snoc [simp]:
  "event_count P [] = 0" "event_count P (es @ [e]) = event_count P es + (if P e then 1 else 0)"
  by (simp_all add: event_count_def)

lemma tracked_snoc [simp]:
  "tracked []" "tracked (es @ [e]) \<longleftrightarrow> tracked es \<and> event_status e \<noteq> Some Untracked"
  by (auto simp: tracked_def)

lemma length_arrivals: "length (arrivals es) = event_count (\<lambda>e. \<not> is_failed e) es"
proof (induction es rule: rev_induct)
  case (snoc e es)
  then show ?case by (cases e) simp_all
qed simp

subsection \<open>Fields after an event\<close>

lemma ring_cong:
  assumes "hs_recent_timestamps s = hs_recent_timestamps s'"
    "hs_next_timestamp_index s = hs_next_timestamp_index s'"
    "hs_recent_timestamp_count s = hs_recent_timestamp_count s'"
  shows "window s = window s'" "ring_ok s = ring_ok s'"
  unfolding window_def ring_ok_def assms by (rule refl)+

lemma record_packet_ring:
  fixes s p
  defines "r \<equiv> record_recent_timestamp s (max (rp_receive_timestamp_ns p) (hs_last_receive_timestamp_ns s))"
  shows "hs_recent_timestamps (record_packet s p obs) = hs_recent_timestamps r"
    "hs_next_timestamp_index (record_packet s p obs) = hs_next_timestamp_index r"
    "hs_recent_timestamp_count (record_packet s p obs) = hs_recent_timestamp_count r"
  unfolding r_def by (simp_all add: record_packet_def record_recent_timestamp_def record_latency_def
      mark_issue_def Let_def split: sequence_status.split)

lemma record_packet_times:
  defines "t \<equiv> \<lambda>p s. max (rp_receive_timestamp_ns p) (hs_last_receive_timestamp_ns s)"
  shows "hs_last_receive_timestamp_ns (record_packet s p obs) = t p s"
    "hs_packets_received (record_packet s p obs) = saturating_increment (hs_packets_received s)"
    "hs_first_receive_timestamp_ns (record_packet s p obs) =
       (if hs_packets_received s = 0 then t p s else hs_first_receive_timestamp_ns s)"
    "window (record_packet s p obs) = window (record_recent_timestamp s (t p s))"
    "ring_ok (record_packet s p obs) = ring_ok (record_recent_timestamp s (t p s))"
proof -
  show "window (record_packet s p obs) = window (record_recent_timestamp s (t p s))"
    "ring_ok (record_packet s p obs) = ring_ok (record_recent_timestamp s (t p s))"
    unfolding t_def by (rule ring_cong; rule record_packet_ring)+
qed (simp_all add: record_packet_def record_recent_timestamp_def record_latency_def mark_issue_def
      Let_def t_def split: sequence_status.split)

lemma apply_issue_times:
  "hs_last_receive_timestamp_ns (apply_issue s p issue) = hs_last_receive_timestamp_ns s"
  "hs_packets_received (apply_issue s p issue) = hs_packets_received s"
  "hs_first_receive_timestamp_ns (apply_issue s p issue) = hs_first_receive_timestamp_ns s"
  "window (apply_issue s p issue) = window s"
  "ring_ok (apply_issue s p issue) = ring_ok s"
proof -
  have ring: "hs_recent_timestamps (apply_issue s p issue) = hs_recent_timestamps s"
    "hs_next_timestamp_index (apply_issue s p issue) = hs_next_timestamp_index s"
    "hs_recent_timestamp_count (apply_issue s p issue) = hs_recent_timestamp_count s"
    by (simp_all add: apply_issue_def mark_issue_def split: source_health_issue.split)
  show "window (apply_issue s p issue) = window s" "ring_ok (apply_issue s p issue) = ring_ok s"
    by (rule ring_cong; rule ring)+
qed (simp_all add: apply_issue_def mark_issue_def split: source_health_issue.split)

lemma record_packet_recovery:
  assumes "obs_status obs \<noteq> Untracked"
  shows "hs_issue_seen (record_packet s p obs) \<longleftrightarrow> hs_issue_seen s \<or> packet_issue p obs"
    "hs_last_issue_timestamp_ns (record_packet s p obs) = (if packet_issue p obs
       then max (hs_last_issue_timestamp_ns s) (max (rp_receive_timestamp_ns p) (hs_last_receive_timestamp_ns s))
       else hs_last_issue_timestamp_ns s)"
    "hs_healthy_packets_since_issue (record_packet s p obs) = (if packet_issue p obs then 0
       else saturating_increment (hs_healthy_packets_since_issue s))"
  using assms by (simp_all add: record_packet_def record_recent_timestamp_def record_latency_def
      mark_issue_def Let_def packet_issue_def split: sequence_status.split)

lemma apply_issue_recovery:
  "hs_issue_seen (apply_issue s p issue)"
  "hs_last_issue_timestamp_ns (apply_issue s p issue) =
     max (hs_last_issue_timestamp_ns s) (rp_receive_timestamp_ns p)"
  "hs_healthy_packets_since_issue (apply_issue s p issue) = 0"
  by (simp_all add: apply_issue_def mark_issue_def split: source_health_issue.split)

lemma record_packet_counts:
  "hs_gap_observations (record_packet s p obs) =
     (if obs_status obs = Gap then saturating_increment else id) (hs_gap_observations s)"
  "hs_duplicate_observations (record_packet s p obs) =
     (if obs_status obs = Duplicate then saturating_increment else id) (hs_duplicate_observations s)"
  "hs_reordered_observations (record_packet s p obs) =
     (if obs_status obs = Reordered then saturating_increment else id) (hs_reordered_observations s)"
  "hs_missing_samples_inferred (record_packet s p obs) =
     (if obs_status obs = Gap then saturating_add (hs_missing_samples_inferred s) (obs_missing_samples obs)
      else hs_missing_samples_inferred s)"
  "hs_payloads_rejected (record_packet s p obs) = hs_payloads_rejected s"
  "hs_packets_dropped_queue_full (record_packet s p obs) = hs_packets_dropped_queue_full s"
  "hs_timestamp_anomalies (record_packet s p obs) =
     (if rp_source_timestamp_ns p > rp_receive_timestamp_ns p then saturating_increment else id)
       (hs_timestamp_anomalies s)"
  by (simp_all add: record_packet_def record_recent_timestamp_def record_latency_def mark_issue_def
      Let_def split: sequence_status.split)

lemma apply_issue_counts:
  "hs_gap_observations (apply_issue s p issue) = hs_gap_observations s"
  "hs_duplicate_observations (apply_issue s p issue) = hs_duplicate_observations s"
  "hs_reordered_observations (apply_issue s p issue) = hs_reordered_observations s"
  "hs_missing_samples_inferred (apply_issue s p issue) = hs_missing_samples_inferred s"
  "hs_payloads_rejected (apply_issue s p issue) =
     (if issue = PayloadRejected then saturating_increment else id) (hs_payloads_rejected s)"
  "hs_packets_dropped_queue_full (apply_issue s p issue) =
     (if issue = QueueDropped then saturating_increment else id) (hs_packets_dropped_queue_full s)"
  "hs_timestamp_anomalies (apply_issue s p issue) = hs_timestamp_anomalies s"
  by (simp_all add: apply_issue_def mark_issue_def split: source_health_issue.split)

lemma fresh_state_fields [simp]:
  "hs_last_receive_timestamp_ns (fresh_state src) = 0" "hs_packets_received (fresh_state src) = 0"
  "hs_first_receive_timestamp_ns (fresh_state src) = 0" "window (fresh_state src) = []"
  "ring_ok (fresh_state src)" "\<not> hs_issue_seen (fresh_state src)"
  "hs_last_issue_timestamp_ns (fresh_state src) = 0" "hs_healthy_packets_since_issue (fresh_state src) = 0"
  "hs_gap_observations (fresh_state src) = 0" "hs_duplicate_observations (fresh_state src) = 0"
  "hs_reordered_observations (fresh_state src) = 0" "hs_missing_samples_inferred (fresh_state src) = 0"
  "hs_payloads_rejected (fresh_state src) = 0" "hs_packets_dropped_queue_full (fresh_state src) = 0"
  "hs_timestamp_anomalies (fresh_state src) = 0"
  by (simp_all add: fresh_state_def window_def ring_ok_def kRecentTimestampCapacity_def)

subsection \<open>The measurements are those of the history\<close>

lemma history_times:
  "hs_last_receive_timestamp_ns (health_of src es) = last_receive es
   \<and> hs_packets_received (health_of src es) = saturated (length (arrivals es))
   \<and> hs_first_receive_timestamp_ns (health_of src es) = (case arrivals es of [] \<Rightarrow> 0 | t # ts \<Rightarrow> t)
   \<and> ring_ok (health_of src es) \<and> window (health_of src es) = last_n 64 (arrivals es)"
proof (induction es rule: rev_induct)
  case Nil
  show ?case by (simp add: saturated_0 last_n_def)
next
  case (snoc e es)
  show ?case
  proof (cases e)
    case (Arrived p obs)
    then show ?thesis using snoc
      by (auto simp: record_packet_times ring_record last_n_last_n_snoc metric_simps split: list.split)
  next
    case (Failed p issue)
    then show ?thesis using snoc by (simp add: apply_issue_times)
  qed
qed

lemma history_recovery:
  "tracked es \<Longrightarrow>
   (hs_issue_seen (health_of src es) \<longleftrightarrow> (\<exists>e \<in> set es. is_issue e))
   \<and> hs_last_issue_timestamp_ns (health_of src es) = last_issue es
   \<and> hs_healthy_packets_since_issue (health_of src es) = saturated (clean_since es)"
proof (induction es rule: rev_induct)
  case Nil
  show ?case by (simp add: saturated_0)
next
  case (snoc e es)
  show ?case
  proof (cases e)
    case (Arrived p obs)
    then show ?thesis using snoc history_times [of src es]
      by (auto simp: record_packet_recovery metric_simps)
  next
    case (Failed p issue)
    then show ?thesis using snoc by (simp add: apply_issue_recovery metric_simps)
  qed
qed

definition status_count :: "sequence_status \<Rightarrow> source_event list \<Rightarrow> nat" where
  "status_count st = event_count (\<lambda>e. event_status e = Some st)"

fun failed_with :: "source_health_issue \<Rightarrow> source_event \<Rightarrow> bool" where
  "failed_with i (Failed p issue) \<longleftrightarrow> issue = i"
| "failed_with i (Arrived p obs) \<longleftrightarrow> False"

fun from_future :: "source_event \<Rightarrow> bool" where
  "from_future (Arrived p obs) \<longleftrightarrow> rp_source_timestamp_ns p > rp_receive_timestamp_ns p"
| "from_future (Failed p issue) \<longleftrightarrow> False"

lemma history_counts:
  "hs_gap_observations (health_of src es) = saturated (status_count Gap es)
   \<and> hs_duplicate_observations (health_of src es) = saturated (status_count Duplicate es)
   \<and> hs_reordered_observations (health_of src es) = saturated (status_count Reordered es)
   \<and> hs_missing_samples_inferred (health_of src es) = saturated (sum_list (map event_missing es))
   \<and> hs_payloads_rejected (health_of src es) = saturated (event_count (failed_with PayloadRejected) es)
   \<and> hs_packets_dropped_queue_full (health_of src es) = saturated (event_count (failed_with QueueDropped) es)
   \<and> hs_timestamp_anomalies (health_of src es) = saturated (event_count from_future es)"
proof (induction es rule: rev_induct)
  case Nil
  show ?case by (simp add: saturated_0 status_count_def)
next
  case (snoc e es)
  show ?case
  proof (cases e)
    case (Arrived p obs)
    then show ?thesis using snoc by (simp add: record_packet_counts status_count_def metric_simps)
  next
    case (Failed p issue)
    then show ?thesis using snoc by (simp add: apply_issue_counts status_count_def metric_simps)
  qed
qed

section \<open>Status\<close>

text \<open>The five rules of \<open>docs/source-health-monitoring.md\<close>, over the history, exact integers and
  signed durations.\<close>

definition status_of :: "health_config \<Rightarrow> source_event list \<Rightarrow> u64 \<Rightarrow> source_health_status" where
  "status_of config es now =
     (if sint (hc_offline_after config) \<le> uint now - uint (last_receive es) then Offline
      else if sint (hc_degraded_after config) \<le> uint now - uint (last_receive es) then Degraded
      else if (\<exists>e \<in> set es. is_issue e)
        \<and> (uint now - uint (last_issue es) < sint (hc_recovery_after config)
           \<or> clean_since es < unat (hc_healthy_after_packets config)) then Degraded
      else if length (arrivals es) < unat (hc_healthy_after_packets config) then StatusUnknown
      else Healthy)"

lemma uint_positive_duration:
  fixes d :: "64 word"
  assumes pos: "0 < sint d"
  shows "uint (duration_ns d) = sint d"
proof -
  have "uint d = take_bit 64 (sint d)" by (simp add: uint_sint)
  also have "\<dots> = sint d" by (rule take_bit_int_eq_self) (use pos sint_lt [of d] in simp_all)
  finally show ?thesis by (simp add: duration_ns_def)
qed

lemma elapsed_reaches:
  assumes "0 < sint d"
  shows "duration_ns d \<le> elapsed_or_zero now from \<longleftrightarrow> sint d \<le> uint now - uint from"
proof (cases "from \<le> now")
  case True
  then have "uint (now - from) = uint now - uint from" by (simp add: uint_minus_simple_alt)
  then show ?thesis using True assms by (simp add: elapsed_or_zero_def word_le_def uint_positive_duration)
next
  case False
  then have "uint now < uint from" by (simp add: word_le_def)
  then show ?thesis using False assms
    by (simp add: elapsed_or_zero_def word_le_def uint_positive_duration)
qed

lemma elapsed_short:
  assumes "0 < sint d"
  shows "elapsed_or_zero now from < duration_ns d \<longleftrightarrow> uint now - uint from < sint d"
  unfolding not_le [symmetric] elapsed_reaches [OF assms] by (rule refl)

lemma validate_config_InrD:
  "validate_config config = Inr c \<Longrightarrow> c = config \<and> hc_max_sources config \<noteq> 0
    \<and> hc_healthy_after_packets config \<noteq> 0 \<and> 0 < sint (hc_degraded_after config)
    \<and> sint (hc_degraded_after config) < sint (hc_offline_after config) \<and> 0 < sint (hc_recovery_after config)"
  by (auto simp: validate_config_def)

lemma new_monitor_InrD:
  assumes "new_monitor config = Inr mon"
  shows "validate_config config = Inr config" "mon_config mon = config" "mon_sources mon = []"
    "consistent mon" "new_tracker (hc_max_sources config) = Inr (mon_tracker mon)"
    "trk_max_sources (mon_tracker mon) = hc_max_sources config"
proof -
  obtain t where v: "validate_config config = Inr config" and t: "new_tracker (hc_max_sources config) = Inr t"
    and m: "mon = \<lparr>mon_config = config, mon_tracker = t, mon_sources = []\<rparr>"
    using assms by (auto simp: new_monitor_def cbind_eq_Inr_iff dest: validate_config_InrD)
  show "validate_config config = Inr config" "mon_config mon = config" "mon_sources mon = []"
    "consistent mon" "new_tracker (hc_max_sources config) = Inr (mon_tracker mon)"
    "trk_max_sources (mon_tracker mon) = hc_max_sources config"
    using v t m new_tracker_InrD [OF t] by (simp_all add: consistent_def)
qed

lemma monitor_run_config [simp]: "mon_config (fst (monitor_run mon evs)) = mon_config mon"
  unfolding monitor_run_def
  by (rule run_machine_invariant [where P = "\<lambda>m. mon_config m = mon_config mon"]) simp_all

lemma evaluate_status_history:
  assumes "validate_config config = Inr config" and "tracked es"
  shows "evaluate_status config (health_of src es) now = status_of config es now"
proof -
  note v = validate_config_InrD [OF assms(1)]
  have d: "duration_ns (hc_offline_after config) \<le> elapsed_or_zero now from
        \<longleftrightarrow> sint (hc_offline_after config) \<le> uint now - uint from"
    "duration_ns (hc_degraded_after config) \<le> elapsed_or_zero now from
        \<longleftrightarrow> sint (hc_degraded_after config) \<le> uint now - uint from"
    "elapsed_or_zero now from < duration_ns (hc_recovery_after config)
        \<longleftrightarrow> uint now - uint from < sint (hc_recovery_after config)" for "from"
    by (rule elapsed_reaches elapsed_short, use v in linarith)+
  show ?thesis
    using history_times [of src es] history_recovery [OF assms(2), of src]
    by (simp add: evaluate_status_def status_of_def Let_def metric_simps d)
qed

section \<open>Rate\<close>

lemma arrivals_sorted: "sorted (arrivals es) \<and> (\<forall>t \<in> set (arrivals es). t \<le> last_receive es)"
proof (induction es rule: rev_induct)
  case (snoc e es)
  then show ?case by (cases e) (auto simp: sorted_append max_def intro: order_trans)
qed simp

lemma window_ends:
  assumes "ring_ok s" "hs_recent_timestamp_count s \<noteq> 0"
  shows "hs_recent_timestamps s !
      (if hs_recent_timestamp_count s < 64 then 0 else hs_next_timestamp_index s) = hd (window s)"
    and "hs_recent_timestamps s ! ((hs_next_timestamp_index s + 63) mod 64) = last (window s)"
proof -
  let ?n = "hs_next_timestamp_index s" and ?c = "hs_recent_timestamp_count s"
  have w: "?n < 64" "?c \<le> 64" "?c < 64 \<Longrightarrow> ?n = ?c" using assms(1) by (simp_all add: ring_ok_def)
  have h: "hd (window s) = hs_recent_timestamps s ! ((?n + 64 - ?c) mod 64)"
    using assms(2) by (simp add: window_def hd_map)
  have l: "last (window s) = hs_recent_timestamps s ! ((?n + 64 - ?c + (?c - 1)) mod 64)"
    using assms(2) by (simp add: window_def last_map)
  have "(?n + 64 - ?c) mod 64 = (if ?c < 64 then 0 else ?n)" using w by (cases "?c < 64") auto
  then show "hs_recent_timestamps s ! (if ?c < 64 then 0 else ?n) = hd (window s)" unfolding h by simp
  have "?n + 64 - ?c + (?c - 1) = ?n + 63" using w assms(2) by simp
  then show "hs_recent_timestamps s ! ((?n + 63) mod 64) = last (window s)" unfolding l by simp
qed

lemma kNanosecondsPerSecond_real: "real64 kNanosecondsPerSecond = 10 ^ 9" "0 \<le> scaled64 kNanosecondsPerSecond"
proof -
  have "scaled64 kNanosecondsPerSecond = 10 ^ 9 * 2 ^ 1074"
    by (simp add: kNanosecondsPerSecond_def scaled64_def exp64_def man64_def neg64_def scaled_magnitude_def)
  then show "real64 kNanosecondsPerSecond = 10 ^ 9" "0 \<le> scaled64 kNanosecondsPerSecond"
    by (simp_all add: real64_def)
qed

text \<open>The rate of the last 64 arrivals \<open>w\<close>, as a real.\<close>

definition rate_of :: "u64 list \<Rightarrow> real" where
  "rate_of w = (if length w < 2 \<or> last w = hd w then 0
     else real (length w - 1) * 10 ^ 9 / real (unat (last w) - unat (hd w)))"

lemma current_rate_eq:
  assumes "ring_ok s"
  shows "current_rate_hz s =
    (if length (window s) < 2 \<or> last (window s) - hd (window s) = 0 then Float64 0
     else f64_divide (f64_times (f64_of_u64 (of_nat (length (window s) - 1))) kNanosecondsPerSecond)
       (f64_of_u64 (last (window s) - hd (window s))))"
proof (cases "hs_recent_timestamp_count s < 2")
  case True
  then show ?thesis by (simp add: current_rate_hz_def window_def)
next
  case False
  have len: "length (window s) = hs_recent_timestamp_count s" by (simp add: window_def)
  have n: "hs_next_timestamp_index s + 64 - 1 = hs_next_timestamp_index s + 63" by simp
  have c: "hs_recent_timestamp_count s \<noteq> 0" using False by simp
  show ?thesis
    unfolding current_rate_hz_def kRecentTimestampCapacity_def Let_def n window_ends [OF assms c] len
    using False by simp
qed

lemma current_rate_window:
  assumes ring: "ring_ok s" and "sorted (window s)"
  shows "isfinite64 (current_rate_hz s)
    \<and> \<bar>real64 (current_rate_hz s) - rate_of (window s)\<bar> \<le> rate_of (window s) / 2 ^ 50"
proof -
  let ?w = "window s"
  have len: "length ?w = hs_recent_timestamp_count s" by (simp add: window_def)
  have zero: "isfinite64 (Float64 0)" "real64 (Float64 0) = 0"
    by (simp_all add: isfinite64_def real64_def scaled64_def exp64_def man64_def scaled_magnitude_def)
  show ?thesis
  proof (cases "length ?w < 2 \<or> last ?w = hd ?w")
    case True
    have "current_rate_hz s = Float64 0" unfolding current_rate_eq [OF ring] using True by auto
    then show ?thesis using True by (auto simp: rate_of_def zero)
  next
    case False
    then have w: "2 \<le> length ?w" "?w \<noteq> []" "last ?w \<noteq> hd ?w" by auto
    then have "hd ?w \<le> last ?w" using assms(2) by (cases ?w) (auto simp: last_in_set)
    then have lt: "unat (hd ?w) < unat (last ?w)" and sub: "unat (last ?w - hd ?w) = unat (last ?w) - unat (hd ?w)"
      using w(3) by (simp_all add: word_le_nat_alt unat_sub le_neq_implies_less word_unat_eq_iff)
    define el where "el = last ?w - hd ?w"
    define k where "k = length ?w - 1"
    have el0: "el \<noteq> 0" using w(3) by (simp add: el_def)
    have r: "current_rate_hz s = f64_divide (f64_times (f64_of_u64 (of_nat k)) kNanosecondsPerSecond) (f64_of_u64 el)"
      unfolding current_rate_eq [OF ring] k_def el_def using w by simp
    have k: "1 \<le> k" "k \<le> 63" using w(1) ring by (auto simp: k_def len ring_ok_def)
    have uk: "unat (of_nat k :: u64) = k" using k by (simp add: unat_of_nat)
    have el: "real 1 \<le> real (unat el)" "real (unat el) \<le> real (2 ^ 64)"
      unfolding of_nat_le_iff using lt sub unat_u64_bound [of el] by (auto simp: el_def)
    have ok: "of_nat k \<noteq> (0 :: u64)" using k uk by (metis not_one_le_zero unat_0)
    have kr: "1 \<le> real k" "real k \<le> 64" using k by simp_all
    have kn: "1 \<le> real64 kNanosecondsPerSecond" "real64 kNanosecondsPerSecond \<le> 2 ^ 64"
      by (simp_all add: kNanosecondsPerSecond_real)
    note s = scaled_ratio_rounds [OF f64_of_u64_rounds [OF ok, unfolded uk] kr
        kNanosecondsPerSecond_real(2) kn f64_of_u64_rounds [OF el0]]
    have y: "1 \<le> real (unat el)" "real (unat el) \<le> 2 ^ 64" using el by simp_all
    have "rate_of ?w = real k * real64 kNanosecondsPerSecond / real (unat el)"
      unfolding rate_of_def kNanosecondsPerSecond_real(1) el_def sub using False by (simp add: k_def)
    then show ?thesis unfolding r using s [OF y] by metis
  qed
qed

lemma sorted_last_n: "sorted xs \<Longrightarrow> sorted (last_n n xs)"
  by (simp add: last_n_def sorted_wrt_drop)

lemma history_rate:
  "isfinite64 (current_rate_hz (health_of src es))
   \<and> \<bar>real64 (current_rate_hz (health_of src es)) - rate_of (last_n 64 (arrivals es))\<bar>
      \<le> rate_of (last_n 64 (arrivals es)) / 2 ^ 50"
  using current_rate_window [of "health_of src es"] history_times [of src es] arrivals_sorted [of es]
    sorted_last_n by metis

section \<open>Latency\<close>

fun event_latency :: "source_event \<Rightarrow> u64 list" where
  "event_latency (Arrived p obs) = [if rp_source_timestamp_ns p > rp_receive_timestamp_ns p then 0
     else rp_receive_timestamp_ns p - rp_source_timestamp_ns p]"
| "event_latency (Failed p issue) = []"

definition latencies :: "source_event list \<Rightarrow> u64 list" where
  "latencies es = concat (map event_latency es)"

lemma record_packet_latency:
  "hs_latest_latency_ns (record_packet s p obs) = (if rp_source_timestamp_ns p > rp_receive_timestamp_ns p
     then 0 else rp_receive_timestamp_ns p - rp_source_timestamp_ns p)"
  "hs_maximum_latency_ns (record_packet s p obs) = (if rp_source_timestamp_ns p > rp_receive_timestamp_ns p
     then hs_maximum_latency_ns s
     else max (hs_maximum_latency_ns s) (rp_receive_timestamp_ns p - rp_source_timestamp_ns p))"
  by (simp_all add: record_packet_def record_recent_timestamp_def record_latency_def mark_issue_def
      Let_def split: sequence_status.split)

lemma apply_issue_latency:
  "hs_latest_latency_ns (apply_issue s p issue) = hs_latest_latency_ns s"
  "hs_maximum_latency_ns (apply_issue s p issue) = hs_maximum_latency_ns s"
  by (simp_all add: apply_issue_def mark_issue_def split: source_health_issue.split)

lemma history_latency:
  "hs_latest_latency_ns (health_of src es) = last (0 # latencies es)
   \<and> hs_maximum_latency_ns (health_of src es) = fold max (latencies es) 0"
proof (induction es rule: rev_induct)
  case Nil
  show ?case by (simp add: latencies_def fresh_state_def)
next
  case (snoc e es)
  then show ?case
    by (cases e) (simp_all add: latencies_def record_packet_latency apply_issue_latency max.commute)
qed

section \<open>Properties\<close>

definition received_at :: "u64 \<Rightarrow> u16 \<Rightarrow> u64 \<Rightarrow> received_packet" where
  "received_at t port n = sample_packet port n\<lparr>rp_receive_timestamp_ns := t\<rparr>"

definition sample_config :: health_config where
  "sample_config = \<lparr>hc_max_sources = 2, hc_healthy_after_packets = 2, hc_degraded_after = 500000000,
     hc_offline_after = 2000000000, hc_recovery_after = 1000000000\<rparr>"

definition sample_monitor :: monitor where
  "sample_monitor = \<lparr>mon_config = sample_config, mon_tracker = sample_tracker, mon_sources = []\<rparr>"

definition sample_events :: "monitor_event list" where
  "sample_events = [Arrival (received_at 100000000 5 1), Arrival (received_at 200000000 5 2),
     Problem (received_at 200000000 5 2) QueueDropped, Arrival (received_at 900000000 6 7),
     Arrival (received_at 300000000 5 3), Arrival (received_at 1300000000 5 4)]"

definition sample_source :: sensor_source where
  "sample_source = identify_sensor_source (sample_packet 5 0)"

lemma sample_monitor: "new_monitor sample_config = Inr sample_monitor"
  by (simp add: new_monitor_def validate_config_def sample_config_def sample_tracker sample_monitor_def)

text \<open>C11. Whatever packets and problems of whatever sources the monitor is told about, the status it
  evaluates for a source at a time depends on the events of that source alone, by the five rules:
  offline after silence, degraded after silence, degraded while recovering from an issue, unknown
  until enough packets, healthy otherwise. Counts are exact (a saturated counter cannot change the
  verdict), durations compare as signed values, and times before the last observation count as no
  silence.\<close>

theorem health_status_of_history:
  assumes "new_monitor config = Inr mon"
    and "monitor_run mon evs = (mon', outs)"
    and "lookup hs_source (mon_sources mon') src = Some s"
  shows "evaluate_status (mon_config mon') s now = status_of config (source_events src evs outs) now"
proof -
  note m = new_monitor_InrD [OF assms(1)]
  have "s = health_of src (source_events src evs outs) \<and> tracked (source_events src evs outs)"
    using source_history [OF m(4) m(3), of evs src s] assms(2,3) by simp
  then show ?thesis
    using evaluate_status_history [OF m(1)] monitor_run_config [of mon evs] assms(2) m(2) by simp
qed

lemma sample_run:
  "\<exists>s. lookup hs_source (mon_sources (fst (monitor_run sample_monitor sample_events))) sample_source = Some s"
proof -
  have "lookup hs_source (mon_sources (fst (monitor_run sample_monitor sample_events))) sample_source \<noteq> None"
    by code_simp
  then show ?thesis by blast
qed

definition sample_outs :: "sequence_observation option list" where
  "sample_outs = [Some (make_observation First 1), Some (make_observation InOrder 2), None,
     Some (make_observation First 7), Some (make_observation InOrder 3), Some (make_observation InOrder 4)]"

lemma sample_monitor_run:
  "monitor_run sample_monitor sample_events = (fst (monitor_run sample_monitor sample_events), sample_outs)"
proof -
  have "snd (monitor_run sample_monitor sample_events) = sample_outs" by code_simp
  then show ?thesis by (simp add: prod_eq_iff)
qed

lemma health_status_of_history_witness:
  "\<exists>s. lookup hs_source (mon_sources (fst (monitor_run sample_monitor sample_events))) sample_source = Some s
    \<and> map (evaluate_status sample_config s) [1150000000, 1400000000, 1900000000, 4000000000]
      = [Degraded, Healthy, Degraded, Offline]"
proof -
  obtain s where s: "lookup hs_source (mon_sources (fst (monitor_run sample_monitor sample_events))) sample_source = Some s"
    using sample_run by blast
  have c: "mon_config (fst (monitor_run sample_monitor sample_events)) = sample_config"
    by (simp add: sample_monitor_def)
  have "map (status_of sample_config (source_events sample_source sample_events sample_outs))
    [1150000000, 1400000000, 1900000000, 4000000000] = [Degraded, Healthy, Degraded, Offline]"
    by code_simp
  then show ?thesis
    using s health_status_of_history [OF sample_monitor sample_monitor_run s, unfolded c] by simp
qed

lemma fold_max_ge: "m \<le> fold max ts (m :: u64) \<and> (\<forall>t \<in> set ts. t \<le> fold max ts m)"
proof (induction ts arbitrary: m)
  case (Cons x ts)
  then have "max x m \<le> fold max ts (max x m)" by blast
  then show ?case using Cons.IH [of "max x m"] by auto
qed simp

lemma clean_since_le: "is_issue e \<Longrightarrow> clean_since (es @ e # es') \<le> event_count (\<lambda>e. \<not> is_issue e) es'"
proof (induction es' rule: rev_induct)
  case Nil
  then show ?case by simp
next
  case (snoc x es')
  then show ?case using clean_since_snoc(2) [of "es @ e # es'" x] by (auto simp: event_count_snoc)
qed

text \<open>C12. Recovery needs both time and new evidence: after an issue of a source, recorded at time
  \<open>t\<close>, the monitor does not call the source healthy at any time before \<open>t\<close> plus the recovery
  duration, nor while fewer clean packets than \<open>healthy_after_packets\<close> have followed it.\<close>

theorem recovery_needs_time_and_evidence:
  assumes "new_monitor config = Inr mon"
    and "monitor_run mon evs = (mon', outs)"
    and "lookup hs_source (mon_sources mon') src = Some s"
    and hist: "source_events src evs outs = es @ e # es'" and issue: "is_issue e"
    and early: "uint now < uint (snd (stamped 0 (source_events src evs outs) ! length es))
        + sint (hc_recovery_after config)
      \<or> event_count (\<lambda>e. \<not> is_issue e) es' < unat (hc_healthy_after_packets config)"
  shows "evaluate_status (mon_config mon') s now \<noteq> Healthy"
proof -
  note m = new_monitor_InrD [OF assms(1)]
  let ?es = "source_events src evs outs"
  have "s = health_of src ?es \<and> tracked ?es"
    using source_history [OF m(4) m(3), of evs src s] assms(2,3) by simp
  then have st: "evaluate_status (mon_config mon') s now = status_of config ?es now"
    using evaluate_status_history [OF m(1)] monitor_run_config [of mon evs] assms(2) m(2) by simp
  have len: "length (stamped m xs) = length xs" for m xs by (induction m xs rule: stamped.induct) auto
  have fst: "map fst (stamped m xs) = xs" for m xs by (induction m xs rule: stamped.induct) auto
  have "fst (stamped 0 ?es ! length es) = map fst (stamped 0 ?es) ! length es"
    by (rule nth_map [symmetric]) (simp add: len hist)
  then have "fst (stamped 0 ?es ! length es) = e" by (simp add: fst hist nth_append)
  then have "stamped 0 ?es ! length es \<in> set (filter (\<lambda>x. is_issue (fst x)) (stamped 0 ?es))"
    using issue by (simp add: len hist)
  then have "snd (stamped 0 ?es ! length es) \<in> set (issue_times ?es)"
    unfolding issue_times_def set_map by (rule imageI)
  then have "snd (stamped 0 ?es ! length es) \<le> last_issue ?es"
    unfolding last_issue_def using fold_max_ge by blast
  then have "uint (snd (stamped 0 ?es ! length es)) \<le> uint (last_issue ?es)" by (simp add: word_le_def)
  moreover have "clean_since ?es \<le> event_count (\<lambda>e. \<not> is_issue e) es'"
    unfolding hist by (rule clean_since_le [OF issue])
  ultimately have "uint now - uint (last_issue ?es) < sint (hc_recovery_after config)
      \<or> clean_since ?es < unat (hc_healthy_after_packets config)"
    using early by linarith
  moreover have "\<exists>e \<in> set ?es. is_issue e" using issue hist by simp
  ultimately show ?thesis unfolding st status_of_def by simp
qed

lemma recovery_needs_time_and_evidence_witness:
  "\<exists>s. lookup hs_source (mon_sources (fst (monitor_run sample_monitor sample_events))) sample_source = Some s
    \<and> evaluate_status sample_config s 1199999999 \<noteq> Healthy"
proof -
  obtain s where s: "lookup hs_source (mon_sources (fst (monitor_run sample_monitor sample_events))) sample_source = Some s"
    using sample_run by blast
  have c: "mon_config (fst (monitor_run sample_monitor sample_events)) = sample_config"
    by (simp add: sample_monitor_def)
  let ?es = "source_events sample_source sample_events sample_outs"
  have l: "2 < length ?es" by code_simp
  then have h: "?es = take 2 ?es @ (?es ! 2) # drop (Suc 2) ?es" by (rule id_take_nth_drop)
  have i: "is_issue (?es ! 2)" by code_simp
  have t: "uint (1199999999 :: u64) < uint (snd (stamped 0 ?es ! length (take 2 ?es)))
      + sint (hc_recovery_after sample_config)" by code_simp
  have "evaluate_status sample_config s 1199999999 \<noteq> Healthy"
    by (rule recovery_needs_time_and_evidence [OF sample_monitor sample_monitor_run s h i disjI1 [OF t], unfolded c])
  with s show ?thesis by blast
qed

lemma unat_elapsed_or_zero: "unat (elapsed_or_zero now before) = unat now - unat before"
  by (auto simp: elapsed_or_zero_def unat_sub word_less_nat_alt word_le_nat_alt not_less less_imp_le)

text \<open>C13. Every field of a snapshot taken at time \<open>now\<close> is determined by the events of its source:
  each counter counts them (saturating at the largest 64-bit value), the first and last receive
  times and the latencies are those of its arrivals, the inactivity is the time from the last
  receive time to \<open>now\<close> (0 when that time lies ahead), the status is the one the five rules give
  and the rate that of the last 64 arrivals up to a relative rounding error of \<open>2 ^ - 50\<close>. A receive
  timestamp that goes backwards never moves the last receive time back.\<close>

theorem snapshot_counts_history:
  assumes "new_monitor config = Inr mon"
    and "monitor_run mon evs = (mon', outs)"
    and "lookup hs_source (mon_sources mon') src = Some s"
    and es: "es = source_events src evs outs"
    and snap: "snap = make_snapshot (mon_config mon') s now"
  shows "snap_source snap = src
    \<and> snap_status snap = status_of config es now
    \<and> unat (snap_inactivity_ns snap) = unat now - unat (last_receive es)
    \<and> isfinite64 (snap_current_rate_hz snap)
    \<and> \<bar>real64 (snap_current_rate_hz snap) - rate_of (last_n 64 (arrivals es))\<bar>
        \<le> rate_of (last_n 64 (arrivals es)) / 2 ^ 50
    \<and> snap_packets_received snap = saturated (length (arrivals es))
    \<and> snap_first_receive_timestamp_ns snap = (case arrivals es of [] \<Rightarrow> 0 | t # ts \<Rightarrow> t)
    \<and> snap_last_receive_timestamp_ns snap = last_receive es
    \<and> sorted (arrivals es) \<and> (\<forall>t \<in> set (arrivals es). t \<le> last_receive es)
    \<and> snap_latest_latency_ns snap = last (0 # latencies es)
    \<and> snap_maximum_latency_ns snap = fold max (latencies es) 0
    \<and> snap_timestamp_anomalies snap = saturated (event_count from_future es)
    \<and> snap_gap_observations snap = saturated (status_count Gap es)
    \<and> snap_duplicate_observations snap = saturated (status_count Duplicate es)
    \<and> snap_reordered_observations snap = saturated (status_count Reordered es)
    \<and> snap_missing_samples_inferred snap = saturated (sum_list (map event_missing es))
    \<and> snap_payloads_rejected snap = saturated (event_count (failed_with PayloadRejected) es)
    \<and> snap_packets_dropped_queue_full snap = saturated (event_count (failed_with QueueDropped) es)"
proof -
  note m = new_monitor_InrD [OF assms(1)]
  have s: "s = health_of src es" and t: "tracked es"
    using source_history [OF m(4) m(3), of evs src s] assms(2,3) es by simp_all
  have k: "hs_source s = src" using assms(3) lookup_Some_key by fast
  have st: "evaluate_status (mon_config mon') s now = status_of config es now"
    using evaluate_status_history [OF m(1) t] monitor_run_config [of mon evs] assms(2) m(2) s by simp
  have "unat (elapsed_or_zero now (hs_last_receive_timestamp_ns s)) = unat now - unat (last_receive es)"
    using history_times [of src es] by (simp add: s unat_elapsed_or_zero)
  then show ?thesis unfolding snap make_snapshot_def
    using history_times [of src es] history_counts [of src es] history_latency [of src es]
      arrivals_sorted [of es] k st history_rate [of src es] by (simp add: s)
qed

lemma snapshot_counts_history_witness:
  "\<exists>s. lookup hs_source (mon_sources (fst (monitor_run sample_monitor sample_events))) sample_source = Some s
    \<and> snap_packets_received (make_snapshot sample_config s 1300000007) = 4
    \<and> snap_packets_dropped_queue_full (make_snapshot sample_config s 1300000007) = 1
    \<and> unat (snap_inactivity_ns (make_snapshot sample_config s 1300000007)) = 7"
proof -
  obtain s where s: "lookup hs_source (mon_sources (fst (monitor_run sample_monitor sample_events))) sample_source = Some s"
    using sample_run by blast
  have c: "mon_config (fst (monitor_run sample_monitor sample_events)) = sample_config"
    by (simp add: sample_monitor_def)
  have "length (arrivals (source_events sample_source sample_events sample_outs)) = 4"
    "event_count (failed_with QueueDropped) (source_events sample_source sample_events sample_outs) = 1"
    by code_simp+
  moreover have "saturated 4 = 4" "saturated 1 = 1" by (simp_all add: saturated_total_def)
  moreover have "last_receive (source_events sample_source sample_events sample_outs) = 1300000000" by code_simp
  then have "unat (1300000007 :: u64)
      - unat (last_receive (source_events sample_source sample_events sample_outs)) = 7" by (simp only:) simp
  ultimately have "snap_packets_received (make_snapshot sample_config s 1300000007) = 4"
    "snap_packets_dropped_queue_full (make_snapshot sample_config s 1300000007) = 1"
    "unat (snap_inactivity_ns (make_snapshot sample_config s 1300000007)) = 7"
    using snapshot_counts_history [OF sample_monitor sample_monitor_run s refl refl, of 1300000007, unfolded c]
    by (elim conjE, simp only:)+
  with s show ?thesis by blast
qed

text \<open>C14. The reported rate is the documented one up to rounding: over the last 64 arrivals of the
  source it differs from \<open>(n - 1)\<close> per elapsed time by a relative error of at most \<open>2 ^ - 50\<close>, it is
  exactly zero for fewer than two arrivals or no elapsed time, never infinite or NaN, and the
  elapsed time never wraps around.\<close>

theorem rate_of_last_arrivals:
  assumes "new_monitor config = Inr mon"
    and "monitor_run mon evs = (mon', outs)"
    and "lookup hs_source (mon_sources mon') src = Some s"
    and "w = last_n 64 (arrivals (source_events src evs outs))"
  shows "isfinite64 (current_rate_hz s)
    \<and> \<bar>real64 (current_rate_hz s) - rate_of w\<bar> \<le> rate_of w / 2 ^ 50 \<and> sorted w"
proof -
  note m = new_monitor_InrD [OF assms(1)]
  have "s = health_of src (source_events src evs outs)"
    using source_history [OF m(4) m(3), of evs src s] assms(2,3) by simp
  then show ?thesis
    using history_rate [of src "source_events src evs outs"] assms(4)
      arrivals_sorted [of "source_events src evs outs"] sorted_last_n by blast
qed

lemma rate_of_last_arrivals_witness:
  "\<exists>s. lookup hs_source (mon_sources (fst (monitor_run sample_monitor sample_events))) sample_source = Some s
    \<and> \<bar>real64 (current_rate_hz s) - 5 / 2\<bar> \<le> 5 / 2 / 2 ^ 50"
proof -
  obtain s where s: "lookup hs_source (mon_sources (fst (monitor_run sample_monitor sample_events))) sample_source = Some s"
    using sample_run by blast
  have "last_n 64 (arrivals (source_events sample_source sample_events sample_outs))
      = [100000000, 200000000, 300000000, 1300000000]" by code_simp
  then have r: "rate_of (last_n 64 (arrivals (source_events sample_source sample_events sample_outs))) = 5 / 2"
    by (simp add: rate_of_def)
  show ?thesis
    using s rate_of_last_arrivals [OF sample_monitor sample_monitor_run s refl, unfolded r] by blast
qed

section \<open>The report\<close>

lemma snapshot_key_inj: "snapshot_key a = snapshot_key b \<Longrightarrow> a = b"
  by (cases a; cases b) (auto simp: snapshot_key_def word_unat_eq_iff message_type.expand
      intro!: ipv4_endpoint.equality)

text \<open>C15. A report is a complete, duplicate-free copy of the per-source state in strictly increasing
  order of source identity: one snapshot for each source of the stream tracker, at most
  \<open>max_sources\<close> of them. Distinct sources have distinct sort keys, so the unstable sort of the code
  has one possible result.\<close>

theorem report_complete_and_sorted:
  assumes "new_monitor config = Inr mon" and "monitor_run mon evs = (mon', outs)"
  shows "mset (rep_sources (health_report_of mon' now))
      = mset (map (\<lambda>s. make_snapshot (mon_config mon') s now) (mon_sources mon'))
    \<and> sorted_wrt (\<lambda>a b. snapshot_key (snap_source a) < snapshot_key (snap_source b))
        (rep_sources (health_report_of mon' now))
    \<and> snap_source ` set (rep_sources (health_report_of mon' now)) = st_source ` set (trk_sources (mon_tracker mon'))
    \<and> length (rep_sources (health_report_of mon' now)) \<le> hc_max_sources config"
proof -
  note m = new_monitor_InrD [OF assms(1)]
  have mon': "mon' = fst (monitor_run mon evs)" using assms(2) by simp
  have con: "consistent mon'" unfolding mon' by (rule consistent_run [OF m(4)])
  have e: "entries mon' = fst (run_machine (health_table undefined (hc_max_sources config)) [] evs)"
    using monitor_run_table [OF m(4) m(6), of evs undefined] by (simp add: mon' entries_def m(3))
  have ms: "mon_sources mon' = map snd (entries mon')" by (simp add: of_entries_entries(2) [OF con])
  have "distinct (map entry_key (entries mon'))" "length (entries mon') \<le> hc_max_sources config"
    unfolding e by (simp_all add: health.run_distinct health.run_bounded)
  then have d: "distinct (map hs_source (mon_sources mon'))" and b: "length (mon_sources mon') \<le> hc_max_sources config"
    by (simp_all add: ms comp_def entry_key_def [abs_def])
  let ?f = "\<lambda>s. make_snapshot (mon_config mon') s now" and ?k = "\<lambda>v. snapshot_key (snap_source v)"
  have rep: "rep_sources (health_report_of mon' now) = sort_key ?k (map ?f (mon_sources mon'))"
    by (simp add: health_report_of_def)
  have "distinct (map ?k (map ?f (mon_sources mon')))"
    using d snapshot_key_inj by (auto simp: make_snapshot_def distinct_map comp_def inj_on_def)
  moreover have "image_mset ?k (mset (sort_key ?k (map ?f (mon_sources mon')))) = image_mset ?k (mset (map ?f (mon_sources mon')))"
    by (simp only: mset_sort)
  then have "mset (map ?k (sort_key ?k (map ?f (mon_sources mon')))) = mset (map ?k (map ?f (mon_sources mon')))"
    by (simp only: mset_map)
  ultimately have "distinct (map ?k (sort_key ?k (map ?f (mon_sources mon'))))"
    using mset_eq_imp_distinct_iff by blast
  moreover have "sorted (map ?k (sort_key ?k (map ?f (mon_sources mon'))))" by simp
  ultimately have "sorted_wrt (<) (map ?k (sort_key ?k (map ?f (mon_sources mon'))))"
    by (simp only: strict_sorted_iff)
  then have sorted: "sorted_wrt (\<lambda>a b. ?k a < ?k b) (rep_sources (health_report_of mon' now))"
    unfolding rep by (simp only: sorted_wrt_map)
  have "snap_source ` set (rep_sources (health_report_of mon' now)) = set (map hs_source (mon_sources mon'))"
    unfolding rep by (simp add: image_image make_snapshot_def)
  also have "\<dots> = st_source ` set (trk_sources (mon_tracker mon'))"
    using con unfolding consistent_def by (metis set_map)
  finally have src: "snap_source ` set (rep_sources (health_report_of mon' now)) = \<dots>" .
  show ?thesis
    using sorted src b unfolding rep by (simp only: mset_sort mset_map length_sort length_map simp_thms)
qed

lemma report_complete_and_sorted_witness:
  "sorted_wrt (\<lambda>a b. snapshot_key (snap_source a) < snapshot_key (snap_source b))
     (rep_sources (health_report_of (fst (monitor_run sample_monitor sample_events)) 0))
   \<and> length (rep_sources (health_report_of (fst (monitor_run sample_monitor sample_events)) 0)) \<le> 2"
proof -
  have "hc_max_sources sample_config = 2" by (simp add: sample_config_def)
  then show ?thesis
    using report_complete_and_sorted [OF sample_monitor sample_monitor_run, where now = 0] by simp
qed

end
