(* ===== verification/Runtime.thy ===== *)
theory Runtime
  imports Runtime_Config Health_History Sample_Processor
begin

text \<open>
  \<open>Runtime\<close> of \<open>src/src/runtime/runtime.cpp\<close>: the constructor with its configuration checks, and
  \<open>run\<close>, the main loop that polls, observes and submits packets while the workers of the pipeline
  process them and report rejected payloads to the same health monitor.

  \<open>run_state\<close> is everything \<open>run\<close> owns: the receiver and the machine, the monitor, the processor, the
  pipeline, the counter of the summary, the program point of the main thread and, per worker, how far
  its processor call has come. \<open>runtime_step\<close> interleaves the main thread and the workers; one step is
  one critical section of the monitor or the pipeline, one call of the client (the stop predicate, the
  sample handler), or one poll. The answers of the stop predicate are free: it may answer anything
  or throw. The counters of the processor are relaxed atomics that are read only after the workers
  have been joined, so a whole \<open>process\<close> call is one step.
\<close>

section \<open>Construction\<close>

definition validate_runtime_config :: "runtime_config \<Rightarrow> runtime_config cpp" where
  "validate_runtime_config c =
     throw_if (rc_packet_count c = Some 0) (Invalid_argument ''runtime packet count must be greater than zero'')
     (throw_if (rc_poll_timeout c \<le> 0) (Invalid_argument ''runtime poll timeout must be greater than zero'')
     (throw_if (wc_worker_count (rc_pipeline c) = 0)
        (Invalid_argument ''runtime worker count must be greater than zero'')
     (throw_if (wc_queue_capacity (rc_pipeline c) = 0)
        (Invalid_argument ''runtime worker queue capacity must be greater than zero'')
     (throw_if (hc_max_sources (rc_health c) = 0)
        (Invalid_argument ''runtime sensor source capacity must be greater than zero'')
     (throw_if (hc_healthy_after_packets (rc_health c) = 0 \<or> sint (hc_degraded_after (rc_health c)) \<le> 0
          \<or> sint (hc_recovery_after (rc_health c)) \<le> 0)
        (Invalid_argument ''runtime source health counts and durations must be positive'')
     (throw_if (sint (hc_offline_after (rc_health c)) \<le> sint (hc_degraded_after (rc_health c)))
        (Invalid_argument ''runtime offline timeout must exceed degraded timeout'')
     (Inr c)))))))"

record runtime =
  rt_config :: runtime_config
  rt_receiver :: receiver

definition new_runtime :: "'w os \<Rightarrow> runtime_config \<Rightarrow> ('w, runtime) io" where
  "new_runtime os config =
     io_bind (io_cpp (validate_runtime_config config)) (\<lambda>config.
     io_bind (new_receiver os (rc_receiver config)) (\<lambda>receiver.
     io_return \<lparr>rt_config = config, rt_receiver = receiver\<rparr>))"

section \<open>The state of a run\<close>

record run_summary =
  sum_packets_received :: u64
  sum_receiver_metrics :: receiver_metrics
  sum_stream_metrics :: stream_metrics
  sum_pipeline_metrics :: pipeline_metrics
  sum_sample_metrics :: processor_metrics
  sum_source_health :: "health_snapshot list"

text \<open>Where the main thread is.\<close>

datatype main_state =
    AtLoop
  | Polling
  | AtPacket "received_packet list"
  | Observing received_packet "received_packet list"
  | Submitting received_packet "received_packet list"
  | Dropping received_packet "received_packet list"
  | Leaving
  | Stopping u64
  | Unwinding cpp_exception
  | Finished "run_summary cpp"

text \<open>How far a worker has come in the packet processor \<open>run\<close> gives to the pipeline.\<close>

datatype call_state = NotCalled | Rejecting | Called handler_result

record ('w, 'u) run_state =
  run_config :: runtime_config
  run_receiver :: receiver
  run_machine :: "'w machine"
  run_monitor :: monitor
  run_processor :: "'u processor"
  run_pipeline :: pipeline
  run_calls :: "call_state list"
  run_received :: u64
  run_main :: main_state

definition limit_reached :: "('w, 'u) run_state \<Rightarrow> bool" where
  "limit_reached s = (case rc_packet_count (run_config s) of
      None \<Rightarrow> False | Some n \<Rightarrow> run_received s \<ge> n)"

text \<open>\<open>run\<close> up to its loop; the second argument tells whether a stop predicate was given.\<close>

definition start_run ::
  "runtime \<Rightarrow> bool \<Rightarrow> 'u handler option \<Rightarrow> 'u \<Rightarrow> 'w machine \<Rightarrow> ('w, 'u) run_state cpp" where
  "start_run rt has_stop_predicate sample_handler user machine =
     throw_if (\<not> has_stop_predicate) (Invalid_argument ''runtime stop predicate must not be empty'')
     (throw_if (sample_handler = None) (Invalid_argument ''runtime sample handler must not be empty'')
     (cbind (new_monitor (rc_health (rt_config rt))) (\<lambda>health_monitor.
      cbind (new_processor sample_handler user) (\<lambda>sample_processor.
      cbind (new_pipeline (rc_pipeline (rt_config rt)) True) (\<lambda>pipeline.
      Inr \<lparr>run_config = rt_config rt, run_receiver = rt_receiver rt, run_machine = machine,
           run_monitor = health_monitor, run_processor = sample_processor, run_pipeline = pipeline,
           run_calls = replicate (wc_worker_count (rc_pipeline (rt_config rt))) NotCalled,
           run_received = 0, run_main = AtLoop\<rparr>)))))"

section \<open>Steps\<close>

datatype run_action =
    AskLoop "bool cpp"
  | Poll "received_packet list cpp"
  | EndOfBatch
  | AskPacket "bool cpp"
  | ObservePacket received_packet
  | SubmitPacket received_packet submit_result
  | ObserveDrop received_packet
  | ReportTime u64
  | Work action
  | Process nat received_packet
  | ObserveReject nat received_packet
  | Finish_call nat received_packet handler_result
  | StopStep action
  | Return pipeline_metrics "run_summary cpp"

definition after_question :: "('w, 'u) run_state \<Rightarrow> bool cpp \<Rightarrow> main_state \<Rightarrow> main_state \<Rightarrow> main_state" where
  "after_question s answer stop go = (case answer of
      Inl e \<Rightarrow> Unwinding e
    | Inr stop_requested \<Rightarrow> if stop_requested \<or> limit_reached s then stop else go)"

text \<open>The packet processor of \<open>run\<close>: \<open>process\<close>, and what remains to do for its result.\<close>

definition call_process :: "'u processor \<Rightarrow> received_packet \<Rightarrow> 'u processor \<times> call_state" where
  "call_process sample_processor packet = (case process sample_processor packet of
      Inl e \<Rightarrow> (sample_processor, Called Threw)
    | Inr (sample_processor, Propagated) \<Rightarrow> (sample_processor, Called Threw)
    | Inr (sample_processor, Processed error) \<Rightarrow>
        (sample_processor, if error \<noteq> PayloadNone then Rejecting else Called Returned))"

definition make_summary :: "('w, 'u) run_state \<Rightarrow> pipeline_metrics \<Rightarrow> u64 \<Rightarrow> run_summary" where
  "make_summary s pipeline_metrics report_timestamp_ns =
     (let health_report = health_report_of (run_monitor s) report_timestamp_ns in
      \<lparr>sum_packets_received = run_received s, sum_receiver_metrics = er_metrics (run_receiver s),
       sum_stream_metrics = rep_stream_metrics health_report, sum_pipeline_metrics = pipeline_metrics,
       sum_sample_metrics = spr_metrics (run_processor s), sum_source_health = rep_sources health_report\<rparr>)"

fun worker_action :: "action \<Rightarrow> bool" where
  "worker_action (NotifyOne who) = True"
| "worker_action (Check i r) = True"
| "worker_action (Spurious i) = True"
| "worker_action _ = False"

inductive runtime_step :: "'w os \<Rightarrow> ('w, 'u) run_state \<Rightarrow> run_action \<Rightarrow> ('w, 'u) run_state \<Rightarrow> bool" for os where
  ask_loop: "run_main s = AtLoop \<Longrightarrow>
     runtime_step os s (AskLoop answer) (s\<lparr>run_main := after_question s answer Leaving Polling\<rparr>)"
| poll: "run_main s = Polling \<Longrightarrow>
     poll os (run_receiver s) (rc_poll_timeout (run_config s)) (run_machine s) = ((res, receiver), machine) \<Longrightarrow>
     runtime_step os s (Poll res) (s\<lparr>run_receiver := receiver, run_machine := machine,
       run_main := case res of Inl e \<Rightarrow> Unwinding e | Inr packets \<Rightarrow> AtPacket packets\<rparr>)"
| end_of_batch: "run_main s = AtPacket [] \<Longrightarrow> runtime_step os s EndOfBatch (s\<lparr>run_main := AtLoop\<rparr>)"
| ask_packet: "run_main s = AtPacket (p # ps) \<Longrightarrow>
     runtime_step os s (AskPacket answer) (s\<lparr>run_main := after_question s answer AtLoop (Observing p ps)\<rparr>)"
| observe: "run_main s = Observing p ps \<Longrightarrow>
     runtime_step os s (ObservePacket p)
       (s\<lparr>run_monitor := fst (observe_packet (run_monitor s) p), run_main := Submitting p ps\<rparr>)"
| submit: "run_main s = Submitting p ps \<Longrightarrow> pipeline_step (run_pipeline s) (Submit p r) t \<Longrightarrow>
     runtime_step os s (SubmitPacket p r)
       (if r = QueueFull then s\<lparr>run_pipeline := t, run_main := Dropping p ps\<rparr>
        else s\<lparr>run_pipeline := t, run_received := run_received s + 1, run_main := AtPacket ps\<rparr>)"
| observe_drop: "run_main s = Dropping p ps \<Longrightarrow>
     runtime_step os s (ObserveDrop p)
       (s\<lparr>run_monitor := observe_issue (run_monitor s) p QueueDropped,
          run_received := run_received s + 1, run_main := AtPacket ps\<rparr>)"
| report_time: "run_main s = Leaving \<Longrightarrow> lib_steady_now os (m_world (run_machine s)) = (now, w) \<Longrightarrow>
     runtime_step os s (ReportTime now)
       (s\<lparr>run_machine := (run_machine s)\<lparr>m_world := w\<rparr>, run_main := Stopping now\<rparr>)"
| work: "worker_action a \<Longrightarrow> pipeline_step (run_pipeline s) a t \<Longrightarrow>
     runtime_step os s (Work a) (s\<lparr>run_pipeline := t\<rparr>)"
| process: "worker_at (run_pipeline s) i (Running p) \<Longrightarrow> i < length (run_calls s) \<Longrightarrow>
     run_calls s ! i = NotCalled \<Longrightarrow> call_process (run_processor s) p = (sp, c) \<Longrightarrow>
     runtime_step os s (Process i p) (s\<lparr>run_processor := sp, run_calls := (run_calls s)[i := c]\<rparr>)"
| observe_reject: "worker_at (run_pipeline s) i (Running p) \<Longrightarrow> i < length (run_calls s) \<Longrightarrow>
     run_calls s ! i = Rejecting \<Longrightarrow>
     runtime_step os s (ObserveReject i p)
       (s\<lparr>run_monitor := observe_issue (run_monitor s) p PayloadRejected,
          run_calls := (run_calls s)[i := Called Returned]\<rparr>)"
| finish: "pipeline_step (run_pipeline s) (Finish i p outcome) t \<Longrightarrow> i < length (run_calls s) \<Longrightarrow>
     run_calls s ! i = Called outcome \<Longrightarrow>
     runtime_step os s (Finish_call i p outcome)
       (s\<lparr>run_pipeline := t, run_calls := (run_calls s)[i := NotCalled]\<rparr>)"
| stop_step: "(\<exists>now. run_main s = Stopping now) \<or> (\<exists>e. run_main s = Unwinding e) \<Longrightarrow>
     a = RequestStop \<or> a = NotifyAll \<Longrightarrow> pipeline_step (run_pipeline s) a t \<Longrightarrow>
     runtime_step os s (StopStep a) (s\<lparr>run_pipeline := t\<rparr>)"
| return_summary: "run_main s = Stopping now \<Longrightarrow> pipeline_step (run_pipeline s) (StopReturn m) t \<Longrightarrow>
     runtime_step os s (Return m (Inr (make_summary s m now)))
       (s\<lparr>run_pipeline := t, run_main := Finished (Inr (make_summary s m now))\<rparr>)"
| rethrow: "run_main s = Unwinding e \<Longrightarrow> pipeline_step (run_pipeline s) (StopReturn m) t \<Longrightarrow>
     runtime_step os s (Return m (Inl e)) (s\<lparr>run_pipeline := t, run_main := Finished (Inl e)\<rparr>)"

abbreviation runtime_run ::
  "'w os \<Rightarrow> ('w, 'u) run_state \<Rightarrow> run_action list \<Rightarrow> ('w, 'u) run_state \<Rightarrow> bool" where
  "runtime_run os \<equiv> run (runtime_step os)"


section \<open>What a trace says\<close>

fun pipeline_part :: "run_action \<Rightarrow> action list" where
  "pipeline_part (SubmitPacket p r) = [Submit p r]"
| "pipeline_part (Work a) = [a]"
| "pipeline_part (Finish_call i p outcome) = [Finish i p outcome]"
| "pipeline_part (StopStep a) = [a]"
| "pipeline_part (Return m r) = [StopReturn m]"
| "pipeline_part _ = []"

fun monitor_part :: "run_action \<Rightarrow> monitor_event list" where
  "monitor_part (ObservePacket p) = [Arrival p]"
| "monitor_part (ObserveDrop p) = [Problem p QueueDropped]"
| "monitor_part (ObserveReject i p) = [Problem p PayloadRejected]"
| "monitor_part _ = []"

fun observed_by :: "run_action \<Rightarrow> received_packet list" where
  "observed_by (ObservePacket p) = [p]" | "observed_by _ = []"

fun submitted_by :: "run_action \<Rightarrow> received_packet list" where
  "submitted_by (SubmitPacket p r) = [p]" | "submitted_by _ = []"

fun refused_by :: "run_action \<Rightarrow> received_packet list" where
  "refused_by (SubmitPacket p QueueFull) = [p]" | "refused_by _ = []"

fun dropped_by :: "run_action \<Rightarrow> received_packet list" where
  "dropped_by (ObserveDrop p) = [p]" | "dropped_by _ = []"

fun called_by :: "run_action \<Rightarrow> received_packet list" where
  "called_by (Process i p) = [p]" | "called_by _ = []"

fun rejected_by :: "run_action \<Rightarrow> received_packet list" where
  "rejected_by (ObserveReject i p) = [p]" | "rejected_by _ = []"

definition pipeline_trace where "pipeline_trace as = concat (map pipeline_part as)"
definition monitor_events where "monitor_events as = concat (map monitor_part as)"
definition observed where "observed as = concat (map observed_by as)"
definition submitted where "submitted as = concat (map submitted_by as)"
definition refused where "refused as = concat (map refused_by as)"
definition dropped where "dropped as = concat (map dropped_by as)"
definition called where "called as = concat (map called_by as)"
definition rejected where "rejected as = concat (map rejected_by as)"

lemmas run_traces = pipeline_trace_def monitor_events_def observed_def submitted_def refused_def
  dropped_def called_def rejected_def

lemma run_traces_snoc [simp]:
  "pipeline_trace (as @ [a]) = pipeline_trace as @ pipeline_part a"
  "monitor_events (as @ [a]) = monitor_events as @ monitor_part a"
  "observed (as @ [a]) = observed as @ observed_by a" "submitted (as @ [a]) = submitted as @ submitted_by a"
  "refused (as @ [a]) = refused as @ refused_by a" "dropped (as @ [a]) = dropped as @ dropped_by a"
  "called (as @ [a]) = called as @ called_by a" "rejected (as @ [a]) = rejected as @ rejected_by a"
  by (simp_all add: run_traces)

lemma run_traces_Nil [simp]:
  "pipeline_trace [] = []" "monitor_events [] = []" "observed [] = []" "submitted [] = []" "refused [] = []"
  "dropped [] = []" "called [] = []" "rejected [] = []"
  by (simp_all add: run_traces)

section \<open>The pipeline and the monitor of a run\<close>

lemma pipeline_part_run:
  "runtime_step os s a t \<Longrightarrow> pipeline_run (run_pipeline s) (pipeline_part a) (run_pipeline t)"
  by (induction rule: runtime_step.induct) (auto intro: run_one)

lemma pipeline_trace_run:
  "runtime_run os s as t \<Longrightarrow> pipeline_run (run_pipeline s) (pipeline_trace as) (run_pipeline t)"
proof (induction rule: run.induct)
  case (run_more s as t a u)
  then show ?case using run_append [OF run_more.IH pipeline_part_run [OF run_more.hyps(2)]] by simp
qed simp

lemma monitor_run_snoc: "fst (monitor_run mon (evs @ [ev])) = fst (monitor_step (fst (monitor_run mon evs)) ev)"
  unfolding monitor_run_def by (induction evs arbitrary: mon) (simp_all add: case_prod_beta)

lemma monitor_of_run:
  "runtime_run os s as t \<Longrightarrow> run_monitor t = fst (monitor_run (run_monitor s) (monitor_events as))"
proof (induction rule: run.induct)
  case (run_start s)
  then show ?case by (simp add: monitor_run_def)
next
  case (run_more s as t a u)
  from run_more.hyps(2) run_more.IH show ?case
    by (induction rule: runtime_step.induct) (auto simp: monitor_run_snoc case_prod_beta)
qed

lemma config_of_run: "runtime_run os s as t \<Longrightarrow> run_config t = run_config s"
  by (erule run_invariant [where P = "\<lambda>t. run_config t = run_config s"]) (auto elim: runtime_step.cases)


section \<open>The main thread\<close>

fun pending_submit :: "main_state \<Rightarrow> received_packet list" where
  "pending_submit (Submitting p ps) = [p]" | "pending_submit _ = []"

fun pending_drop :: "main_state \<Rightarrow> received_packet list" where
  "pending_drop (Dropping p ps) = [p]" | "pending_drop _ = []"

fun stopping :: "main_state \<Rightarrow> bool" where
  "stopping (Stopping now) = True" | "stopping (Unwinding e) = True" | "stopping (Finished r) = True"
| "stopping _ = False"

text \<open>The packets on their way through the main thread, its counter, and that no submission happens
  after the pipeline was asked to stop.\<close>

definition main_ok :: "run_action list \<Rightarrow> ('w, 'u) run_state \<Rightarrow> bool" where
  "main_ok as s \<longleftrightarrow>
     observed as = submitted as @ pending_submit (run_main s)
     \<and> refused as = dropped as @ pending_drop (run_main s)
     \<and> length (pending_drop (run_main s)) \<le> length (submitted as)
     \<and> run_received s = of_nat (length (submitted as) - length (pending_drop (run_main s)))
     \<and> (\<not> stopping (run_main s) \<longrightarrow> \<not> wp_stop_requested (run_pipeline s))
     \<and> submit_count Stopped (pipeline_trace as) = 0
     \<and> submit_count QueueFull (pipeline_trace as) = length (refused as)
     \<and> length (accepted (pipeline_trace as)) + length (refused as) = length (submitted as)"

lemma submit_count_append:
  "submit_count r (as @ bs) = submit_count r as + submit_count r bs"
  "accepted (as @ bs) = accepted as @ accepted bs" "finished (as @ bs) = finished as @ finished bs"
  by (simp_all add: trace_defs)

lemma submit_count_one [simp]:
  "submit_count r [a] = (if \<exists>p. a = Submit p r then 1 else 0)" "submit_count r [] = 0"
  "accepted [a] = accepted_by a" "accepted [] = []" "finished [a] = finished_by a" "finished [] = []"
  by (simp_all add: trace_defs)

lemma worker_action_quiet:
  "worker_action a \<Longrightarrow> submit_count r [a] = 0 \<and> accepted_by a = [] \<and> finished_by a = []"
  by (cases a) auto

lemma stop_requested_unchanged:
  "pipeline_step s a t \<Longrightarrow> a \<noteq> RequestStop \<Longrightarrow> wp_stop_requested t = wp_stop_requested s"
  by (induction rule: pipeline_step.induct)
    (auto simp: try_submit_def notify_one_def worker_check_def worker_finish_def
      notify_all_def Let_def split: if_splits list.splits option.splits)

lemma submit_outcome:
  "pipeline_step s (Submit p r) t \<Longrightarrow> pipeline_ok s \<Longrightarrow> \<not> wp_stop_requested s \<Longrightarrow> r = Accepted \<or> r = QueueFull"
  by (erule pipeline_step.cases) (auto simp: try_submit_def pipeline_ok_def Let_def split: if_splits)

lemma main_ok_step:
  assumes "runtime_step os s a t" "main_ok as s" "pipeline_ok (run_pipeline s)"
  shows "main_ok (as @ [a]) t"
  using assms
proof (induction rule: runtime_step.induct)
  case (ask_loop s answer)
  then show ?case by (auto simp: main_ok_def after_question_def split: sum.splits)
next
  case (poll s res receiver machine)
  then show ?case by (auto simp: main_ok_def split: sum.splits)
next
  case (ask_packet s p ps answer)
  then show ?case by (auto simp: main_ok_def after_question_def split: sum.splits)
next
  case (submit s p ps r t)
  have "r = Accepted \<or> r = QueueFull"
    by (rule submit_outcome [OF submit(2)]) (use submit in \<open>auto simp: main_ok_def\<close>)
  then show ?case
    using submit stop_requested_unchanged [OF submit(2)]
    by (auto simp: main_ok_def submit_count_append)
next
  case (observe_drop s p ps)
  then show ?case by (auto simp: main_ok_def Suc_leI of_nat_diff)
next
  case (work a s t)
  then have "a \<noteq> RequestStop" by auto
  with work show ?case
    using stop_requested_unchanged [OF work(2)] worker_action_quiet [OF work(1)]
    by (auto simp: main_ok_def submit_count_append)
next
  case (finish s i p outcome t)
  then show ?case
    using stop_requested_unchanged [OF finish(1)] by (auto simp: main_ok_def submit_count_append)
next
  case (stop_step s a t)
  then show ?case by (auto simp: main_ok_def submit_count_append)
qed (auto simp: main_ok_def submit_count_append)


section \<open>The workers' calls\<close>

text \<open>The packets of workers whose call has come as far as \<open>P\<close>.\<close>

definition flight :: "(call_state \<Rightarrow> bool) \<Rightarrow> worker_state list \<Rightarrow> call_state list \<Rightarrow> received_packet list" where
  "flight P ws cs = concat (map2 (\<lambda>w c. if P c then running_packet w else []) ws cs)"

lemma flight_update:
  assumes "i < length ws" "length cs = length ws"
  shows "mset (flight P (ws[i := w]) (cs[i := c])) + mset (if P (cs ! i) then running_packet (ws ! i) else [])
    = mset (flight P ws cs) + mset (if P c then running_packet w else [])"
  using assms
proof (induction ws arbitrary: i cs)
  case (Cons x ws)
  then obtain y ys where cs: "cs = y # ys" by (cases cs) auto
  show ?case using Cons.prems Cons.IH [of "i - 1" ys] unfolding cs
    by (cases i) (auto simp: flight_def ac_simps)
qed simp

lemma flight_update_call:
  assumes "i < length ws" "length cs = length ws" "ws ! i = Running p"
  shows "mset (flight P ws (cs[i := c])) + mset (if P (cs ! i) then [p] else [])
    = mset (flight P ws cs) + mset (if P c then [p] else [])"
proof -
  have "ws[i := Running p] = ws" using list_update_id [of ws i] assms(3) by simp
  then show ?thesis using flight_update [OF assms(1,2), of P "Running p" c] assms(3)
    by (cases "P (cs ! i)"; cases "P c") simp_all
qed

lemma flight_cong:
  assumes "length ws' = length ws" "length cs = length ws" "\<not> P NotCalled"
    and "\<And>i. i < length ws \<Longrightarrow> cs ! i \<noteq> NotCalled \<Longrightarrow> ws' ! i = ws ! i"
  shows "flight P ws' cs = flight P ws cs"
proof -
  have "(if P (cs ! i) then running_packet (ws' ! i) else []) = (if P (cs ! i) then running_packet (ws ! i) else [])"
    if "i < length ws" for i
    using assms(3) assms(4) [OF that] by (cases "cs ! i = NotCalled") simp_all
  then have "map2 (\<lambda>w c. if P c then running_packet w else []) ws' cs
      = map2 (\<lambda>w c. if P c then running_packet w else []) ws cs"
    using assms(1,2) by (intro nth_equalityI) simp_all
  then show ?thesis by (simp add: flight_def)
qed

text \<open>Only the end of its own call changes a running worker.\<close>

lemma running_stays:
  assumes "pipeline_step s a t"
  shows "length (wp_workers t) = length (wp_workers s)"
    and "wp_workers s ! j = Running q \<Longrightarrow> \<forall>r. a \<noteq> Finish j q r \<Longrightarrow> j < length (wp_workers s) \<Longrightarrow>
      wp_workers t ! j = Running q"
proof -
  show "length (wp_workers t) = length (wp_workers s)"
    using assms by (induction rule: pipeline_step.induct)
      (auto simp: try_submit_def notify_one_def worker_check_def worker_finish_def request_stop_def
        notify_all_def Let_def split: if_splits list.splits option.splits)
  show "wp_workers s ! j = Running q \<Longrightarrow> \<forall>r. a \<noteq> Finish j q r \<Longrightarrow> j < length (wp_workers s) \<Longrightarrow>
      wp_workers t ! j = Running q"
    using assms by (induction rule: pipeline_step.induct)
      (auto simp: try_submit_def notify_one_def worker_check_def worker_finish_def request_stop_def
        notify_all_def nth_list_update Let_def split: if_splits list.splits option.splits)
qed

abbreviation calling :: "(call_state \<Rightarrow> bool) \<Rightarrow> ('w, 'u) run_state \<Rightarrow> received_packet list" where
  "calling P s \<equiv> flight P (wp_workers (run_pipeline s)) (run_calls s)"

text \<open>A call under way belongs to a running worker; every packet the processor was called with is
  finished or in such a call; every packet without a sample was reported, or is about to be.\<close>

definition calls_ok :: "run_action list \<Rightarrow> ('w, 'u) run_state \<Rightarrow> bool" where
  "calls_ok as s \<longleftrightarrow> length (run_calls s) = length (wp_workers (run_pipeline s))
     \<and> (\<forall>i < length (run_calls s). run_calls s ! i \<noteq> NotCalled \<longrightarrow> (\<exists>p. wp_workers (run_pipeline s) ! i = Running p))
     \<and> mset (called as) = mset (finished (pipeline_trace as)) + mset (calling (\<lambda>c. c \<noteq> NotCalled) s)
     \<and> mset (filter (\<lambda>p. sample_of p = None) (called as)) = mset (rejected as) + mset (calling (\<lambda>c. c = Rejecting) s)"

lemma calls_ok_pipeline:
  assumes "calls_ok as s" "pipeline_step (run_pipeline s) a t" "\<And>i p r. a \<noteq> Finish i p r"
  shows "length (run_calls s) = length (wp_workers t)"
    and "i < length (run_calls s) \<Longrightarrow> run_calls s ! i \<noteq> NotCalled \<Longrightarrow> \<exists>p. wp_workers t ! i = Running p"
    and "\<not> P NotCalled \<Longrightarrow> flight P (wp_workers t) (run_calls s) = calling P s"
proof -
  note l = running_stays(1) [OF assms(2)]
  have len: "length (run_calls s) = length (wp_workers (run_pipeline s))" using assms(1) by (simp add: calls_ok_def)
  then show "length (run_calls s) = length (wp_workers t)" using l by simp
  have same: "wp_workers t ! i = wp_workers (run_pipeline s) ! i" "\<exists>p. wp_workers t ! i = Running p"
    if i: "i < length (run_calls s)" "run_calls s ! i \<noteq> NotCalled" for i
  proof -
    obtain p where "wp_workers (run_pipeline s) ! i = Running p" using assms(1) i by (auto simp: calls_ok_def)
    moreover from this have "wp_workers t ! i = Running p"
      using running_stays(2) [OF assms(2)] assms(3) i len by metis
    ultimately show "wp_workers t ! i = wp_workers (run_pipeline s) ! i" "\<exists>p. wp_workers t ! i = Running p"
      by simp_all
  qed
  then show "i < length (run_calls s) \<Longrightarrow> run_calls s ! i \<noteq> NotCalled \<Longrightarrow> \<exists>p. wp_workers t ! i = Running p"
    by blast
  show "\<not> P NotCalled \<Longrightarrow> flight P (wp_workers t) (run_calls s) = calling P s"
    by (rule flight_cong) (use l len same in auto)
qed


lemma calls_ok_quiet:
  assumes "calls_ok as s" "pipeline_run (run_pipeline s) (pipeline_part a) (run_pipeline t)"
    and "length (pipeline_part a) \<le> 1" "\<forall>x \<in> set (pipeline_part a). \<forall>i p r. x \<noteq> Finish i p r"
    and "run_calls t = run_calls s" "called_by a = []" "rejected_by a = []"
  shows "calls_ok (as @ [a]) t"
proof (cases "pipeline_part a")
  case Nil
  then have "run_pipeline t = run_pipeline s" using assms(2) by simp
  then show ?thesis using assms Nil by (simp add: calls_ok_def del: mset_filter)
next
  case (Cons x xs)
  then have x: "pipeline_part a = [x]" "\<And>i p r. x \<noteq> Finish i p r" using assms(3,4) by auto
  then have step: "pipeline_step (run_pipeline s) x (run_pipeline t)"
    using assms(2) run_snocE [of pipeline_step "run_pipeline s" "[]" x "run_pipeline t"] by auto
  have f: "finished_by x = []" using x(2) by (cases x) auto
  note c = calls_ok_pipeline [OF assms(1) step x(2)]
  show ?thesis
    using assms(1) c(1,2) f unfolding calls_ok_def
    by (simp add: x(1) assms(5-7) submit_count_append c(3) del: mset_filter)
qed

lemma call_process_cases:
  "case call_process sp p of (sp', c) \<Rightarrow> c \<noteq> NotCalled \<and> (c = Rejecting \<longleftrightarrow> sample_of p = None)"
proof (cases "sample_of p")
  case None
  then show ?thesis using process_rejects [OF None, of sp] by (auto simp: call_process_def)
next
  case (Some x)
  then show ?thesis by (simp add: call_process_def process_accepts [OF Some] split: handler_result.split)
qed

lemma calls_ok_step:
  assumes "runtime_step os s a t" "calls_ok as s"
  shows "calls_ok (as @ [a]) t"
  using assms
proof (induction rule: runtime_step.induct)
  case (process s i p sp c)
  let ?ws = "wp_workers (run_pipeline s)"
  have i: "i < length ?ws" "length (run_calls s) = length ?ws" "?ws ! i = Running p" "run_calls s ! i = NotCalled"
    using process by (auto simp: calls_ok_def)
  have c: "c \<noteq> NotCalled" "c = Rejecting \<longleftrightarrow> sample_of p = None"
    using call_process_cases [where sp = "run_processor s" and p = p] process(4) by simp_all
  show ?case
    using process(5) i c flight_update_call [OF i(1-3), of "\<lambda>c. c \<noteq> NotCalled" c]
      flight_update_call [OF i(1-3), of "\<lambda>c. c = Rejecting" c]
    by (auto simp: calls_ok_def nth_list_update simp del: mset_filter)
next
  case (observe_reject s i p)
  let ?ws = "wp_workers (run_pipeline s)"
  have i: "i < length ?ws" "length (run_calls s) = length ?ws" "?ws ! i = Running p"
    using observe_reject by (auto simp: calls_ok_def)
  show ?case
    using observe_reject(3,4) i flight_update_call [OF i, of "\<lambda>c. c \<noteq> NotCalled" "Called Returned"]
      flight_update_call [OF i, of "\<lambda>c. c = Rejecting" "Called Returned"]
    by (auto simp: calls_ok_def nth_list_update simp del: mset_filter)
next
  case (finish s i p outcome t)
  let ?ws = "wp_workers (run_pipeline s)"
  have i: "i < length ?ws" "length (run_calls s) = length ?ws" "?ws ! i = Running p"
    and t: "wp_workers t = ?ws[i := Ready]"
    using finish(1,4) by (auto simp: calls_ok_def worker_finish_def Let_def elim!: pipeline_step.cases)
  show ?case
    using finish(3,4) i flight_update [OF i(1,2), of "\<lambda>c. c \<noteq> NotCalled" Ready NotCalled]
      flight_update [OF i(1,2), of "\<lambda>c. c = Rejecting" Ready NotCalled]
    by (auto simp: calls_ok_def nth_list_update t submit_count_append simp del: mset_filter)
next
  case (submit s p ps r t)
  then show ?case by (intro calls_ok_quiet [where s = s]) (auto intro: run_one)
next
  case (work a s t)
  then show ?case by (intro calls_ok_quiet [where s = s]) (auto intro: run_one)
next
  case (stop_step s a t)
  then show ?case by (intro calls_ok_quiet [where s = s]) (auto intro: run_one)
qed (auto intro!: calls_ok_quiet intro: run_one)


section \<open>The sample processor\<close>

lemma call_process_eq: "\<exists>r. process sp p = Inr (fst (call_process sp p), r)"
proof (cases "sample_of p")
  case None
  then show ?thesis using process_rejects [OF None, of sp] by (auto simp: call_process_def)
next
  case (Some x)
  then show ?thesis by (simp add: call_process_def process_accepts [OF Some] split: handler_result.split)
qed

lemma processor_of_run:
  "runtime_run os s as t \<Longrightarrow> \<exists>rs. process_all (run_processor s) (called as) = Inr (run_processor t, rs)"
proof (induction rule: run.induct)
  case (run_start s)
  then show ?case by simp
next
  case (run_more s as t a u)
  from run_more.hyps(2) run_more.IH show ?case
  proof (induction rule: runtime_step.induct)
    case (process u i p sp c)
    obtain r where "process (run_processor u) p = Inr (sp, r)"
      using call_process_eq [of "run_processor u" p] process(4) by auto
    then show ?case using process(5) by (auto simp: process_all_snoc)
  qed auto
qed

section \<open>Whole runs\<close>

definition run_ok :: "run_action list \<Rightarrow> ('w, 'u) run_state \<Rightarrow> bool" where
  "run_ok as s \<longleftrightarrow> pipeline_ok (run_pipeline s) \<and> accounted (pipeline_trace as) (run_pipeline s)
     \<and> main_ok as s \<and> calls_ok as s"

lemma start_run_InrD:
  assumes "start_run rt b h u m = Inr s"
  obtains handler mon where "b" "h = Some handler" "new_monitor (rc_health (rt_config rt)) = Inr mon"
    "run_monitor s = mon" "run_config s = rt_config rt" "run_receiver s = rt_receiver rt" "run_machine s = m"
    "run_processor s = \<lparr>spr_handler = handler, spr_metrics = zero_processor_metrics, spr_user = u\<rparr>"
    "new_pipeline (rc_pipeline (rt_config rt)) True = Inr (run_pipeline s)"
    "run_calls s = replicate (wc_worker_count (rc_pipeline (rt_config rt))) NotCalled"
    "run_received s = 0" "run_main s = AtLoop"
  using assms
  by (cases h) (auto simp: start_run_def cbind_eq_Inr_iff new_processor_def)

lemma new_pipeline_InrD:
  "new_pipeline config b = Inr s \<Longrightarrow> wp_workers s = replicate (wc_worker_count config) Ready
     \<and> \<not> wp_stop_requested s \<and> wp_queue s = [] \<and> wp_pending_notify s = 0 \<and> wp_stopper s = NoStop"
  by (auto simp: new_pipeline_def)

lemma flight_none: "length cs = length ws \<Longrightarrow> \<forall>c \<in> set cs. \<not> P c \<Longrightarrow> flight P ws cs = []"
  by (induction ws cs rule: list_induct2') (auto simp: flight_def)

lemma run_ok_start:
  assumes "start_run rt b h u m = Inr s"
  shows "run_ok [] s"
proof (rule start_run_InrD [OF assms])
  assume *: "new_pipeline (rc_pipeline (rt_config rt)) True = Inr (run_pipeline s)"
    "run_calls s = replicate (wc_worker_count (rc_pipeline (rt_config rt))) NotCalled"
    "run_received s = 0" "run_main s = AtLoop"
  then have "wp_workers (run_pipeline s) = replicate (wc_worker_count (rc_pipeline (rt_config rt))) Ready"
    "\<not> wp_stop_requested (run_pipeline s)" by (auto dest: new_pipeline_InrD)
  then show ?thesis
    using * pipeline_ok_start [OF *(1)] accounted_start [OF *(1)]
    by (auto simp: run_ok_def main_ok_def calls_ok_def flight_none)
qed

lemma run_ok_run:
  assumes "runtime_run os s as t" "run_ok [] s"
  shows "run_ok as t"
proof -
  have "main_ok as t \<and> calls_ok as t \<and> pipeline_ok (run_pipeline t)"
    using assms
  proof (induction rule: run.induct)
    case (run_more s as t a u)
    then have "pipeline_ok (run_pipeline u)"
      using pipeline_ok_run [OF pipeline_part_run [OF run_more.hyps(2)]] by simp
    then show ?case using run_more main_ok_step calls_ok_step by blast
  qed (simp add: run_ok_def)
  moreover have "accounted (pipeline_trace as) (run_pipeline t)"
    using accounted_run [OF pipeline_trace_run [OF assms(1)]] assms(2) by (simp add: run_ok_def)
  ultimately show ?thesis by (simp add: run_ok_def)
qed


lemma observe_packet_counts:
  "sm_packets_observed (trk_metrics (mon_tracker (fst (observe_packet mon p)))) =
     sm_packets_observed (trk_metrics (mon_tracker mon)) + 1"
proof -
  have "mon_tracker (fst (observe_packet mon p)) = fst (observe (mon_tracker mon) p)"
    by (simp add: observe_packet_def Let_def case_prod_beta)
  then show ?thesis
    by (simp add: observe_metrics tally_def split: sequence_status.split)
qed

lemma packets_observed_run:
  assumes "runtime_run os s as t"
  shows "sm_packets_observed (trk_metrics (mon_tracker (run_monitor t))) =
    sm_packets_observed (trk_metrics (mon_tracker (run_monitor s))) + of_nat (length (observed as))"
  using assms
proof (induction rule: run.induct)
  case (run_more s as t a u)
  from run_more.hyps(2) run_more.IH show ?case
    by (induction rule: runtime_step.induct) (auto simp: observe_packet_counts)
qed simp

text \<open>A run that has finished has joined its workers; only stray notifications are left to happen.\<close>

definition finished_ok :: "('w, 'u) run_state \<Rightarrow> bool" where
  "finished_ok s \<longleftrightarrow> (\<forall>r. run_main s = Finished r \<longrightarrow> all_exited (run_pipeline s)
     \<and> (\<forall>summary. r = Inr summary \<longrightarrow> (\<exists>now. summary = make_summary s (wp_metrics (run_pipeline s)) now)))"

lemma exited_step:
  assumes "pipeline_step s a t" "all_exited s" "worker_action a"
  shows "all_exited t" "wp_metrics t = wp_metrics s"
  using assms by (induction rule: pipeline_step.induct)
    (auto simp: all_exited_def notify_one_def Let_def in_set_conv_nth)

lemma make_summary_pipeline [simp]: "make_summary (s\<lparr>run_pipeline := t\<rparr>) = make_summary s"
  "make_summary (s\<lparr>run_main := x\<rparr>) = make_summary s"
  by (rule ext, rule ext, simp add: make_summary_def)+

lemma finished_ok_step: "runtime_step os s a t \<Longrightarrow> finished_ok s \<Longrightarrow> finished_ok t"
proof (induction rule: runtime_step.induct)
  case (ask_loop s answer)
  then show ?case by (auto simp: finished_ok_def after_question_def split: sum.splits if_splits)
next
  case (poll s res receiver machine)
  then show ?case by (auto simp: finished_ok_def split: sum.splits)
next
  case (ask_packet s p ps answer)
  then show ?case by (auto simp: finished_ok_def after_question_def split: sum.splits if_splits)
next
  case (work a s t)
  then show ?case using exited_step [OF work(2) _ work(1)] by (auto simp: finished_ok_def)
next
  case (process s i p sp c)
  then show ?case by (force simp: finished_ok_def all_exited_def in_set_conv_nth)
next
  case (observe_reject s i p)
  then show ?case by (force simp: finished_ok_def all_exited_def in_set_conv_nth)
next
  case (finish s i p outcome t)
  from finish(1) have "worker_at (run_pipeline s) i (Running p)" by (auto elim: pipeline_step.cases)
  then show ?case using finish by (force simp: finished_ok_def all_exited_def in_set_conv_nth)
next
  case (return_summary s now m t)
  then show ?case by (auto simp: finished_ok_def all_exited_def elim!: pipeline_step.cases)
next
  case (rethrow s e m t)
  then show ?case by (auto simp: finished_ok_def all_exited_def elim!: pipeline_step.cases)
qed (auto simp: finished_ok_def)

lemma finished_ok_run: "runtime_run os s as t \<Longrightarrow> finished_ok s \<Longrightarrow> finished_ok t"
  by (erule run_invariant [where P = finished_ok]) (auto intro: finished_ok_step)


lemma new_monitor_counts: "new_monitor c = Inr mon \<Longrightarrow> trk_metrics (mon_tracker mon) = zero_stream_metrics"
  by (auto simp: new_monitor_def new_tracker_def cbind_eq_Inr_iff)

text \<open>What holds once the workers have been joined.\<close>

lemma joined_facts:
  assumes ok: "run_ok as s" and ex: "all_exited (run_pipeline s)"
  shows "mset (called as) = mset (accepted (pipeline_trace as))"
    and "mset (rejected as) = mset (filter (\<lambda>p. sample_of p = None) (accepted (pipeline_trace as)))"
    and "length (accepted (pipeline_trace as)) = outcome_count Returned (pipeline_trace as) + outcome_count Threw (pipeline_trace as)"
    and "length (called as) = length (accepted (pipeline_trace as))"
proof -
  let ?ws = "wp_workers (run_pipeline s)"
  have w: "w \<in> set ?ws \<Longrightarrow> w = Exited" for w using ex by (auto simp: all_exited_def)
  have "?ws \<noteq> []" using ok by (auto simp: run_ok_def pipeline_ok_def)
  then have "Exited \<in> set ?ws" using w by (metis list.set_intros(1) neq_Nil_conv)
  then have q: "wp_queue (run_pipeline s) = []" using ok by (auto simp: run_ok_def pipeline_ok_def)
  have f: "in_flight (run_pipeline s) = []" using ex by (auto simp: in_flight_def all_exited_def)
  have len: "length (run_calls s) = length ?ws" using ok by (simp add: run_ok_def calls_ok_def)
  have "\<forall>c \<in> set (run_calls s). c = NotCalled"
    using ok w len by (fastforce simp: run_ok_def calls_ok_def in_set_conv_nth)
  then have c: "calling P s = []" if "\<not> P NotCalled" for P
    using flight_none [OF len] that by metis
  have fin: "mset (finished (pipeline_trace as)) = mset (accepted (pipeline_trace as))"
    using ok q f by (simp add: run_ok_def accounted_def)
  then show called: "mset (called as) = mset (accepted (pipeline_trace as))"
    using ok c by (simp add: run_ok_def calls_ok_def)
  then show "length (called as) = length (accepted (pipeline_trace as))" by (metis size_mset)
  have "mset (filter (\<lambda>p. sample_of p = None) (called as)) = mset (rejected as)"
    using ok c by (simp add: run_ok_def calls_ok_def del: mset_filter)
  then show "mset (rejected as) = mset (filter (\<lambda>p. sample_of p = None) (accepted (pipeline_trace as)))"
    using called by simp
  show "length (accepted (pipeline_trace as)) = outcome_count Returned (pipeline_trace as) + outcome_count Threw (pipeline_trace as)"
    using ok fin by (metis run_ok_def accounted_def size_mset)
qed

lemma reached:
  assumes "start_run rt b h u m0 = Inr s0" and "runtime_run os s0 as s"
  shows "run_ok as s" "finished_ok s"
proof -
  show "run_ok as s" by (rule run_ok_run [OF assms(2) run_ok_start [OF assms(1)]])
  have "finished_ok s0" by (rule start_run_InrD [OF assms(1)]) (simp add: finished_ok_def)
  then show "finished_ok s" by (rule finished_ok_run [OF assms(2)])
qed

lemma processor_counts:
  assumes "start_run rt b (Some h) u m0 = Inr s0" and "runtime_run os s0 as s"
  shows "run_processor s = \<lparr>spr_handler = h,
      spr_metrics = add_samples zero_processor_metrics (length (called as)) (samples_of (called as)),
      spr_user = foldl (\<lambda>u x. fst (h u x)) u (samples_of (called as))\<rparr>"
proof -
  have p: "run_processor s0 = \<lparr>spr_handler = h, spr_metrics = zero_processor_metrics, spr_user = u\<rparr>"
    by (rule start_run_InrD [OF assms(1)]) simp
  obtain rs where "process_all (run_processor s0) (called as) = Inr (run_processor s, rs)"
    using processor_of_run [OF assms(2)] by blast
  then show ?thesis using process_all_accounts [of "run_processor s0" "called as"] p by auto
qed

lemma of_type_sum_u64: "of_nat (length ss) = (of_nat (of_type kImu ss) + of_nat (of_type kGnss ss)
    + of_nat (of_type kCameraMeta ss) :: u64)"
  unfolding of_type_sum [of ss, symmetric] by simp

section \<open>The packet limit\<close>

definition stop_answered :: "run_action list \<Rightarrow> bool" where
  "stop_answered as \<longleftrightarrow> AskLoop (Inr True) \<in> set as"

fun left_normally :: "main_state \<Rightarrow> bool" where
  "left_normally Leaving = True" | "left_normally (Stopping now) = True"
| "left_normally (Finished (Inr r)) = True" | "left_normally _ = False"

definition limit_ok :: "u64 \<Rightarrow> run_action list \<Rightarrow> ('w, 'u) run_state \<Rightarrow> bool" where
  "limit_ok n as s \<longleftrightarrow> length (observed as) \<le> unat n
     \<and> (\<forall>p ps. run_main s = Observing p ps \<longrightarrow> length (observed as) < unat n)
     \<and> (left_normally (run_main s) \<longrightarrow> stop_answered as \<or> n \<le> run_received s)"

lemma stop_answered_snoc [simp]: "stop_answered (as @ [a]) \<longleftrightarrow> stop_answered as \<or> a = AskLoop (Inr True)"
  by (auto simp: stop_answered_def)

lemma limit_ok_step:
  assumes "runtime_step os s a t" "limit_ok n as s" "main_ok as s" "rc_packet_count (run_config s) = Some n"
  shows "limit_ok n (as @ [a]) t"
  using assms
proof (induction rule: runtime_step.induct)
  case (ask_loop s answer)
  then show ?case
    by (cases answer) (auto simp: limit_ok_def after_question_def limit_reached_def)
next
  case (poll s res receiver machine)
  then show ?case by (auto simp: limit_ok_def split: sum.splits)
next
  case (ask_packet s p ps answer)
  have "length (observed as) < unat n" if "\<not> limit_reached s"
  proof -
    have r: "run_received s = of_nat (length (observed as))"
      using ask_packet(1,3) by (simp add: main_ok_def)
    moreover have "length (observed as) < 2 ^ 64"
      using ask_packet(2) unat_u64_bound [of n] by (simp add: limit_ok_def)
    ultimately have "unat (run_received s) = length (observed as)" by (simp add: unat_of_nat)
    then show ?thesis
      using that ask_packet(4) by (simp add: limit_reached_def not_le word_less_nat_alt)
  qed
  then show ?case using ask_packet
    by (auto simp: limit_ok_def after_question_def split: sum.splits)
qed (auto simp: limit_ok_def)

lemma limit_ok_run:
  assumes "runtime_run os s0 as s" "run_ok [] s0" "run_main s0 = AtLoop" "rc_packet_count (run_config s0) = Some n"
  shows "limit_ok n as s"
  using assms
proof (induction rule: run.induct)
  case (run_more s as t a u)
  have "main_ok as t" using run_ok_run [OF run_more.hyps(1)] run_more.prems by (simp add: run_ok_def)
  moreover have "rc_packet_count (run_config t) = Some n"
    using config_of_run [OF run_more.hyps(1)] run_more.prems by simp
  ultimately show ?case using limit_ok_step [OF run_more.hyps(2)] run_more by blast
qed (simp add: limit_ok_def)

section \<open>Where an exception comes from\<close>

definition threw :: "cpp_exception \<Rightarrow> run_action list \<Rightarrow> bool" where
  "threw e as \<longleftrightarrow> Poll (Inl e) \<in> set as \<or> AskLoop (Inl e) \<in> set as \<or> AskPacket (Inl e) \<in> set as"

lemma threw_run:
  "runtime_run os s0 as s \<Longrightarrow> run_main s0 = AtLoop \<Longrightarrow>
     (run_main s = Unwinding e \<or> run_main s = Finished (Inl e) \<longrightarrow> threw e as)"
proof (induction rule: run.induct)
  case (run_more s as t a u)
  from run_more.hyps(2) run_more.IH [OF run_more.prems] show ?case
    by (induction rule: runtime_step.induct)
      (auto simp: threw_def after_question_def split: sum.splits if_splits)
qed simp

text \<open>Conversely, once a call has thrown, the main thread only unwinds with that exception.\<close>

lemma threw_unwinds:
  "runtime_run os s0 as s \<Longrightarrow> run_main s0 = AtLoop \<Longrightarrow> threw e as \<Longrightarrow>
     run_main s = Unwinding e \<or> run_main s = Finished (Inl e)"
proof (induction rule: run.induct)
  case (run_start s)
  then show ?case by (simp add: threw_def)
next
  case (run_more s as t a u)
  show ?case
  proof (cases "threw e as")
    case True
    from run_more.hyps(2) run_more.IH [OF run_more.prems(1) True] show ?thesis
      by (induction rule: runtime_step.induct) auto
  next
    case False
    then have "a = Poll (Inl e) \<or> a = AskLoop (Inl e) \<or> a = AskPacket (Inl e)"
      using run_more.prems(2) by (auto simp: threw_def)
    with run_more.hyps(2) show ?thesis
      by (cases rule: runtime_step.cases) (auto simp: after_question_def)
  qed
qed

section \<open>Shutting down\<close>
















lemma stopping_progress:
  assumes ok: "run_ok as s" and m: "(\<exists>now. run_main s = Stopping now) \<or> (\<exists>e. run_main s = Unwinding e)"
  shows "\<exists>a t. runtime_step os s a t"
proof (cases "wp_stopper (run_pipeline s) = NoStop")
  case True
  then show ?thesis using runtime_step.stop_step [OF m _ pipeline_step.request] by blast
next
  case False
  have calls: "length (run_calls s) = length (wp_workers (run_pipeline s))"
    using ok by (simp add: run_ok_def calls_ok_def)
  obtain a t where step: "pipeline_step (run_pipeline s) a t" "owed a"
    using progress [of "run_pipeline s"] False ok by (auto simp: run_ok_def)
  show ?thesis
  proof (cases a)
    case (Finish i p outcome)
    then have i: "worker_at (run_pipeline s) i (Running p)" using step(1) by (auto elim: pipeline_step.cases)
    then have l: "i < length (run_calls s)" using calls by simp
    show ?thesis
    proof (cases "run_calls s ! i")
      case NotCalled
      obtain sp c where "call_process (run_processor s) p = (sp, c)" by (meson surj_pair)
      then show ?thesis using runtime_step.process [OF i l NotCalled] by blast
    next
      case Rejecting
      then show ?thesis using runtime_step.observe_reject [OF i l] by blast
    next
      case (Called r)
      then show ?thesis using runtime_step.finish [OF pipeline_step.finish [OF i] l] by blast
    qed
  next
    case (StopReturn x)
    then show ?thesis
      using step(1) m runtime_step.return_summary runtime_step.rethrow by blast
  next
    case NotifyAll
    then show ?thesis using step(1) runtime_step.stop_step [OF m] by blast
  next
    case (NotifyOne who)
    then show ?thesis using step(1) runtime_step.work [OF _ step(1)] worker_action.simps by blast
  next
    case (Check i r)
    then show ?thesis using step(1) runtime_step.work [OF _ step(1)] worker_action.simps by blast
  qed (use step(2) in \<open>auto simp: owed_def internal_def\<close>)
qed

lemma run_progress:
  assumes ok: "run_ok as s" and m: "\<And>r. run_main s \<noteq> Finished r"
  shows "\<exists>a t. runtime_step os s a t"
proof (cases "run_main s")
  case AtLoop
  then show ?thesis using runtime_step.ask_loop by blast
next
  case Polling
  obtain res receiver machine where
    "poll os (run_receiver s) (rc_poll_timeout (run_config s)) (run_machine s) = ((res, receiver), machine)"
    by (metis surj_pair)
  then show ?thesis using runtime_step.poll [OF Polling] by blast
next
  case (AtPacket ps)
  then show ?thesis using runtime_step.end_of_batch runtime_step.ask_packet by (cases ps) blast+
next
  case (Observing p ps)
  then show ?thesis using runtime_step.observe by blast
next
  case (Submitting p ps)
  obtain t r where "try_submit (run_pipeline s) p = (t, r)" by (meson surj_pair)
  then show ?thesis using runtime_step.submit [OF Submitting pipeline_step.submit] by blast
next
  case (Dropping p ps)
  then show ?thesis using runtime_step.observe_drop by blast
next
  case Leaving
  obtain now w where "lib_steady_now os (m_world (run_machine s)) = (now, w)" by (meson surj_pair)
  then show ?thesis using runtime_step.report_time [OF Leaving] by blast
qed (use stopping_progress [OF ok] m in blast)+

section \<open>A concrete run\<close>

text \<open>The steps as a function of the action.\<close>

fun exec_run_step :: "'w os \<Rightarrow> ('w, 'u) run_state \<Rightarrow> run_action \<Rightarrow> ('w, 'u) run_state option" where
  "exec_run_step os s (AskLoop answer) = (if run_main s = AtLoop
     then Some (s\<lparr>run_main := after_question s answer Leaving Polling\<rparr>) else None)"
| "exec_run_step os s (Poll res) = (case (run_main s,
     poll os (run_receiver s) (rc_poll_timeout (run_config s)) (run_machine s)) of
       (Polling, ((res', receiver), machine)) \<Rightarrow> (if res' = res
         then Some (s\<lparr>run_receiver := receiver, run_machine := machine,
           run_main := case res of Inl e \<Rightarrow> Unwinding e | Inr packets \<Rightarrow> AtPacket packets\<rparr>) else None)
     | _ \<Rightarrow> None)"
| "exec_run_step os s EndOfBatch = (if run_main s = AtPacket [] then Some (s\<lparr>run_main := AtLoop\<rparr>) else None)"
| "exec_run_step os s (AskPacket answer) = (case run_main s of
       AtPacket (p # ps) \<Rightarrow> Some (s\<lparr>run_main := after_question s answer AtLoop (Observing p ps)\<rparr>)
     | _ \<Rightarrow> None)"
| "exec_run_step os s (ObservePacket p) = (case run_main s of
       Observing q ps \<Rightarrow> (if q = p then Some (s\<lparr>run_monitor := fst (observe_packet (run_monitor s) p),
         run_main := Submitting p ps\<rparr>) else None)
     | _ \<Rightarrow> None)"
| "exec_run_step os s (SubmitPacket p r) = (case (run_main s, exec_step (run_pipeline s) (Submit p r)) of
       (Submitting q ps, Some t) \<Rightarrow> (if q = p then
           Some (if r = QueueFull then s\<lparr>run_pipeline := t, run_main := Dropping p ps\<rparr>
             else s\<lparr>run_pipeline := t, run_received := run_received s + 1, run_main := AtPacket ps\<rparr>) else None)
     | _ \<Rightarrow> None)"
| "exec_run_step os s (ObserveDrop p) = (case run_main s of
       Dropping q ps \<Rightarrow> (if q = p then Some (s\<lparr>run_monitor := observe_issue (run_monitor s) p QueueDropped,
         run_received := run_received s + 1, run_main := AtPacket ps\<rparr>) else None)
     | _ \<Rightarrow> None)"
| "exec_run_step os s (ReportTime now) = (case lib_steady_now os (m_world (run_machine s)) of
       (t, w) \<Rightarrow> (if run_main s = Leaving \<and> t = now then
         Some (s\<lparr>run_machine := (run_machine s)\<lparr>m_world := w\<rparr>, run_main := Stopping now\<rparr>) else None))"
| "exec_run_step os s (Work a) = (if worker_action a
     then map_option (\<lambda>t. s\<lparr>run_pipeline := t\<rparr>) (exec_step (run_pipeline s) a) else None)"
| "exec_run_step os s (Process i p) =
     (if worker_at (run_pipeline s) i (Running p) \<and> i < length (run_calls s) \<and> run_calls s ! i = NotCalled
      then (case call_process (run_processor s) p of (sp, c) \<Rightarrow>
        Some (s\<lparr>run_processor := sp, run_calls := (run_calls s)[i := c]\<rparr>)) else None)"
| "exec_run_step os s (ObserveReject i p) =
     (if worker_at (run_pipeline s) i (Running p) \<and> i < length (run_calls s) \<and> run_calls s ! i = Rejecting
      then Some (s\<lparr>run_monitor := observe_issue (run_monitor s) p PayloadRejected,
        run_calls := (run_calls s)[i := Called Returned]\<rparr>) else None)"
| "exec_run_step os s (Finish_call i p outcome) = (if i < length (run_calls s) \<and> run_calls s ! i = Called outcome
      then map_option (\<lambda>t. s\<lparr>run_pipeline := t, run_calls := (run_calls s)[i := NotCalled]\<rparr>)
        (exec_step (run_pipeline s) (Finish i p outcome)) else None)"
| "exec_run_step os s (StopStep a) = (if (case run_main s of Stopping _ \<Rightarrow> True | Unwinding _ \<Rightarrow> True | _ \<Rightarrow> False)
        \<and> (a = RequestStop \<or> a = NotifyAll)
      then map_option (\<lambda>t. s\<lparr>run_pipeline := t\<rparr>) (exec_step (run_pipeline s) a) else None)"
| "exec_run_step os s (Return m r) = (case (run_main s, exec_step (run_pipeline s) (StopReturn m)) of
       (Stopping now, Some t) \<Rightarrow> (if r = Inr (make_summary s m now)
         then Some (s\<lparr>run_pipeline := t, run_main := Finished r\<rparr>) else None)
     | (Unwinding e, Some t) \<Rightarrow> (if r = Inl e then Some (s\<lparr>run_pipeline := t, run_main := Finished r\<rparr>) else None)
     | _ \<Rightarrow> None)"

lemma exec_run_step_sound: "exec_run_step os s a = Some t \<Longrightarrow> runtime_step os s a t"
proof (cases a)
  case (SubmitPacket p r)
  then show "exec_run_step os s a = Some t \<Longrightarrow> runtime_step os s a t"
    using runtime_step.submit [of s p _ r _ os]
    by (auto simp: pipeline_step_iff split: main_state.splits option.splits if_splits simp del: exec_step.simps)
qed (auto split: main_state.splits list.splits option.splits if_splits prod.splits
    intro: runtime_step.intros simp: pipeline_step_iff simp del: exec_step.simps)

fun exec_run :: "'w os \<Rightarrow> ('w, 'u) run_state \<Rightarrow> run_action list \<Rightarrow> ('w, 'u) run_state option" where
  "exec_run os s [] = Some s"
| "exec_run os s (a # as) = (case exec_run_step os s a of None \<Rightarrow> None | Some t \<Rightarrow> exec_run os t as)"

lemma exec_run_sound: "exec_run os s as = Some t \<Longrightarrow> runtime_run os s as t"
proof (induction as arbitrary: s)
  case (Cons a as)
  then obtain u where "exec_run_step os s a = Some u" "exec_run os u as = Some t" by (auto split: option.splits)
  then have "runtime_run os s ([a] @ as) t"
    using Cons.IH exec_run_step_sound by (blast intro: run_append run_one)
  then show ?case by simp
qed simp


text \<open>One worker, one packet: a datagram whose payload is no IMU sample, a limit of one packet.\<close>

definition one_config :: runtime_config where
  "one_config = toy_runtime_config\<lparr>rc_packet_count := Some 1,
     rc_pipeline := \<lparr>wc_worker_count = 1, wc_queue_capacity = 1\<rparr>\<rparr>"

definition one_runtime :: runtime where
  "one_runtime = \<lparr>rt_config = one_config, rt_receiver = toy_receiver\<rparr>"

definition one_start :: "(toy_world, nat) run_state" where
  "one_start = projr (start_run one_runtime True (Some picky) 0 toy_machine)"

definition one_actions :: "received_packet \<Rightarrow> run_action list" where
  "one_actions p = [AskLoop (Inr False), Poll (Inr [p]), AskPacket (Inr False), ObservePacket p,
     SubmitPacket p Accepted, Work (NotifyOne None), Work (Check 0 (Took p)), Process 0 p, EndOfBatch,
     AskLoop (Inr False), ReportTime 7, ObserveReject 0 p, StopStep RequestStop,
     Finish_call 0 p Returned, StopStep NotifyAll, Work (Check 0 Left)]"

lemma one_start: "start_run one_runtime True (Some picky) 0 toy_machine = Inr one_start"
proof -
  have "\<exists>s. start_run one_runtime True (Some picky) 0 toy_machine = Inr s"
    by (simp add: start_run_def one_runtime_def one_config_def toy_runtime_config_def default_config_def
        new_monitor_def validate_config_def new_tracker_def new_processor_def new_pipeline_def cbind_def
        throw_if_def)
  then show ?thesis unfolding one_start_def by auto
qed

lemma one_packet:
  "\<exists>p r w. poll toy_os toy_receiver 100 toy_machine = ((Inr [p], r), w) \<and> sample_of p = None"
proof -
  have good: "dr_packet (decode_outcome (packet_bytes kImu 1 2 [])) =
      Some \<lparr>pkt_header = header_of (packet_bytes kImu 1 2 []), pkt_payload = []\<rparr>"
    by (rule decode_packet_bytes) simp_all
  have bad: "dr_packet (decode_outcome [1, 2, 3]) = None"
    by (simp add: decode_outcome_def decode_checks_def Let_def)
  have h: "hdr_message_type (header_of (packet_bytes kImu 1 2 [])) = kImu" by (simp add: header_of_packet_bytes)
  have none: "(case decode_sensor_payload kImu [] of Inl e \<Rightarrow> None | Inr r \<Rightarrow> map_option f (dsp_payload r)) = None" for f
    by (cases "decode_sensor_payload kImu []")
      (auto simp: decode_sensor_payload_def decode_imu_def kImuPayloadSize_def payload_failure_def)
  show ?thesis
    by (simp add: poll_def toy_receiver_def toy_machine_def toy_os_def INT_MAX_def EPOLLIN_def
        try_receive_def receive_datagram_def kMaxUdpPayloadSize_def from_sockaddr_def io_simps
        decode_packet_eq good bad sample_of_def h none)
qed


lemma one_run:
  "\<exists>p s. exec_run toy_os one_start (one_actions p) = Some s \<and> run_main s = Stopping 7
    \<and> wp_stopper (run_pipeline s) = Joining \<and> all_exited (run_pipeline s)"
proof -
  obtain p r w where p: "poll toy_os toy_receiver 100 toy_machine = ((Inr [p], r), w)" "sample_of p = None"
    using one_packet by blast
  obtain e where e: "e \<noteq> PayloadNone" "process \<lparr>spr_handler = picky, spr_metrics = zero_processor_metrics, spr_user = 0\<rparr> p
      = Inr (\<lparr>spr_handler = picky, spr_metrics = zero_processor_metrics
        \<lparr>pm_packets_examined := 1, pm_payloads_rejected := 1\<rparr>, spr_user = 0\<rparr>, Processed e)"
    using process_rejects [OF p(2), of "\<lparr>spr_handler = picky, spr_metrics = zero_processor_metrics, spr_user = 0\<rparr>"]
    by (auto simp: zero_processor_metrics_def)
  obtain mon where mon: "new_monitor (rc_health one_config) = Inr mon"
    using one_start by (auto simp: start_run_def one_runtime_def cbind_eq_Inr_iff throw_if_def split: if_splits)
  have start: "one_start = \<lparr>run_config = one_config, run_receiver = toy_receiver, run_machine = toy_machine,
      run_monitor = mon, run_processor = \<lparr>spr_handler = picky, spr_metrics = zero_processor_metrics, spr_user = 0\<rparr>,
      run_pipeline = \<lparr>wp_queue_capacity = 1, wp_queue = [], wp_accepting = True,
           wp_stop_requested = False, wp_metrics = zero_pipeline_metrics,
           wp_workers = [Ready], wp_pending_notify = 0, wp_stopper = NoStop\<rparr>,
      run_calls = [NotCalled], run_received = 0, run_main = AtLoop\<rparr>"
    using mon by (simp add: one_start_def start_run_def one_runtime_def new_processor_def new_pipeline_def)
      (simp add: one_config_def)
  have c: "rc_poll_timeout one_config = 100" "rc_packet_count one_config = Some 1"
    by (simp_all add: one_config_def toy_runtime_config_def default_config_def)
  have now: "lib_steady_now toy_os x = (7, x)" for x by (simp add: toy_os_def)
  show ?thesis
    by (rule exI [of _ p])
      (simp add: start one_actions_def p(1) c now e after_question_def limit_reached_def call_process_def
        try_submit_def notify_one_def worker_check_def worker_finish_def request_stop_def notify_all_def
        set_worker_def all_exited_def Let_def)
qed

lemma one_finished:
  "\<exists>p as s summary. runtime_run toy_os one_start as s \<and> run_main s = Finished (Inr summary)
    \<and> observed as = [p] \<and> \<not> stop_answered as"
proof -
  obtain p s where r: "exec_run toy_os one_start (one_actions p) = Some s" "run_main s = Stopping 7"
      "wp_stopper (run_pipeline s) = Joining" "all_exited (run_pipeline s)"
    using one_run by blast
  note ret = runtime_step.return_summary [OF r(2) pipeline_step.joined [OF r(3,4)], of toy_os]
  have "observed (one_actions p @ [a]) = [p] \<and> (\<not> stop_answered (one_actions p @ [a]))"
    if "a = Return m x" for a m x
    using that by (simp add: one_actions_def run_traces stop_answered_def)
  then show ?thesis
    using run.run_more [OF exec_run_sound [OF r(1)] ret]
    by (intro exI conjI) (assumption, auto)
qed

section \<open>Properties\<close>

text \<open>The counters of one summary agree with each other.\<close>

definition summary_balanced :: "run_summary \<Rightarrow> bool" where
  "summary_balanced summary \<longleftrightarrow>
     sm_packets_observed (sum_stream_metrics summary) = sum_packets_received summary
     \<and> sum_packets_received summary = wm_packets_submitted (sum_pipeline_metrics summary)
         + wm_packets_dropped_queue_full (sum_pipeline_metrics summary)
     \<and> wm_packets_rejected_stopped (sum_pipeline_metrics summary) = 0
     \<and> wm_packets_submitted (sum_pipeline_metrics summary) = wm_packets_processed (sum_pipeline_metrics summary)
         + wm_handler_failures (sum_pipeline_metrics summary)
     \<and> pm_packets_examined (sum_sample_metrics summary) = wm_packets_submitted (sum_pipeline_metrics summary)
     \<and> pm_packets_examined (sum_sample_metrics summary) = pm_samples_decoded (sum_sample_metrics summary)
         + pm_payloads_rejected (sum_sample_metrics summary)
     \<and> pm_samples_decoded (sum_sample_metrics summary) = pm_imu_samples (sum_sample_metrics summary)
         + pm_gnss_samples (sum_sample_metrics summary) + pm_camera_meta_samples (sum_sample_metrics summary)"

lemma finished_balanced:
  assumes "start_run rt b (Some h) u m0 = Inr s0" and "runtime_run os s0 as s"
    and "run_main s = Finished (Inr summary)"
  shows "summary_balanced summary \<and> sum_packets_received summary = of_nat (length (observed as))"
proof -
  note ok = reached [OF assms(1,2)]
  obtain now where ex: "all_exited (run_pipeline s)"
    and sum: "summary = make_summary s (wp_metrics (run_pipeline s)) now"
    using ok(2) assms(3) by (auto simp: finished_ok_def)
  note j = joined_facts [OF ok(1) ex]
  note p = processor_counts [OF assms(1,2)]
  have main: "main_ok as s" and acc: "accounted (pipeline_trace as) (run_pipeline s)"
    using ok(1) by (simp_all add: run_ok_def)
  have "sm_packets_observed (trk_metrics (mon_tracker (run_monitor s0))) = 0"
    by (rule start_run_InrD [OF assms(1)]) (auto dest: new_monitor_counts simp: zero_stream_metrics_def)
  then have obs: "sm_packets_observed (trk_metrics (mon_tracker (run_monitor s))) = of_nat (length (observed as))"
    using packets_observed_run [OF assms(2)] by simp
  have len: "length (observed as) = length (submitted as)"
    "length (submitted as) = length (accepted (pipeline_trace as)) + submit_count QueueFull (pipeline_trace as)"
    "submit_count Stopped (pipeline_trace as) = 0" "run_received s = of_nat (length (submitted as))"
    using main assms(3) by (auto simp: main_ok_def)
  show ?thesis
    using acc j obs len of_type_sum_u64 [of "samples_of (called as)"]
    unfolding sum make_summary_def Let_def health_report_of_def p
    by (simp add: summary_balanced_def accounted_def add_samples_def zero_processor_metrics_def)
qed

text \<open>C29. The counters of a finished run agree across components, for any number of workers, any
  interleaving, any kernel, stop predicate and handler: each received packet was observed once by
  the stream tracker and was either submitted or dropped on a full queue, none was rejected because
  the pipeline had stopped; each submitted packet was handed to the processor exactly once and either
  processed or counted as a handler failure; it either decoded into a sample of one of the three
  types, for which the handler was called exactly once, or counted as a rejected payload.\<close>

theorem run_summary_accounts:
  assumes "start_run rt b (Some h) u m0 = Inr s0" and "runtime_run os s0 as s"
    and "run_main s = Finished (Inr summary)"
  shows "sum_packets_received summary = of_nat (length (observed as))
    \<and> sm_packets_observed (sum_stream_metrics summary) = sum_packets_received summary
    \<and> sum_packets_received summary = wm_packets_submitted (sum_pipeline_metrics summary)
        + wm_packets_dropped_queue_full (sum_pipeline_metrics summary)
    \<and> wm_packets_rejected_stopped (sum_pipeline_metrics summary) = 0
    \<and> wm_packets_submitted (sum_pipeline_metrics summary) = wm_packets_processed (sum_pipeline_metrics summary)
        + wm_handler_failures (sum_pipeline_metrics summary)
    \<and> pm_packets_examined (sum_sample_metrics summary) = wm_packets_submitted (sum_pipeline_metrics summary)
    \<and> pm_packets_examined (sum_sample_metrics summary) = pm_samples_decoded (sum_sample_metrics summary)
        + pm_payloads_rejected (sum_sample_metrics summary)
    \<and> pm_samples_decoded (sum_sample_metrics summary) = pm_imu_samples (sum_sample_metrics summary)
        + pm_gnss_samples (sum_sample_metrics summary) + pm_camera_meta_samples (sum_sample_metrics summary)
    \<and> mset (called as) = mset (accepted (pipeline_trace as))
    \<and> spr_user (run_processor s) = foldl (\<lambda>u x. fst (h u x)) u (samples_of (called as))"
proof -
  note ok = reached [OF assms(1,2)]
  have ex: "all_exited (run_pipeline s)" using ok(2) assms(3) by (auto simp: finished_ok_def)
  have "spr_user (run_processor s) = foldl (\<lambda>u x. fst (h u x)) u (samples_of (called as))"
    by (simp add: processor_counts [OF assms(1,2)])
  then show ?thesis
    using finished_balanced [OF assms, unfolded summary_balanced_def] joined_facts(1) [OF ok(1) ex]
    by (elim conjE, intro conjI) assumption+
qed


lemma run_summary_accounts_witness:
  "\<exists>as s summary. runtime_run toy_os one_start as s \<and> run_main s = Finished (Inr summary)
    \<and> sum_packets_received summary = 1
    \<and> wm_packets_submitted (sum_pipeline_metrics summary) + wm_packets_dropped_queue_full (sum_pipeline_metrics summary) = 1"
proof -
  obtain p as s summary where r: "runtime_run toy_os one_start as s" "run_main s = Finished (Inr summary)"
      "observed as = [p]" using one_finished by blast
  show ?thesis using run_summary_accounts [OF one_start r(1,2)] r by (auto intro!: exI)
qed

text \<open>C30. The health report of a finished run is the one of its history: the monitor has seen each
  received packet in order of reception, a dropped-packet problem for exactly the packets the full
  queue refused, and a rejected-payload problem for exactly the submitted packets whose payload does
  not decode, each once. So what the health properties say of a history holds of the report.\<close>

theorem run_reports_history:
  assumes "start_run rt b h u m0 = Inr s0" and "runtime_run os s0 as s"
    and "run_main s = Finished (Inr summary)"
  shows "\<exists>mon now. new_monitor (rc_health (rt_config rt)) = Inr mon
    \<and> sum_source_health summary = rep_sources (health_report_of (fst (monitor_run mon (monitor_events as))) now)
    \<and> sum_stream_metrics summary = rep_stream_metrics (health_report_of (fst (monitor_run mon (monitor_events as))) now)
    \<and> observed as = submitted as \<and> dropped as = refused as
    \<and> mset (rejected as) = mset (filter (\<lambda>p. sample_of p = None) (accepted (pipeline_trace as)))"
proof (rule start_run_InrD [OF assms(1)])
  fix mon assume mon: "new_monitor (rc_health (rt_config rt)) = Inr mon" "run_monitor s0 = mon"
  note ok = reached [OF assms(1,2)]
  obtain now where ex: "all_exited (run_pipeline s)"
    and sum: "summary = make_summary s (wp_metrics (run_pipeline s)) now"
    using ok(2) assms(3) by (auto simp: finished_ok_def)
  have "observed as = submitted as" "dropped as = refused as"
    using ok(1) assms(3) by (simp_all add: run_ok_def main_ok_def)
  then show ?thesis
    using mon monitor_of_run [OF assms(2)] joined_facts(2) [OF ok(1) ex]
    by (intro exI [of _ mon] exI [of _ now]) (simp add: sum make_summary_def Let_def)
qed

lemma run_reports_history_witness:
  "\<exists>as s p summary mon now. runtime_run toy_os one_start as s \<and> run_main s = Finished (Inr summary)
    \<and> submitted as = [p]
    \<and> sum_source_health summary = rep_sources (health_report_of (fst (monitor_run mon (monitor_events as))) now)"
proof -
  obtain p as s summary where r: "runtime_run toy_os one_start as s" "run_main s = Finished (Inr summary)"
      "observed as = [p]" using one_finished by blast
  show ?thesis using run_reports_history [OF one_start r(1,2)] r by metis
qed

text \<open>C31. A configured packet count is a hard limit: at no time have more packets been observed or
  counted, and a run whose stop predicate never answered yes returns having received exactly that
  many.\<close>

theorem packet_count_respected:
  assumes "start_run rt b h u m0 = Inr s0" and "runtime_run os s0 as s"
    and "rc_packet_count (rt_config rt) = Some n"
  shows "length (observed as) \<le> unat n \<and> run_received s \<le> n
    \<and> (\<forall>summary. run_main s = Finished (Inr summary) \<and> \<not> stop_answered as \<longrightarrow>
         sum_packets_received summary = n)"
proof (rule start_run_InrD [OF assms(1)])
  assume s0: "run_config s0 = rt_config rt" "run_main s0 = AtLoop"
  note ok = reached [OF assms(1,2)]
  have lim: "limit_ok n as s"
    using limit_ok_run [OF assms(2) run_ok_start [OF assms(1)]] s0 assms(3) by simp
  have main: "main_ok as s" using ok(1) by (simp add: run_ok_def)
  then have "length (submitted as) \<le> unat n" using lim by (simp add: main_ok_def limit_ok_def)
  then obtain k where "k \<le> unat n" "run_received s = of_nat k"
    using main by (metis main_ok_def diff_le_self le_trans)
  then have le: "run_received s \<le> n"
    using unat_u64_bound [of n] by (simp add: word_le_nat_alt unat_of_nat)
  moreover have "sum_packets_received summary = n"
    if f: "run_main s = Finished (Inr summary)" "\<not> stop_answered as" for summary
  proof -
    have "n \<le> run_received s" using lim f by (simp add: limit_ok_def)
    then show ?thesis using le ok(2) f by (auto simp: finished_ok_def make_summary_def Let_def)
  qed
  ultimately show ?thesis using lim by (simp add: limit_ok_def)
qed


lemma packet_count_respected_witness:
  "\<exists>as s summary. runtime_run toy_os one_start as s \<and> run_main s = Finished (Inr summary)
    \<and> \<not> stop_answered as \<and> sum_packets_received summary = 1"
proof -
  obtain p as s summary where r: "runtime_run toy_os one_start as s" "run_main s = Finished (Inr summary)"
      "\<not> stop_answered as" using one_finished by blast
  have "rc_packet_count (rt_config one_runtime) = Some 1" by (simp add: one_runtime_def one_config_def)
  then show ?thesis using packet_count_respected [OF one_start r(1)] r by blast
qed



text \<open>C33. When the kernel or the stop predicate fails, \<open>run\<close> throws that very exception, and only
  after the pipeline has been stopped. From the moment a poll or a predicate has thrown \<open>e\<close> the main
  thread does nothing but unwind with \<open>e\<close>, and the run can only come to rest by throwing \<open>e\<close>. A run
  that has ended threw \<open>e\<close> if and only if one of these calls had thrown it, so no failure is
  swallowed and none is invented; every worker has then returned, and every packet submitted has
  been processed exactly once.\<close>

theorem run_rethrows_drained:
  assumes "start_run rt b h u m0 = Inr s0" and "runtime_run os s0 as s"
  shows "(threw e as \<longrightarrow> (run_main s = Unwinding e \<or> run_main s = Finished (Inl e))
        \<and> ((\<nexists>a t. runtime_step os s a t) \<longrightarrow> run_main s = Finished (Inl e)))
    \<and> (run_main s = Finished r \<longrightarrow> (r = Inl e \<longleftrightarrow> threw e as) \<and> all_exited (run_pipeline s)
        \<and> mset (called as) = mset (accepted (pipeline_trace as)))"
proof -
  note ok = reached [OF assms]
  have start: "run_main s0 = AtLoop" by (rule start_run_InrD [OF assms(1)])
  have unwinds: "run_main s = Unwinding e \<or> run_main s = Finished (Inl e)" if "threw e as"
    by (rule threw_unwinds [OF assms(2) start that])
  moreover have "run_main s = Finished (Inl e)" if "threw e as" "\<nexists>a t. runtime_step os s a t"
    using unwinds [OF that(1)] run_progress [OF ok(1)] that(2) by force
  moreover have "(r = Inl e \<longleftrightarrow> threw e as) \<and> all_exited (run_pipeline s)
      \<and> mset (called as) = mset (accepted (pipeline_trace as))" if fin: "run_main s = Finished r"
  proof -
    have "all_exited (run_pipeline s)" using ok(2) fin by (simp add: finished_ok_def)
    moreover have "threw e as" if "r = Inl e" using threw_run [OF assms(2) start] fin that by blast
    moreover have "r = Inl e" if "threw e as" using unwinds [OF that] fin by auto
    ultimately show ?thesis using joined_facts(1) [OF ok(1)] by blast
  qed
  ultimately show ?thesis by blast
qed

lemma run_rethrows_drained_witness:
  "\<exists>as s. runtime_run toy_os one_start as s \<and> run_main s = Finished (Inl Out_of_bounds)
    \<and> threw Out_of_bounds as \<and> all_exited (run_pipeline s)"
proof -
  let ?as = "[AskLoop (Inl Out_of_bounds), StopStep RequestStop, StopStep NotifyAll, Work (Check 0 Left),
    Return zero_pipeline_metrics (Inl Out_of_bounds)]"
  have p: "run_pipeline one_start = \<lparr>wp_queue_capacity = 1, wp_queue = [], wp_accepting = True,
      wp_stop_requested = False, wp_metrics = zero_pipeline_metrics, wp_workers = [Ready],
      wp_pending_notify = 0, wp_stopper = NoStop\<rparr>" "run_main one_start = AtLoop"
    by (rule start_run_InrD [OF one_start];
        simp add: one_runtime_def one_config_def new_pipeline_def)+
  have "\<exists>s. exec_run toy_os one_start ?as = Some s \<and> run_main s = Finished (Inl Out_of_bounds)"
    by (simp add: p after_question_def request_stop_def notify_all_def worker_check_def set_worker_def all_exited_def)
  then obtain s where s: "exec_run toy_os one_start ?as = Some s" "run_main s = Finished (Inl Out_of_bounds)" by blast
  have run: "runtime_run toy_os one_start ?as s" by (rule exec_run_sound [OF s(1)])
  have "threw Out_of_bounds ?as \<and> all_exited (run_pipeline s)"
    using run_rethrows_drained [OF one_start run, of Out_of_bounds "Inl Out_of_bounds"] s(2) by blast
  then show ?thesis using run s(2) by blast
qed


text \<open>Every configuration the command line parser accepts can be run: \<open>Runtime\<close> accepts it, and
  none of the components \<open>run\<close> builds (health monitor, stream tracker, sample processor, pipeline)
  rejects it; opening the receiver can only fail in the system or for too many endpoints. More
  generally, what \<open>Runtime\<close> validates is enough for them.\<close>

theorem accepted_config_runs:
  assumes "parse_runtime_config os args = Inr c"
  shows "validate_runtime_config c = Inr c
    \<and> (\<exists>s. start_run \<lparr>rt_config = c, rt_receiver = r\<rparr> True (Some h) u m = Inr s)
    \<and> (\<forall>message. length (ec_listen_endpoints (rc_receiver c)) \<le> 2147483647 \<longrightarrow>
         fst (create_epoll os (rc_receiver c) m) \<noteq> Inl (Invalid_argument message))
    \<and> 0 < rc_poll_timeout c \<and> rc_poll_timeout c \<le> INT_MAX"
proof -
  note a = accepted_settings [OF assms]
  have v: "validate_runtime_config c = Inr c"
    using a by (simp add: validate_runtime_config_def)
  have "\<exists>s. start_run \<lparr>rt_config = c, rt_receiver = r\<rparr> True (Some h) u m = Inr s"
    using a by (simp add: start_run_def new_monitor_def validate_config_def new_tracker_def new_processor_def
        new_pipeline_def cbind_def throw_if_def)
  moreover have "fst (create_epoll os (rc_receiver c) m) \<noteq> Inl (Invalid_argument message)"
    if "length (ec_listen_endpoints (rc_receiver c)) \<le> 2147483647" for message
    using a that by (simp add: create_epoll_def io_bind_eq io_call_eq io_check_def INT_MAX_def split: sum.split)
  ultimately show ?thesis using v a by (simp add: INT_MAX_def)
qed

lemma accepted_config_runs_witness:
  "parse_runtime_config toy_os [''--workers'', ''3''] = Inr (default_config\<lparr>rc_pipeline := \<lparr>wc_worker_count = 3, wc_queue_capacity = 1024\<rparr>\<rparr>)
   \<and> validate_runtime_config (default_config\<lparr>rc_pipeline := \<lparr>wc_worker_count = 3, wc_queue_capacity = 1024\<rparr>\<rparr>)
     = Inr (default_config\<lparr>rc_pipeline := \<lparr>wc_worker_count = 3, wc_queue_capacity = 1024\<rparr>\<rparr>)"
proof -
  have "parse_positive_integer ''3'' = Some 3" by code_simp
  then have p: "parse_runtime_config toy_os [''--workers'', ''3'']
      = Inr (default_config\<lparr>rc_pipeline := \<lparr>wc_worker_count = 3, wc_queue_capacity = 1024\<rparr>\<rparr>)"
    by (simp add: parse_runtime_config_def apply_option_def default_config_def size_max_def)
  show ?thesis by (rule conjI [OF p accepted_config_runs [OF p, THEN conjunct1]])
qed

end
