(* ===== verification/Runtime_App.thy ===== *)
theory Runtime_App
  imports Console Runtime
begin

text \<open>
  \<open>src/apps/runtime_main.cpp\<close>: parse the arguments, install the signal handlers, open the receiver,
  run until the stop predicate or the packet count ends the run, and print the summary with one line
  per source. \<open>runtime_begin\<close> is the program up to the call of \<open>run\<close>, \<open>runtime_end\<close> what follows it;
  \<open>runtime_main\<close> is their composition with the interleavings of the run. The predicate reads the flag
  the signal handlers set, at any time, so it may answer anything; it does not throw. The handler of
  the samples does nothing.
\<close>

section \<open>Texts\<close>

definition runtime_usage :: string where
  "runtime_usage = concat (map (\<lambda>l. l @ newline)
     [''usage: driveflow_runtime [options]'',
      ''  --listen <IPv4:port>       listen endpoint; may be repeated'',
      ''  --count <packets>           stop after receiving this many valid packets'',
      ''  --poll-timeout-ms <ms>      epoll wait timeout (default: 100)'',
      ''  --max-drain <datagrams>     per-listener drain limit (default: 64)'',
      ''  --max-sources <sources>     tracked sensor source limit (default: 256)'',
      ''  --health-degraded-ms <ms>  silence before DEGRADED (default: 500)'',
      ''  --health-offline-ms <ms>   silence before OFFLINE (default: 2000)'',
      ''  --health-recovery-ms <ms>  issue-free recovery time (default: 1000)'',
      ''  --workers <threads>          worker thread count (default: 2)'',
      ''  --queue-capacity <packets>  maximum waiting packets (default: 1024)'',
      ''default listener: 0.0.0.0:9000''])"

definition message_type_name :: "message_type \<Rightarrow> string" where
  "message_type_name message_type =
     (if message_type = kImu then ''imu''
      else if message_type = kGnss then ''gnss''
      else if message_type = kCameraMeta then ''camera-meta''
      else ''unknown'')"

definition listening_text :: "ipv4_endpoint list \<Rightarrow> string" where
  "listening_text endpoints = concat (map (\<lambda>e. ''listening on '' @ endpoint_text e @ newline) endpoints)"

definition summary_text :: "run_summary \<Rightarrow> string" where
  "summary_text summary =
     (let receiver = sum_receiver_metrics summary; stream = sum_stream_metrics summary;
          pipeline = sum_pipeline_metrics summary; samples = sum_sample_metrics summary in
      ''runtime stopped''
      @ '' received='' @ unsigned_text (sum_packets_received summary)
      @ '' datagrams='' @ unsigned_text (rx_datagrams_received receiver)
      @ '' accepted='' @ unsigned_text (rx_packets_accepted receiver)
      @ '' rejected='' @ unsigned_text (rx_packets_rejected receiver)
      @ '' epoll_wakeups='' @ unsigned_text (rx_epoll_wakeups receiver)
      @ '' streams_observed='' @ unsigned_text (sm_streams_observed stream)
      @ '' packets_observed='' @ unsigned_text (sm_packets_observed stream)
      @ '' first_observations='' @ unsigned_text (sm_first_observations stream)
      @ '' in_order_observations='' @ unsigned_text (sm_in_order_observations stream)
      @ '' gap_observations='' @ unsigned_text (sm_gap_observations stream)
      @ '' duplicate_observations='' @ unsigned_text (sm_duplicate_observations stream)
      @ '' reordered_observations='' @ unsigned_text (sm_reordered_observations stream)
      @ '' untracked_observations='' @ unsigned_text (sm_untracked_observations stream)
      @ '' missing_samples_inferred='' @ unsigned_text (sm_missing_samples_inferred stream)
      @ '' submitted='' @ unsigned_text (wm_packets_submitted pipeline)
      @ '' processed='' @ unsigned_text (wm_packets_processed pipeline)
      @ '' dropped_queue_full='' @ unsigned_text (wm_packets_dropped_queue_full pipeline)
      @ '' rejected_stopped='' @ unsigned_text (wm_packets_rejected_stopped pipeline)
      @ '' handler_failures='' @ unsigned_text (wm_handler_failures pipeline)
      @ '' queue_high_watermark='' @ show_decimal (wm_queue_high_watermark pipeline)
      @ '' packets_examined='' @ unsigned_text (pm_packets_examined samples)
      @ '' samples_decoded='' @ unsigned_text (pm_samples_decoded samples)
      @ '' payloads_rejected='' @ unsigned_text (pm_payloads_rejected samples)
      @ '' imu_samples='' @ unsigned_text (pm_imu_samples samples)
      @ '' gnss_samples='' @ unsigned_text (pm_gnss_samples samples)
      @ '' camera_meta_samples='' @ unsigned_text (pm_camera_meta_samples samples)
      @ newline)"

definition kNanosecondsPerMillisecond :: float64 where
  "kNanosecondsPerMillisecond = Float64 0x412E848000000000"

definition milliseconds_text :: "u64 \<Rightarrow> string" where
  "milliseconds_text ns = double_fixed2 (f64_divide (f64_of_u64 ns) kNanosecondsPerMillisecond)"

definition source_text :: "health_snapshot \<Rightarrow> string" where
  "source_text source =
     ''source_health''
     @ '' remote='' @ endpoint_text (src_remote_endpoint (snap_source source))
     @ '' listener='' @ endpoint_text (src_listener_endpoint (snap_source source))
     @ '' message_type='' @ message_type_name (src_message_type (snap_source source))
     @ '' status='' @ health_status_to_string (snap_status source)
     @ '' packets_received='' @ unsigned_text (snap_packets_received source)
     @ '' rate_hz='' @ double_fixed2 (snap_current_rate_hz source)
     @ '' inactivity_ms='' @ milliseconds_text (snap_inactivity_ns source)
     @ '' latest_latency_ms='' @ milliseconds_text (snap_latest_latency_ns source)
     @ '' maximum_latency_ms='' @ milliseconds_text (snap_maximum_latency_ns source)
     @ '' timestamp_anomalies='' @ unsigned_text (snap_timestamp_anomalies source)
     @ '' gaps='' @ unsigned_text (snap_gap_observations source)
     @ '' duplicates='' @ unsigned_text (snap_duplicate_observations source)
     @ '' reordered='' @ unsigned_text (snap_reordered_observations source)
     @ '' missing_inferred='' @ unsigned_text (snap_missing_samples_inferred source)
     @ '' payloads_rejected='' @ unsigned_text (snap_payloads_rejected source)
     @ '' dropped_queue_full='' @ unsigned_text (snap_packets_dropped_queue_full source)
     @ newline"

section \<open>The program\<close>

definition ignore_sample :: "unit handler" where "ignore_sample u sample = (u, Returned)"

text \<open>The construction inside the try block: an exit code, or the runtime.\<close>

definition runtime_open :: "'w os \<Rightarrow> runtime_config \<Rightarrow> ('w, int + runtime) tool" where
  "runtime_open os config =
     tool_bind (tool_io (new_runtime os config)) (\<lambda>rt.
     tool_bind (print_out (listening_text (local_endpoints (rt_receiver rt)))) (\<lambda>_.
     tool_bind (print_out (''runtime started; press Ctrl+C to stop'' @ newline)) (\<lambda>_.
     tool_return (Inr rt))))"

definition runtime_begin ::
  "'w os \<Rightarrow> 'w signals \<Rightarrow> (string \<Rightarrow> string) \<Rightarrow> string list \<Rightarrow> ('w, int + runtime) tool" where
  "runtime_begin os signal error_text args =
     (if args = [''--help''] then tool_bind (print_out runtime_usage) (\<lambda>_. tool_return (Inl 0))
      else case parse_runtime_config os args of
        Inl e \<Rightarrow>
          tool_bind (print_err (''configuration error: '' @ e @ newline @ runtime_usage)) (\<lambda>_.
          tool_return (Inl 1))
      | Inr config \<Rightarrow>
          tool_bind (tool_io (install_signal_handlers signal)) (\<lambda>installed.
          if \<not> installed then
            tool_bind (print_err (''failed to install signal handlers'' @ newline)) (\<lambda>_. tool_return (Inl 2))
          else
            tool_try (runtime_open os config) (tool_failed ''runtime failed: '' error_text (Inl 3))))"

text \<open>After \<open>run\<close>: the report, then the destructor of the runtime; an exception skips the report.\<close>

definition close_runtime :: "'w os \<Rightarrow> receiver \<Rightarrow> ('w, unit) tool" where
  "close_runtime os r = tool_io (\<lambda>s. (Inr (), destroy_receiver os r s))"

definition runtime_end ::
  "'w os \<Rightarrow> (string \<Rightarrow> string) \<Rightarrow> receiver \<Rightarrow> run_summary cpp \<Rightarrow> ('w, int) tool" where
  "runtime_end os error_text r outcome =
     tool_try
       (case outcome of
          Inl e \<Rightarrow> tool_bind (close_runtime os r) (\<lambda>_. tool_io (io_throw e))
        | Inr summary \<Rightarrow>
            tool_bind (print_out (summary_text summary)) (\<lambda>_.
            tool_bind (print_out (concat (map source_text (sum_source_health summary)))) (\<lambda>_.
            tool_bind (close_runtime os r) (\<lambda>_.
            tool_return 0))))
       (tool_failed ''runtime failed: '' error_text 3)"

fun answers :: "run_action \<Rightarrow> bool" where
  "answers (AskLoop (Inl e)) = False"
| "answers (AskPacket (Inl e)) = False"
| "answers _ = True"

text \<open>\<open>runtime_main os signal error_text args p r q\<close>: started in \<open>p\<close>, the program may end in \<open>q\<close>
  with the result \<open>r\<close>: its exit code, or undefined behaviour.\<close>

inductive runtime_main ::
  "'w os \<Rightarrow> 'w signals \<Rightarrow> (string \<Rightarrow> string) \<Rightarrow> string list \<Rightarrow> 'w shell \<Rightarrow> int cpp \<Rightarrow> 'w shell \<Rightarrow> bool"
  for os signal error_text args p where
  begin_fails: "runtime_begin os signal error_text args p = Some (Inl e, q) \<Longrightarrow>
     runtime_main os signal error_text args p (Inl e) q"
| not_run: "runtime_begin os signal error_text args p = Some (Inr (Inl code), q) \<Longrightarrow>
     runtime_main os signal error_text args p (Inr code) q"
| not_started: "runtime_begin os signal error_text args p = Some (Inr (Inr rt), u) \<Longrightarrow>
     start_run rt True (Some ignore_sample) () (pr_machine u) = Inl e \<Longrightarrow>
     runtime_end os error_text (rt_receiver rt) (Inl e) u = Some (r, q) \<Longrightarrow>
     runtime_main os signal error_text args p r q"
| ran: "runtime_begin os signal error_text args p = Some (Inr (Inr rt), u) \<Longrightarrow>
     start_run rt True (Some ignore_sample) () (pr_machine u) = Inr s0 \<Longrightarrow>
     runtime_run os s0 as s \<Longrightarrow> list_all answers as \<Longrightarrow> run_main s = Finished outcome \<Longrightarrow>
     runtime_end os error_text (run_receiver s) outcome (u\<lparr>pr_machine := run_machine s\<rparr>) = Some (r, q) \<Longrightarrow>
     runtime_main os signal error_text args p r q"

end
