(* ===== verification/Runtime_App_Run.thy ===== *)
theory Runtime_App_Run
  imports Runtime_App
begin

text \<open>
  The runtime application over all interleavings: its exit codes, what it prints, the descriptors it
  leaves, and the absence of undefined behaviour.
\<close>

section \<open>Construction\<close>

lemma add_listeners_defined: "io_defined (add_listeners os epoll ls es)"
proof (induction es arbitrary: ls)
  case (Cons e es)
  have "io_defined (add_listener os epoll ls e)" for ls unfolding add_listener_def by auto
  then show ?case using Cons by auto
qed simp

lemma new_runtime_defined: "io_defined (new_runtime os config)"
proof -
  have "io_defined (create_epoll os c)" for c unfolding create_epoll_def by auto
  moreover have "validate_runtime_config config \<noteq> Inl Out_of_bounds"
    by (auto simp: validate_runtime_config_def throw_if_def)
  ultimately show ?thesis
    using add_listeners_defined unfolding new_runtime_def new_receiver_def by auto
qed

text \<open>What the program has printed when the runtime has been constructed.\<close>

definition started_text :: "runtime \<Rightarrow> string" where
  "started_text rt = listening_text (local_endpoints (rt_receiver rt))
     @ ''runtime started; press Ctrl+C to stop'' @ newline"

lemma runtime_begin_eq:
  "runtime_begin os signal error_text args p =
     (if args = [''--help''] then Some (Inr (Inl 0), p\<lparr>pr_out := pr_out p @ runtime_usage\<rparr>)
      else case parse_runtime_config os args of
        Inl e \<Rightarrow> Some (Inr (Inl 1), p\<lparr>pr_err := pr_err p @ ''configuration error: '' @ e @ newline @ runtime_usage\<rparr>)
      | Inr config \<Rightarrow>
          (case install_signal_handlers signal (pr_machine p) of (installed, s) \<Rightarrow>
             if installed \<noteq> Inr True then Some (Inr (Inl 2),
               p\<lparr>pr_machine := s, pr_err := pr_err p @ ''failed to install signal handlers'' @ newline\<rparr>)
             else (case new_runtime os config s of
                 (Inl e, t) \<Rightarrow> Some (Inr (Inl 3),
                   p\<lparr>pr_machine := t, pr_err := pr_err p @ ''runtime failed: '' @ exception_what error_text e @ newline\<rparr>)
               | (Inr rt, t) \<Rightarrow> Some (Inr (Inr rt), p\<lparr>pr_machine := t, pr_out := pr_out p @ started_text rt\<rparr>))))"
proof (cases "args = [''--help'']")
  case True
  then show ?thesis by (simp add: runtime_begin_def tool_bind_def)
next
  case False
  show ?thesis
  proof (cases "parse_runtime_config os args")
    case (Inl e)
    then show ?thesis using False by (simp add: runtime_begin_def tool_bind_def)
  next
    case (Inr config)
    have "\<exists>b. fst (install_signal_handlers signal (pr_machine p)) = Inr b"
      by (cases "fst (signal SIGINT (m_world (pr_machine p)))")
        (simp_all add: install_signal_handlers_def io_simps exI [of _ False])
    then obtain b s where i: "install_signal_handlers signal (pr_machine p) = (Inr b, s)" by (metis prod.collapse)
    obtain x t where n: "new_runtime os config s = (x, t)" by fastforce
    have "x \<noteq> Inl Out_of_bounds" using io_definedD [OF new_runtime_defined, of os config s] n by simp
    then show ?thesis using False Inr i n
      by (cases b; cases x) (auto simp: runtime_begin_def runtime_open_def tool_bind_def tool_try_def tool_failed_def
          started_text_def)
  qed
qed

text \<open>A runtime constructed from an accepted command line can be started.\<close>

lemma constructed_starts:
  fixes os :: "'w os" and m :: "'w machine"
  assumes "parse_runtime_config os args = Inr config" "new_runtime os config s = (Inr rt, t)"
  shows "\<exists>s0. start_run rt True (Some h) u m = Inr s0"
proof -
  have "validate_runtime_config config = Inr config" by (rule accepted_config_runs [OF assms(1), THEN conjunct1])
  then obtain receiver where rt: "rt = \<lparr>rt_config = config, rt_receiver = receiver\<rparr>"
    using assms(2) by (auto simp: new_runtime_def io_bind_eq split: sum.splits)
  show ?thesis unfolding rt by (rule accepted_config_runs [OF assms(1), THEN conjunct2, THEN conjunct1])
qed

lemma begin_ran:
  assumes "runtime_begin os signal error_text args p = Some (Inr (Inr rt), u)"
  shows "\<exists>config s t. args \<noteq> [''--help''] \<and> parse_runtime_config os args = Inr config
    \<and> install_signal_handlers signal (pr_machine p) = (Inr True, s) \<and> new_runtime os config s = (Inr rt, t)
    \<and> u = p\<lparr>pr_machine := t, pr_out := pr_out p @ started_text rt\<rparr>"
  using assms by (auto simp: runtime_begin_eq split: if_splits sum.splits prod.splits)

section \<open>Descriptors\<close>

text \<open>After a part of the program: a runtime owns the descriptors beyond those of the start.\<close>

definition left_open :: "fd multiset \<Rightarrow> (int + runtime) cpp \<Rightarrow> 'w shell \<Rightarrow> bool" where
  "left_open others r q \<longleftrightarrow> (case r of
      Inr (Inr rt) \<Rightarrow> owns_descriptors (rt_receiver rt) others (pr_machine q)
    | _ \<Rightarrow> mset (m_open (pr_machine q)) = others)"

lemma runtime_open_left:
  assumes "descriptors_valid os" "runtime_open os config p = Some (r, q)"
  shows "left_open (mset (m_open (pr_machine p))) r q"
proof (cases "validate_runtime_config config")
  case (Inl e)
  then show ?thesis using assms(2)
    by (auto simp: runtime_open_def new_runtime_def io_bind_eq tool_bind_def left_open_def)
next
  case (Inr c)
  then show ?thesis
    using assms(2) new_receiver_opens [OF assms(1), where config = "rc_receiver c" and s = "pr_machine p"]
    by (auto simp: runtime_open_def new_runtime_def io_bind_eq tool_bind_def left_open_def case_prod_beta
        split: sum.splits)
qed

lemma runtime_begin_left:
  assumes "descriptors_valid os" "runtime_begin os signal error_text args p = Some (r, q)"
  shows "left_open (mset (m_open (pr_machine p))) r q"
proof -
  have neutral: "m_open (snd (install_signal_handlers signal s)) = m_open s" for s
    by (simp add: install_signal_handlers_def io_simps)
  have opened: "left_open (mset (m_open (pr_machine u))) r' q'"
    if run: "tool_try (runtime_open os config) (tool_failed l error_text (Inl 3)) u = Some (r', q')" for config u l r' q'
  proof -
    obtain r1 v where v: "runtime_open os config u = Some (r1, v)"
      using run by (auto simp: tool_try_def split: option.splits)
    show ?thesis
      using runtime_open_left [OF assms(1) v] run v
      by (cases r1) (auto simp: tool_try_def tool_failed_def tool_bind_def left_open_def split: if_splits)
  qed
  show ?thesis
  proof (cases "\<exists>config. args \<noteq> [''--help''] \<and> parse_runtime_config os args = Inr config
      \<and> fst (install_signal_handlers signal (pr_machine p)) = Inr True")
    case True
    then obtain config l where "tool_try (runtime_open os config) (tool_failed l error_text (Inl 3))
        (p\<lparr>pr_machine := snd (install_signal_handlers signal (pr_machine p))\<rparr>) = Some (r, q)"
      using assms(2) by (auto simp: runtime_begin_def tool_bind_def)
    from opened [OF this] show ?thesis by (simp add: neutral)
  next
    case False
    then show ?thesis
      using assms(2) neutral [of "pr_machine p"]
      by (auto simp: runtime_begin_def tool_bind_def left_open_def split: if_splits sum.splits)
  qed
qed

lemma run_owns:
  assumes "runtime_run os s0 as s" "owns_descriptors (run_receiver s0) others (run_machine s0)"
  shows "owns_descriptors (run_receiver s) others (run_machine s)"
  using assms
proof (induction rule: run.induct)
  case (run_more s as t a u)
  have "owns_descriptors (run_receiver t) others (run_machine t)" by (rule run_more.IH) fact
  with run_more.hyps(2) show ?case
    by (cases rule: runtime_step.cases) (auto simp: owns_descriptors_def poll_keeps)
qed simp

text \<open>Without a throwing predicate a run does not reach undefined behaviour.\<close>

lemma run_defined:
  assumes "runtime_run os s0 as s" "list_all answers as" "run_main s0 = AtLoop"
  shows "run_main s \<noteq> Unwinding Out_of_bounds \<and> run_main s \<noteq> Finished (Inl Out_of_bounds)"
  using assms
proof (induction rule: run.induct)
  case (run_more s as t a u)
  have "run_main t \<noteq> Unwinding Out_of_bounds \<and> run_main t \<noteq> Finished (Inl Out_of_bounds)" "answers a"
    using run_more.IH run_more.prems by simp_all
  with run_more.hyps(2) show ?case
    by (cases rule: runtime_step.cases)
      (auto simp: after_question_def dest: poll_keeps(4) split: sum.splits if_splits)
qed simp

text \<open>The predicates of the application never throw: only a poll does.\<close>

lemma answers_threw: "list_all answers as \<Longrightarrow> threw e as \<longleftrightarrow> Poll (Inl e) \<in> set as"
  by (auto simp: threw_def list_all_iff)

section \<open>The end of the program\<close>

lemma runtime_end_Inl:
  assumes "e \<noteq> Out_of_bounds" "runtime_end os error_text r (Inl e) p = Some (x, q)"
  shows "x = Inr 3 \<and> pr_out q = pr_out p
    \<and> pr_err q = pr_err p @ ''runtime failed: '' @ exception_what error_text e @ newline
    \<and> pr_machine q = destroy_receiver os r (pr_machine p)"
  using assms by (auto simp: runtime_end_def close_runtime_def tool_try_def tool_failed_def tool_bind_def)

lemma runtime_end_Inr:
  assumes "runtime_end os error_text r (Inr summary) p = Some (x, q)"
  shows "x = Inr 0 \<and> pr_err q = pr_err p \<and> pr_machine q = destroy_receiver os r (pr_machine p)
    \<and> pr_out q = pr_out p @ summary_text summary @ concat (map source_text (sum_source_health summary))"
  using assms by (auto simp: runtime_end_def close_runtime_def tool_try_def tool_failed_def tool_bind_def)

section \<open>A run that is stopped at once\<close>

definition stop_args :: "string list" where
  "stop_args = [''--listen'', ''127.0.0.1:9000'', ''--workers'', ''1'']"

definition stop_config :: runtime_config where
  "stop_config = default_config\<lparr>
     rc_receiver := \<lparr>ec_listen_endpoints = [\<lparr>ep_address = ''127.0.0.1'', ep_port = 9000\<rparr>],
       ec_max_datagrams_per_listener_per_poll = 64\<rparr>,
     rc_pipeline := \<lparr>wc_worker_count = 1, wc_queue_capacity = 1024\<rparr>\<rparr>"

definition stop_shell :: "toy_world shell" where
  "stop_shell = \<lparr>pr_machine = \<lparr>m_world = (5, []), m_open = []\<rparr>, pr_out = [], pr_err = []\<rparr>"

lemma stop_config: "parse_runtime_config toy_os stop_args = Inr stop_config"
proof -
  have "parse_positive_integer ''1'' = Some 1"
    "parse_endpoint toy_os ''127.0.0.1:9000'' = Some \<lparr>ep_address = ''127.0.0.1'', ep_port = 9000\<rparr>"
    by code_simp+
  then show ?thesis
    by (simp add: stop_args_def stop_config_def parse_runtime_config_def apply_option_def default_config_def size_max_def)
qed

lemma stop_begins:
  "\<exists>rt u. runtime_begin toy_os (\<lambda>_ w. (True, w)) (\<lambda>_. []) stop_args stop_shell = Some (Inr (Inr rt), u)
     \<and> rt_config rt = stop_config"
proof -
  have "stop_args \<noteq> [''--help'']" by (simp add: stop_args_def)
  then have b: "runtime_begin toy_os (\<lambda>_ w. (True, w)) (\<lambda>_. []) stop_args p
      = tool_try (runtime_open toy_os stop_config) (tool_failed ''runtime failed: '' (\<lambda>_. []) (Inl 3)) p" for p
    by (simp add: runtime_begin_def stop_config tool_bind_def install_signal_handlers_def io_simps)
  show ?thesis
    unfolding b
    by (simp add: tool_bind_def tool_try_def io_simps
        runtime_open_def new_runtime_def validate_runtime_config_def throw_if_def new_receiver_def create_epoll_def
        add_listener_def bind_to_def udp_open_def to_sockaddr_def set_non_blocking_def local_endpoint_def
        from_sockaddr_def io_guarded_def io_check_def toy_os_def toy_pton_def c_str_def NUL_char_def INT_MAX_def
        stop_config_def default_config_def stop_shell_def)
qed

lemma stop_starts:
  assumes "rt_config rt = stop_config"
  shows "\<exists>s. start_run rt True (Some ignore_sample) () m = Inr s \<and> run_main s = AtLoop
    \<and> run_pipeline s = \<lparr>wp_queue_capacity = 1024, wp_queue = [], wp_accepting = True,
      wp_stop_requested = False, wp_metrics = zero_pipeline_metrics, wp_workers = [Ready],
      wp_pending_notify = 0, wp_stopper = NoStop\<rparr>"
  by (simp add: start_run_def assms stop_config_def default_config_def new_monitor_def validate_config_def
      new_tracker_def new_processor_def new_pipeline_def cbind_def throw_if_def)

definition stop_actions :: "run_action list" where
  "stop_actions = [AskLoop (Inr True), ReportTime 7, StopStep RequestStop, StopStep NotifyAll, Work (Check 0 Left)]"

lemma stop_runs:
  assumes "run_main s = AtLoop" "run_pipeline s = \<lparr>wp_queue_capacity = 1024, wp_queue = [], wp_accepting = True,
      wp_stop_requested = False, wp_metrics = zero_pipeline_metrics, wp_workers = [Ready],
      wp_pending_notify = 0, wp_stopper = NoStop\<rparr>"
  shows "\<exists>t. exec_run toy_os s stop_actions = Some t \<and> run_main t = Stopping 7
    \<and> wp_stopper (run_pipeline t) = Joining \<and> all_exited (run_pipeline t)"
proof -
  have now: "lib_steady_now toy_os x = (7, x)" for x by (simp add: toy_os_def)
  show ?thesis
    by (simp add: stop_actions_def assms after_question_def now request_stop_def notify_all_def worker_check_def
        set_worker_def all_exited_def)
qed

section \<open>Properties\<close>

text \<open>C40. The runtime application, for every system, command line and interleaving. Whenever it ends, it
  has not reached undefined behaviour, every descriptor it opened is closed again, it has only appended
  to its output, the error stream has been written exactly when the exit code is not 0, and the code
  says what happened: 0 for \<open>--help\<close>, with the usage; 1 if the command line is refused, with the
  reason; 2 if the signal handlers cannot be installed; 3 if the construction of the runtime throws, with
  that exception; a runtime that was constructed always starts its run, and then the code is 3 if a
  poll has thrown, with that exception, and 0 if none has, having printed the summary, whose
  counters agree with each other, and a line for every source of the health report.\<close>

theorem runtime_main_exits:
  assumes "descriptors_valid os" "runtime_main os signal error_text args p r q"
  shows "mset (m_open (pr_machine q)) = mset (m_open (pr_machine p)) \<and> prefix (pr_out p) (pr_out q)
    \<and> (\<exists>code. r = Inr code \<and> (code = 0 \<longleftrightarrow> pr_err q = pr_err p))
    \<and> (if args = [''--help''] then r = Inr 0 \<and> pr_out q = pr_out p @ runtime_usage
       else case parse_runtime_config os args of
         Inl e \<Rightarrow> r = Inr 1 \<and> pr_out q = pr_out p
           \<and> pr_err q = pr_err p @ ''configuration error: '' @ e @ newline @ runtime_usage
       | Inr config \<Rightarrow> (case install_signal_handlers signal (pr_machine p) of (installed, s) \<Rightarrow>
           if installed \<noteq> Inr True then r = Inr 2 \<and> pr_out q = pr_out p
             \<and> pr_err q = pr_err p @ ''failed to install signal handlers'' @ newline
           else (case new_runtime os config s of
               (Inl e, t) \<Rightarrow> r = Inr 3 \<and> pr_out q = pr_out p
                 \<and> pr_err q = pr_err p @ ''runtime failed: '' @ exception_what error_text e @ newline
             | (Inr rt, t) \<Rightarrow> \<exists>s0 as v outcome. start_run rt True (Some ignore_sample) () t = Inr s0
                 \<and> runtime_run os s0 as v \<and> list_all answers as \<and> run_main v = Finished outcome
                 \<and> (case outcome of
                     Inl e \<Rightarrow> Poll (Inl e) \<in> set as \<and> r = Inr 3 \<and> pr_out q = pr_out p @ started_text rt
                       \<and> pr_err q = pr_err p @ ''runtime failed: '' @ exception_what error_text e @ newline
                   | Inr summary \<Rightarrow> (\<forall>e. Poll (Inl e) \<notin> set as) \<and> summary_balanced summary
                       \<and> r = Inr 0 \<and> pr_err q = pr_err p
                       \<and> pr_out q = pr_out p @ started_text rt @ summary_text summary
                           @ concat (map source_text (sum_source_health summary))))))"
  using assms(2)
proof (cases rule: runtime_main.cases)
  case (begin_fails e)
  then show ?thesis by (auto simp: runtime_begin_eq split: if_splits sum.splits prod.splits)
next
  case (not_run code)
  have "mset (m_open (pr_machine q)) = mset (m_open (pr_machine p))"
    using runtime_begin_left [OF assms(1) not_run(2)] by (simp add: left_open_def)
  then show ?thesis
    using not_run by (auto simp: runtime_begin_eq newline_def split: if_splits sum.splits prod.splits)
next
  case (not_started rt u e)
  from begin_ran [OF not_started(1)] obtain config s t where
    "parse_runtime_config os args = Inr config" "new_runtime os config s = (Inr rt, t)" by blast
  from constructed_starts [OF this, where h = ignore_sample and u = "()" and m = "pr_machine u"] not_started(2)
  show ?thesis by simp
next
  case (ran rt u s0 as s outcome)
  let ?A = "mset (m_open (pr_machine p))"
  obtain config s1 t where b: "args \<noteq> [''--help'']" "parse_runtime_config os args = Inr config"
    "install_signal_handlers signal (pr_machine p) = (Inr True, s1)" "new_runtime os config s1 = (Inr rt, t)"
    "u = p\<lparr>pr_machine := t, pr_out := pr_out p @ started_text rt\<rparr>"
    using begin_ran [OF ran(1)] by blast
  have s0: "run_receiver s0 = rt_receiver rt" "run_machine s0 = pr_machine u" "run_main s0 = AtLoop"
    by (rule start_run_InrD [OF ran(2)]; simp)+
  have "owns_descriptors (run_receiver s0) ?A (run_machine s0)"
    using runtime_begin_left [OF assms(1) ran(1)] by (simp add: left_open_def s0)
  then have closed: "mset (m_open (destroy_receiver os (run_receiver s) (run_machine s))) = ?A"
    using run_owns [OF ran(3)] destroy_receiver_closes by blast
  have start: "start_run rt True (Some ignore_sample) () t = Inr s0" using ran(2) b(5) by simp
  let ?ran = "\<exists>s0 as v outcome. start_run rt True (Some ignore_sample) () t = Inr s0
       \<and> runtime_run os s0 as v \<and> list_all answers as \<and> run_main v = Finished outcome
       \<and> (case outcome of
           Inl e \<Rightarrow> Poll (Inl e) \<in> set as \<and> r = Inr 3 \<and> pr_out q = pr_out p @ started_text rt
             \<and> pr_err q = pr_err p @ ''runtime failed: '' @ exception_what error_text e @ newline
         | Inr summary \<Rightarrow> (\<forall>e. Poll (Inl e) \<notin> set as) \<and> summary_balanced summary
             \<and> r = Inr 0 \<and> pr_err q = pr_err p
             \<and> pr_out q = pr_out p @ started_text rt @ summary_text summary
                 @ concat (map source_text (sum_source_health summary)))"
  have "?ran \<and> prefix (pr_out p) (pr_out q) \<and> (\<exists>code. r = Inr code \<and> (code = 0 \<longleftrightarrow> pr_err q = pr_err p))
    \<and> pr_machine q = destroy_receiver os (run_receiver s) (run_machine s)"
  proof (cases outcome)
    case (Inl e)
    have "e \<noteq> Out_of_bounds" using run_defined [OF ran(3,4) s0(3)] ran(5) Inl by auto
    note ends = runtime_end_Inl [OF this ran(6) [unfolded Inl]]
    have "Poll (Inl e) \<in> set as"
      using threw_run [OF ran(3) s0(3), of e] ran(5) Inl answers_threw [OF ran(4)] by simp
    then have ?ran
      by (intro exI [of _ s0] exI [of _ as] exI [of _ s] exI [of _ outcome]) (simp add: start ran(3-5) Inl ends b(5))
    then show ?thesis by (simp add: ends b(5) newline_def)
  next
    case (Inr summary)
    note ends = runtime_end_Inr [OF ran(6) [unfolded Inr]]
    have "Poll (Inl e) \<notin> set as" for e
      using threw_unwinds [OF ran(3) s0(3), of e] ran(5) Inr answers_threw [OF ran(4)] by auto
    moreover have "summary_balanced summary"
      using finished_balanced [OF ran(2,3)] ran(5) Inr by blast
    ultimately have ?ran
      by (intro exI [of _ s0] exI [of _ as] exI [of _ s] exI [of _ outcome]) (simp add: start ran(3-5) Inr ends b(5))
    then show ?thesis by (simp add: ends b(5))
  qed
  then show ?thesis using b(1-4) closed by (simp only: if_False sum.case prod.case not_True_eq_False simp_thms)
qed

lemma runtime_main_exits_witness:
  "\<exists>q. runtime_main toy_os (\<lambda>_ w. (True, w)) (\<lambda>_. []) stop_args stop_shell (Inr 0) q
    \<and> mset (m_open (pr_machine q)) = {#} \<and> pr_err q = []"
proof -
  obtain rt u where b: "runtime_begin toy_os (\<lambda>_ w. (True, w)) (\<lambda>_. []) stop_args stop_shell = Some (Inr (Inr rt), u)"
    "rt_config rt = stop_config" using stop_begins by blast
  obtain s0 where s0: "start_run rt True (Some ignore_sample) () (pr_machine u) = Inr s0" "run_main s0 = AtLoop"
    "run_pipeline s0 = \<lparr>wp_queue_capacity = 1024, wp_queue = [], wp_accepting = True,
      wp_stop_requested = False, wp_metrics = zero_pipeline_metrics, wp_workers = [Ready],
      wp_pending_notify = 0, wp_stopper = NoStop\<rparr>"
    using stop_starts [OF b(2)] by blast
  obtain t where t: "exec_run toy_os s0 stop_actions = Some t" "run_main t = Stopping 7"
    "wp_stopper (run_pipeline t) = Joining" "all_exited (run_pipeline t)"
    using stop_runs [OF s0(2,3)] by blast
  note ret = run.run_more [OF exec_run_sound [OF t(1)]
      runtime_step.return_summary [OF t(2) pipeline_step.joined [OF t(3,4)]]]
  have ends: "\<exists>q. runtime_end os error_text r (Inr summary) p = Some (Inr 0, q)" for os error_text r summary p
    by (simp add: runtime_end_def close_runtime_def tool_try_def tool_bind_def)
  obtain q where q: "runtime_main toy_os (\<lambda>_ w. (True, w)) (\<lambda>_. []) stop_args stop_shell (Inr 0) q"
    using runtime_main.ran [OF b(1) s0(1) ret] ends by (fastforce simp: stop_actions_def)
  have "stop_args \<noteq> [''--help'']" by (simp add: stop_args_def)
  then show ?thesis
    using runtime_main_exits [OF toy_os_valid q] q by (auto simp: stop_shell_def)
qed

end
