(* ===== verification/Simulator_App.thy ===== *)
theory Simulator_App
  imports Console
begin

text \<open>
  \<open>src/apps/sensor_simulator_main.cpp\<close>: parse the arguments, install the stop handlers, run the
  simulator until it is done or a signal has set the flag that its stop predicate reads, and print
  the summary. The flag is part of the world the predicate of the host looks at.
\<close>

definition help_requested :: "string list \<Rightarrow> bool" where
  "help_requested args = list_ex (\<lambda>a. a = ''--help'') args"

definition text_lines :: "string list \<Rightarrow> string" where
  "text_lines ls = concat (map (\<lambda>l. l @ newline) ls)"

definition simulator_usage :: string where
  "simulator_usage = text_lines
     [''usage: driveflow_sensor_simulator --sensor <imu|gnss|camera> [options]'',
      [],
      ''options:'',
      ''  --destination <IPv4>           Destination address (default: 127.0.0.1)'',
      ''  --port <port>                  Destination port (default: 9000)'',
      ''  --rate-hz <frequency>          Override the sensor default rate'',
      ''  --count <packets>              Generated packet count (default: continuous)'',
      ''  --camera-extra-bytes <bytes>   Extra CameraMeta payload bytes (default: 0)'',
      ''  --drop-every <N>               Drop every Nth generated packet'',
      ''  --duplicate-every <N>          Duplicate every Nth generated packet'',
      ''  --reorder-every <N>            Send every Nth packet after its successor'',
      ''  --delay-every <N>              Delay every Nth generated packet'',
      ''  --delay-ms <milliseconds>      Delay duration; requires --delay-every'',
      ''  --corrupt-every <N>            Corrupt every Nth packet after CRC encoding'',
      ''  --help                         Show this help'']"

definition install_stop_handlers :: "'w signals \<Rightarrow> ('w, unit) io" where
  "install_stop_handlers signal =
     io_bind (install_signal_handlers signal) (\<lambda>installed.
     if \<not> installed then io_throw (Runtime_error ''failed to install stop signal handlers'')
     else io_return ())"

definition starting_text :: "simulator_config \<Rightarrow> string" where
  "starting_text config =
     ''starting '' @ simulator_sensor_name (sc_sensor_type config)
     @ '' simulator at '' @ double_text (sc_rate_hz config) @ '' Hz -> ''
     @ endpoint_text (sc_destination config) @ newline"

definition stopped_text :: "simulation_summary \<Rightarrow> string" where
  "stopped_text summary =
     ''stopped packets_generated='' @ unsigned_text (ss_packets_generated summary)
     @ '' packets_sent='' @ unsigned_text (ss_packets_sent summary)
     @ '' packets_dropped='' @ unsigned_text (ss_packets_dropped summary)
     @ '' duplicate_packets_sent='' @ unsigned_text (ss_duplicate_packets_sent summary)
     @ '' reorder_events='' @ unsigned_text (ss_reorder_events summary)
     @ '' delayed_packets='' @ unsigned_text (ss_delayed_packets summary)
     @ '' corrupted_packets_sent='' @ unsigned_text (ss_corrupted_packets_sent summary) @ newline"

definition simulator_body :: "nat \<Rightarrow> 'w host \<Rightarrow> 'w signals \<Rightarrow> simulator_config \<Rightarrow> ('w, int) tool" where
  "simulator_body fuel h signal config =
     tool_bind (tool_io (install_stop_handlers signal)) (\<lambda>_.
     tool_bind (print_out (starting_text config)) (\<lambda>_.
     tool_bind (tool_run (run_simulator fuel h True config)) (\<lambda>summary.
     tool_bind (print_out (stopped_text summary)) (\<lambda>_.
     tool_return 0))))"

definition sensor_simulator_main ::
  "nat \<Rightarrow> 'w host \<Rightarrow> 'w signals \<Rightarrow> (string \<Rightarrow> string) \<Rightarrow> string list \<Rightarrow> ('w, int) tool" where
  "sensor_simulator_main fuel h signal error_text args =
     (if help_requested args then tool_bind (print_out simulator_usage) (\<lambda>_. tool_return 0)
      else case parse_simulator_config (host_os h) args of
        Inl e \<Rightarrow>
          tool_bind (print_err (''configuration error: '' @ e @ newline @ newline @ simulator_usage)) (\<lambda>_.
          tool_return 1)
      | Inr config \<Rightarrow>
          tool_try (simulator_body fuel h signal config) (tool_failed ''simulator failed: '' error_text 2))"

end
