(* ===== verification/Simulator_App_Run.thy ===== *)
theory Simulator_App_Run
  imports Simulator_App Simulator_Returns
begin

text \<open>
  The simulator application: with a packet count it ends on a steady clock, with one outcome for all
  large enough fuel; the socket of the run is closed on every path; what it prints.
\<close>

section \<open>Runs that leave no descriptor open\<close>

definition run_neutral :: "('w, 'a) run \<Rightarrow> bool" where
  "run_neutral m \<longleftrightarrow> (\<forall>s r t. m s = Some (r, t) \<longrightarrow> m_open t = m_open s)"

named_theorems run_neutral_intros "runs without leaks"

lemma run_neutral_return [run_neutral_intros]: "run_neutral (run_return x)"
  by (simp add: run_neutral_def run_return_def)

lemma run_neutral_io [run_neutral_intros]: "fd_neutral m \<Longrightarrow> run_neutral (run_io m)"
  unfolding run_neutral_def run_io_def by (metis fd_neutralD option.inject snd_conv)

lemma run_neutral_bind [run_neutral_intros]:
  "run_neutral m \<Longrightarrow> (\<And>x. run_neutral (f x)) \<Longrightarrow> run_neutral (run_bind m f)"
  unfolding run_neutral_def run_bind_def by (fastforce split: option.splits sum.splits)

lemma run_neutral_if [run_neutral_intros]:
  "(c \<Longrightarrow> run_neutral m) \<Longrightarrow> (\<not> c \<Longrightarrow> run_neutral n) \<Longrightarrow> run_neutral (if c then m else n)"
  by simp

lemma run_neutral_pair [run_neutral_intros]:
  "(\<And>x y. run_neutral (f x y)) \<Longrightarrow> run_neutral (case z of (x, y) \<Rightarrow> f x y)"
  by (cases z) simp

lemma run_neutral_none [run_neutral_intros]: "run_neutral (\<lambda>s. None)"
  by (simp add: run_neutral_def)

lemma run_neutral_socket:
  assumes "opens_one m" "\<And>d. run_neutral (f d)"
  shows "run_neutral (run_bind (run_io m) (\<lambda>d. run_scoped os d (f d)))"
  unfolding run_neutral_def
proof (intro allI impI)
  fix s r t
  assume run: "run_bind (run_io m) (\<lambda>d. run_scoped os d (f d)) s = Some (r, t)"
  show "m_open t = m_open s"
  proof (cases "m s")
    case (Pair x u)
    then have o: "case x of Inl e \<Rightarrow> m_open u = m_open s | Inr d \<Rightarrow> 0 \<le> d \<and> m_open u = d # m_open s"
      using assms(1) [unfolded opens_one_def, rule_format, of s] by simp
    show ?thesis
    proof (cases x)
      case (Inl e)
      then show ?thesis using run o Pair by (auto simp: run_bind_def run_io_def)
    next
      case (Inr d)
      then have "run_scoped os d (f d) u = Some (r, t)" using run Pair by (simp add: run_bind_def run_io_def)
      then obtain v where v: "f d u = Some (r, v)" "t = io_close os d v"
        by (auto simp: run_scoped_def split: option.splits prod.splits)
      then have "m_open v = d # m_open s" "0 \<le> d"
        using assms(2) [of d] o Inr by (fastforce simp: run_neutral_def)+
      then show ?thesis by (simp add: v(2) io_close_def)
    qed
  qed
qed

text \<open>Every part of the simulator.\<close>

lemma host_calls_neutral [simp]:
  "fd_neutral (ask_stop h)" "fd_neutral (clock_now h)" "fd_neutral (sleep_until h d)"
  "fd_neutral (current_timestamp_ns h)"
  by (auto simp: fd_neutral_def ask_stop_def clock_now_def sleep_until_def current_timestamp_ns_def io_simps
      split: prod.split)

lemma send_to_neutral [simp]: "fd_neutral (send_to os d b e)"
  unfolding send_to_def by (auto split: sum.split)

lemma wait_neutral [run_neutral_intros]: "run_neutral (wait_until_or_stop fuel h d)"
proof (induction fuel)
  case (Suc fuel)
  show ?case unfolding wait_until_or_stop.simps by (intro run_neutral_intros Suc) simp_all
qed (simp add: run_neutral_none)

lemma send_packets_neutral [run_neutral_intros]: "run_neutral (send_packets fuel h d socket summary ps)"
proof (induction ps arbitrary: summary)
  case (Cons p ps)
  have "fd_neutral (send_copies h socket d p summary)" for summary
    unfolding send_copies_def Let_def by auto
  moreover have "run_neutral (delay_packet fuel h p summary)"
    unfolding delay_packet_def Let_def by (intro run_neutral_intros) simp_all
  ultimately show ?case unfolding send_packets.simps by (intro run_neutral_intros Cons) simp_all
qed (simp add: run_neutral_return)

lemma send_batch_neutral [run_neutral_intros]: "run_neutral (send_batch fuel h d socket batch summary)"
  unfolding send_batch_def by (intro run_neutral_intros)

lemma simulate_packet_neutral [run_neutral_intros]: "run_neutral (simulate_packet fuel h config socket sim)"
proof -
  have "fd_neutral (generate_packet h config n)" for n unfolding generate_packet_def Let_def by auto
  then show ?thesis unfolding simulate_packet_def Let_def by (intro run_neutral_intros) simp_all
qed

lemma simulation_loop_neutral [run_neutral_intros]:
  "run_neutral (simulation_loop rounds fuel h config socket period sim)"
proof (induction rounds arbitrary: sim)
  case (Suc rounds)
  show ?case unfolding simulation_loop.simps Let_def by (intro run_neutral_intros Suc) simp_all
qed (simp add: run_neutral_none)

lemma run_simulator_neutral:
  assumes "descriptors_valid (host_os h)"
  shows "run_neutral (run_simulator fuel h callable config)"
proof -
  have "run_neutral (finish_simulation fuel h config socket stopped sim)" for socket stopped sim
    unfolding finish_simulation_def by (intro run_neutral_intros) simp_all
  then show ?thesis
    unfolding run_simulator_def
    by (intro run_neutral_bind run_neutral_socket udp_open_opens [OF assms] run_neutral_intros) simp_all
qed

lemma install_returns: "\<exists>b. fst (install_signal_handlers signal s) = Inr b"
  by (cases "fst (signal SIGINT (m_world s))")
    (simp_all add: install_signal_handlers_def io_simps exI [of _ False])

section \<open>Properties\<close>

text \<open>C37. The simulator application, on a steady clock and given a command line with a packet count:
  it ends with the same outcome for every large enough fuel, leaves no descriptor open, and the
  outcome is exactly this. If the signal handlers cannot be installed, it exits with 2 and says so,
  and prints nothing. Otherwise it announces the run, and the run itself ends, in one way for all large
  enough fuel: with a summary, then the application prints it and exits with 0, the error stream
  untouched; or with an exception, then the application reports that exception and exits with 2; or in
  undefined behaviour (a command line with a tiny rate reaches it, since its period does not fit a
  duration), which no handler catches and for which nothing is promised.\<close>

theorem simulator_main_ends:
  assumes "steady h" "descriptors_valid (host_os h)" "\<not> help_requested args"
    and "parse_simulator_config (host_os h) args = Inr config" "sc_packet_count config = Some n"
    and installing: "install_signal_handlers signal (pr_machine p) = (installed, s)"
  shows "\<exists>fuel r q. (\<forall>fuel' \<ge> fuel. sensor_simulator_main fuel' h signal error_text args p = Some (r, q))
    \<and> m_open (pr_machine q) = m_open (pr_machine p)
    \<and> (if installed \<noteq> Inr True then r = Inr 2
         \<and> q = p\<lparr>pr_machine := s, pr_err := pr_err p @ ''simulator failed: failed to install stop signal handlers'' @ newline\<rparr>
       else \<exists>ran. (\<forall>fuel' \<ge> fuel. run_simulator fuel' h True config s = Some (ran, pr_machine q))
         \<and> (case ran of
              Inr summary \<Rightarrow> r = Inr 0 \<and> pr_err q = pr_err p
                \<and> pr_out q = pr_out p @ starting_text config @ stopped_text summary
            | Inl e \<Rightarrow> pr_out q = pr_out p @ starting_text config
                \<and> (if e = Out_of_bounds then r = Inl Out_of_bounds
                   else r = Inr 2 \<and> pr_err q = pr_err p @ ''simulator failed: '' @ exception_what error_text e @ newline)))"
proof -
  have s: "m_open s = m_open (pr_machine p)"
    using arg_cong [OF installing, of "\<lambda>x. m_open (snd x)"]
    by (simp add: install_signal_handlers_def io_simps split: if_splits)
  obtain b where b: "installed = Inr b"
    using install_returns [of signal "pr_machine p"] installing by auto
  have main: "sensor_simulator_main fuel h signal error_text args p
      = tool_try (simulator_body fuel h signal config) (tool_failed ''simulator failed: '' error_text 2) p" for fuel
    using assms(3,4) by (simp add: sensor_simulator_main_def)
  show ?thesis
  proof (cases b)
    case False
    let ?q = "p\<lparr>pr_machine := s, pr_err := pr_err p @ ''simulator failed: failed to install stop signal handlers'' @ newline\<rparr>"
    have "sensor_simulator_main fuel h signal error_text args p = Some (Inr 2, ?q)" for fuel
      using b False installing
      by (simp add: main simulator_body_def install_stop_handlers_def io_bind_eq tool_bind_def tool_try_def
          tool_failed_def exception_what_def)
    then show ?thesis using s b False by (intro exI [of _ 0] exI [of _ "Inr 2"] exI [of _ ?q]) simp
  next
    case True
    obtain fuel x t where run: "\<And>m. fuel \<le> m \<Longrightarrow> run_simulator m h True config s = Some (x, t)"
      using run_simulator_returns [OF assms(1,5), of True s] unfolding returns_def by (metis prod.exhaust)
    have t: "m_open t = m_open s"
      using run_simulator_neutral [OF assms(2)] run [of fuel] by (auto simp: run_neutral_def)
    let ?q = "p\<lparr>pr_machine := t, pr_out := pr_out p @ starting_text config
        @ (case x of Inl e \<Rightarrow> [] | Inr summary \<Rightarrow> stopped_text summary),
      pr_err := pr_err p @ (case x of Inl e \<Rightarrow> if e = Out_of_bounds then []
          else ''simulator failed: '' @ exception_what error_text e @ newline | Inr summary \<Rightarrow> [])\<rparr>"
    let ?r = "case x of Inl e \<Rightarrow> if e = Out_of_bounds then Inl Out_of_bounds else Inr 2 | Inr summary \<Rightarrow> Inr 0"
    have "sensor_simulator_main m h signal error_text args p = Some (?r, ?q)" if "fuel \<le> m" for m
      using b True run [OF that] installing
      by (simp add: main simulator_body_def install_stop_handlers_def io_bind_eq tool_bind_def tool_run_def
          tool_try_def tool_failed_def split: sum.split)
    then show ?thesis using s t b True run
      by (intro exI [of _ fuel] exI [of _ ?r] exI [of _ ?q]) (auto split: sum.split)
  qed
qed

text \<open>Two inertial samples, on the host of \<open>sim_host\<close>.\<close>

definition two_samples :: "string list" where
  "two_samples = [''--sensor'', ''imu'', ''--count'', ''2'']"

definition two_samples_config :: simulator_config where
  "two_samples_config = \<lparr>sc_sensor_type = kSensorImu,
     sc_destination = \<lparr>ep_address = ''127.0.0.1'', ep_port = 9000\<rparr>, sc_rate_hz = default_rate_hz kSensorImu,
     sc_packet_count = Some 2, sc_camera_extra_data_bytes = 0, sc_faults = no_faults\<rparr>"

definition sim_shell :: "sim_world shell" where
  "sim_shell = \<lparr>pr_machine = sim_start, pr_out = [], pr_err = []\<rparr>"

lemma two_samples_parse: "parse_simulator_config (host_os sim_host) two_samples = Inr two_samples_config"
proof -
  have "parse_whole uint64_max ''2'' = Some 2" by code_simp
  then show ?thesis
    by (simp add: two_samples_def parse_simulator_config_def apply_simulator_option_def
        initial_parse_state_def default_rate_good kSensorImu_def fail_if_def
        is_ipv4_address_def sim_host_def sim_os_def toy_pton_def c_str_def NUL_char_def
        two_samples_config_def Let_def kMaxCameraExtraDataSize_def kMaxPayloadSize_def kCameraMetaFixedPayloadSize_def)
qed

theorem simulator_main_ends_witness:
  "\<exists>fuel r q. sensor_simulator_main fuel sim_host (\<lambda>n w. (True, w)) id two_samples sim_shell = Some (r, q)
    \<and> sensor_simulator_main (fuel + 1000) sim_host (\<lambda>n w. (True, w)) id two_samples sim_shell = Some (r, q)
    \<and> m_open (pr_machine q) = [] \<and> prefix (starting_text two_samples_config) (pr_out q)"
proof -
  have os: "descriptors_valid (host_os sim_host)"
    by (simp add: sim_host_def sim_os_def descriptors_valid_def)
  have no_help: "\<not> help_requested two_samples" by code_simp
  have count: "sc_packet_count two_samples_config = Some 2" by (simp add: two_samples_config_def)
  have closed: "m_open (pr_machine sim_shell) = []" "pr_out sim_shell = []" by (simp_all add: sim_shell_def sim_start_def)
  have installed: "install_signal_handlers (\<lambda>n w. (True, w)) (pr_machine sim_shell) = (Inr True, pr_machine sim_shell)"
    by (simp add: install_signal_handlers_def io_simps)
  obtain fuel r q ran where e: "\<forall>m \<ge> fuel. sensor_simulator_main m sim_host (\<lambda>n w. (True, w)) id two_samples sim_shell = Some (r, q)"
    "m_open (pr_machine q) = []"
    "case ran of Inr summary \<Rightarrow> r = Inr 0 \<and> pr_err q = pr_err sim_shell
        \<and> pr_out q = pr_out sim_shell @ starting_text two_samples_config @ stopped_text summary
      | Inl e \<Rightarrow> pr_out q = pr_out sim_shell @ starting_text two_samples_config
        \<and> (if e = Out_of_bounds then r = Inl Out_of_bounds
           else r = Inr 2 \<and> pr_err q = pr_err sim_shell @ ''simulator failed: '' @ exception_what id e @ newline)"
    using simulator_main_ends [OF sim_host_steady os no_help two_samples_parse count installed, where error_text = id]
    unfolding closed(1) by auto
  have "prefix (starting_text two_samples_config) (pr_out q)"
    using e(3) by (cases ran) (simp_all add: closed(2))
  then show ?thesis
    using e(1,2) by (meson le_add1 order_refl)
qed

end
