(* ===== verification/Pipeline_Start.thy ===== *)
theory Pipeline_Start
  imports Worker_Pipeline
begin

text \<open>
  The body of the constructor \<open>WorkerPipeline::Impl::Impl\<close>: it reserves room for the workers and
  starts them one by one. A thread that has been started runs \<open>worker_loop\<close> while the next ones are
  being started. When a thread cannot be started, the constructor requests a stop, joins the workers
  it has started and rethrows.

  \<open>new_pipeline\<close> of the theory Worker_Pipeline has all workers from the beginning; the property of
  this theory says that it may: what a completed construction leaves is a state \<open>new_pipeline\<close>
  reaches by steps of its workers.

  Fields: \<open>cn_\<close>.
\<close>

section \<open>The constructor\<close>

text \<open>Where the constructing thread is: before \<open>reserve\<close>, in the loop, in the handler with the caught
  exception, returned, or left by an exception.\<close>

datatype build_phase =
    Reserving
  | Starting
  | Cleaning cpp_exception
  | Built
  | Build_failed cpp_exception

record construction =
  cn_worker_count :: nat
  cn_pipeline :: pipeline
  cn_phase :: build_phase

text \<open>The member initialisers, with their checks; no thread has been started.\<close>

definition begin_construction :: "pipeline_config \<Rightarrow> bool \<Rightarrow> construction cpp" where
  "begin_construction config has_processor =
     (case new_pipeline config has_processor of
        Inl e \<Rightarrow> Inl e
      | Inr s \<Rightarrow> Inr \<lparr>cn_worker_count = wc_worker_count config, cn_pipeline = s\<lparr>wp_workers := []\<rparr>,
                      cn_phase = Reserving\<rparr>)"

text \<open>\<open>workers_.emplace_back\<close> of a thread in \<open>worker_loop\<close>.\<close>

definition start_worker :: "pipeline \<Rightarrow> pipeline" where
  "start_worker s = s\<lparr>wp_workers := wp_workers s @ [Ready]\<rparr>"

datatype build_action =
    Reserve
  | ReserveFails cpp_exception
  | StartWorker
  | StartFails cpp_exception
  | Complete
  | Thread action
  | CleanupNotify
  | CleanupJoined

text \<open>What the threads of a pipeline nobody else has a reference to can do.\<close>

fun thread_action :: "action \<Rightarrow> bool" where
  "thread_action (Check i r) = True"
| "thread_action (Finish i p outcome) = True"
| "thread_action (Spurious i) = True"
| "thread_action _ = False"

text \<open>\<open>reserve\<close> stands before the \<open>try\<close>: nothing has to be cleaned up when it throws. In the handler,
  \<open>request_stop\<close> is a critical section followed by \<open>notify_all\<close>, and \<open>join_workers\<close> waits for the
  workers started so far.\<close>

inductive build_step :: "construction \<Rightarrow> build_action \<Rightarrow> construction \<Rightarrow> bool" where
  reserve: "cn_phase c = Reserving \<Longrightarrow> build_step c Reserve (c\<lparr>cn_phase := Starting\<rparr>)"
| reserve_fails: "cn_phase c = Reserving \<Longrightarrow>
     build_step c (ReserveFails e) (c\<lparr>cn_phase := Build_failed e\<rparr>)"
| start: "cn_phase c = Starting \<Longrightarrow> length (wp_workers (cn_pipeline c)) < cn_worker_count c \<Longrightarrow>
     build_step c StartWorker (c\<lparr>cn_pipeline := start_worker (cn_pipeline c)\<rparr>)"
| start_fails: "cn_phase c = Starting \<Longrightarrow> length (wp_workers (cn_pipeline c)) < cn_worker_count c \<Longrightarrow>
     build_step c (StartFails e) (c\<lparr>cn_pipeline := request_stop (cn_pipeline c), cn_phase := Cleaning e\<rparr>)"
| complete: "cn_phase c = Starting \<Longrightarrow> \<not> length (wp_workers (cn_pipeline c)) < cn_worker_count c \<Longrightarrow>
     build_step c Complete (c\<lparr>cn_phase := Built\<rparr>)"
| thread_step: "cn_phase c = Starting \<or> cn_phase c = Cleaning e \<Longrightarrow> thread_action a \<Longrightarrow>
     pipeline_step (cn_pipeline c) a t \<Longrightarrow> build_step c (Thread a) (c\<lparr>cn_pipeline := t\<rparr>)"
| cleanup_notify: "cn_phase c = Cleaning e \<Longrightarrow> pipeline_step (cn_pipeline c) NotifyAll t \<Longrightarrow>
     build_step c CleanupNotify (c\<lparr>cn_pipeline := t\<rparr>)"
| cleanup_joined: "cn_phase c = Cleaning e \<Longrightarrow> pipeline_step (cn_pipeline c) (StopReturn m) t \<Longrightarrow>
     build_step c CleanupJoined (c\<lparr>cn_pipeline := t, cn_phase := Build_failed e\<rparr>)"

abbreviation build_run :: "construction \<Rightarrow> build_action list \<Rightarrow> construction \<Rightarrow> bool" where
  "build_run \<equiv> run build_step"

text \<open>The steps of the threads in a run of the constructor.\<close>

fun thread_action_of :: "build_action \<Rightarrow> action list" where
  "thread_action_of (Thread a) = [a]" | "thread_action_of _ = []"

definition thread_actions :: "build_action list \<Rightarrow> action list" where
  "thread_actions as = concat (map thread_action_of as)"

section \<open>Invariant\<close>

definition idle_worker :: "worker_state \<Rightarrow> bool" where
  "idle_worker w \<longleftrightarrow> w = Ready \<or> w = Asleep"

text \<open>Nobody submits: the queue is empty and the threads only sleep or, after the stop, return.\<close>

definition build_ok :: "construction \<Rightarrow> bool" where
  "build_ok c \<longleftrightarrow>
     (let s = cn_pipeline c
      in wp_queue s = [] \<and> wp_metrics s = zero_pipeline_metrics \<and> wp_pending_notify s = 0
         \<and> length (wp_workers s) \<le> cn_worker_count c
         \<and> (case cn_phase c of
              Reserving \<Rightarrow> wp_workers s = [] \<and> \<not> wp_stop_requested s \<and> wp_stopper s = NoStop
            | Cleaning e \<Rightarrow> wp_stop_requested s \<and> wp_stopper s \<noteq> NoStop
                \<and> (\<forall>w \<in> set (wp_workers s). idle_worker w \<or> w = Exited)
                \<and> (Asleep \<in> set (wp_workers s) \<longrightarrow> wp_stopper s = BeforeNotifyAll)
            | Build_failed e \<Rightarrow> all_exited s
            | _ \<Rightarrow> \<not> wp_stop_requested s \<and> wp_stopper s = NoStop \<and> (\<forall>w \<in> set (wp_workers s). idle_worker w)))"

lemma begin_construction_ok: "begin_construction config b = Inr c \<Longrightarrow> build_ok c"
  by (cases "new_pipeline config b") (auto simp: begin_construction_def new_pipeline_def build_ok_def)

lemma thread_step_quiet:
  assumes "pipeline_step s a t" "thread_action a" "wp_queue s = []"
    and "\<forall>w \<in> set (wp_workers s). idle_worker w \<or> w = Exited"
  shows "wp_queue t = [] \<and> wp_metrics t = wp_metrics s \<and> wp_pending_notify t = wp_pending_notify s
    \<and> length (wp_workers t) = length (wp_workers s) \<and> wp_stop_requested t = wp_stop_requested s
    \<and> wp_stopper t = wp_stopper s \<and> taken_by a = []
    \<and> (\<forall>w \<in> set (wp_workers t). w \<in> set (wp_workers s) \<or> w = Ready
         \<or> (if wp_stop_requested s then w = Exited else w = Asleep))"
  using assms
proof (induction rule: pipeline_step.induct)
  case (check s i t r)
  then show ?case by (auto simp: worker_check_def split: if_splits dest: update_subset)
next
  case (finish s i p outcome)
  then have "Running p \<in> set (wp_workers s)" by (metis nth_mem)
  then show ?case using finish(4) by (auto simp: idle_worker_def)
next
  case (spurious s i)
  then show ?case by (auto dest: update_subset)
qed simp_all

lemma build_ok_step: "build_step c a d \<Longrightarrow> build_ok c \<Longrightarrow> build_ok d"
proof (induction rule: build_step.induct)
  case (thread_step c e a t)
  then have "\<forall>w \<in> set (wp_workers (cn_pipeline c)). idle_worker w \<or> w = Exited" "wp_queue (cn_pipeline c) = []"
    by (auto simp: build_ok_def Let_def)
  note quiet = thread_step_quiet [OF thread_step(3,2) this(2,1)]
  show ?case using thread_step(1,4) quiet
    by (auto simp: build_ok_def Let_def idle_worker_def) blast+
next
  case (cleanup_notify c e t)
  then show ?case
    by (auto simp: build_ok_def Let_def idle_worker_def notify_all_def elim!: pipeline_step.cases split: if_splits)
next
  case (cleanup_joined c e m t)
  then show ?case by (auto simp: build_ok_def Let_def all_exited_def elim!: pipeline_step.cases)
qed (auto simp: build_ok_def Let_def start_worker_def request_stop_def idle_worker_def all_exited_def)

lemma build_ok_run: "build_run c as d \<Longrightarrow> build_ok c \<Longrightarrow> build_ok d"
  by (erule run_invariant [where P = build_ok]) (auto intro: build_ok_step)

section \<open>Construction as a run of the finished pipeline\<close>

text \<open>The threads still to be started are threads that have not taken a step yet.\<close>

definition padded :: "construction \<Rightarrow> pipeline" where
  "padded c = (let s = cn_pipeline c
     in s\<lparr>wp_workers := wp_workers s @ replicate (cn_worker_count c - length (wp_workers s)) Ready\<rparr>)"

lemma thread_step_padded:
  assumes "pipeline_step s a t" "thread_action a"
  shows "length (wp_workers t) = length (wp_workers s)
    \<and> pipeline_step (s\<lparr>wp_workers := wp_workers s @ ws\<rparr>) a (t\<lparr>wp_workers := wp_workers t @ ws\<rparr>)"
  using assms
proof (induction rule: pipeline_step.induct)
  case (check s i t r)
  have t: "t = fst (worker_check s i)" "r = snd (worker_check s i)" using check(2) by simp_all
  have "length (wp_workers t) = length (wp_workers s)"
    "worker_check (s\<lparr>wp_workers := wp_workers s @ ws\<rparr>) i = (t\<lparr>wp_workers := wp_workers t @ ws\<rparr>, r)"
    using check(1) unfolding t
    by (auto simp: worker_check_def set_worker_def list_update_append split: list.splits)
  then show ?case using check(1) by (auto intro!: pipeline_step.check simp: nth_append)
next
  case (finish s i p outcome)
  have "worker_finish (s\<lparr>wp_workers := wp_workers s @ ws\<rparr>) i outcome
      = (worker_finish s i outcome)\<lparr>wp_workers := wp_workers (worker_finish s i outcome) @ ws\<rparr>"
    using finish(1) by (cases outcome) (auto simp: worker_finish_def set_worker_def Let_def list_update_append)
  moreover have "worker_at (s\<lparr>wp_workers := wp_workers s @ ws\<rparr>) i (Running p)"
    using finish(1) by (simp add: nth_append)
  ultimately show ?case
    using pipeline_step.finish [where s = "s\<lparr>wp_workers := wp_workers s @ ws\<rparr>" and i = i and p = p
        and outcome = outcome]
    by (simp add: worker_finish_def Let_def)
next
  case (spurious s i)
  then show ?case
    using pipeline_step.spurious [where s = "s\<lparr>wp_workers := wp_workers s @ ws\<rparr>" and i = i]
    by (simp add: set_worker_def list_update_append nth_append)
qed simp_all

definition simulates :: "pipeline \<Rightarrow> build_action list \<Rightarrow> construction \<Rightarrow> bool" where
  "simulates s0 as c \<longleftrightarrow>
     (cn_phase c = Reserving \<or> cn_phase c = Starting \<or> cn_phase c = Built
        \<longrightarrow> pipeline_run s0 (thread_actions as) (padded c))
     \<and> (cn_phase c = Built \<longrightarrow> \<not> length (wp_workers (cn_pipeline c)) < cn_worker_count c)"

lemma thread_actions_snoc [simp]: "thread_actions (as @ [a]) = thread_actions as @ thread_action_of a"
  by (simp add: thread_actions_def)

lemma simulates_start:
  assumes "new_pipeline config b = Inr s0" "begin_construction config b = Inr c"
  shows "simulates s0 [] c"
proof -
  have "padded c = s0" using assms by (auto simp: begin_construction_def new_pipeline_def padded_def)
  moreover have "cn_phase c = Reserving" using assms by (auto simp: begin_construction_def)
  ultimately show ?thesis by (simp add: simulates_def thread_actions_def)
qed

lemma simulates_step: "build_step c a d \<Longrightarrow> build_ok c \<Longrightarrow> simulates s0 as c \<Longrightarrow> simulates s0 (as @ [a]) d"
proof (induction rule: build_step.induct)
  case (start c)
  then have "padded (c\<lparr>cn_pipeline := start_worker (cn_pipeline c)\<rparr>) = padded c"
    by (simp add: padded_def Let_def start_worker_def flip: replicate_Suc Suc_diff_Suc)
  then show ?case using start by (simp add: simulates_def)
next
  case (thread_step c e a t)
  then show ?case
    using thread_step_padded [OF thread_step(3,2)]
    by (auto simp: simulates_def padded_def Let_def intro: run.run_more)
qed (auto simp: simulates_def padded_def Let_def)

lemma simulates_run:
  assumes "build_run c as d" "build_ok c" "simulates s0 [] c"
  shows "simulates s0 as d"
  using assms by (induction rule: run.induct) (auto intro: simulates_step build_ok_run)

section \<open>Failure\<close>

definition failed_with :: "build_action list \<Rightarrow> cpp_exception \<Rightarrow> bool" where
  "failed_with as e \<longleftrightarrow> ReserveFails e \<in> set as \<or> StartFails e \<in> set as"

lemma failure_step:
  "build_step c a d \<Longrightarrow> (cn_phase c = Cleaning e \<or> cn_phase c = Build_failed e \<longrightarrow> failed_with as e) \<Longrightarrow>
   cn_phase d = Cleaning e \<or> cn_phase d = Build_failed e \<longrightarrow> failed_with (as @ [a]) e"
  by (induction rule: build_step.induct) (auto simp: failed_with_def)

lemma failure_run:
  assumes "build_run c as d" "cn_phase c = Reserving"
  shows "cn_phase d = Cleaning e \<or> cn_phase d = Build_failed e \<longrightarrow> failed_with as e"
  using assms by (induction rule: run.induct) (simp, blast intro: failure_step [THEN mp])

lemma taken_step: "build_step c a d \<Longrightarrow> build_ok c \<Longrightarrow> taken (thread_action_of a) = []"
proof (induction rule: build_step.induct)
  case (thread_step c e a t)
  then have "\<forall>w \<in> set (wp_workers (cn_pipeline c)). idle_worker w \<or> w = Exited" "wp_queue (cn_pipeline c) = []"
    by (auto simp: build_ok_def Let_def)
  from thread_step_quiet [OF thread_step(3,2) this(2,1)] show ?case by (simp add: taken_def)
qed (simp_all add: taken_def)

lemma taken_run:
  assumes "build_run c as d" "build_ok c"
  shows "taken (thread_actions as) = []"
  using assms
proof (induction rule: run.induct)
  case (run_more c as d a u)
  then show ?case using taken_step [OF run_more(2) build_ok_run [OF run_more(1,4)]]
    by (simp add: taken_def)
qed (simp add: thread_actions_def taken_def)

text \<open>Cleaning up is bounded work.\<close>

definition cleaning :: "construction \<Rightarrow> bool" where
  "cleaning c \<longleftrightarrow> wp_stop_requested (cn_pipeline c)
     \<and> (\<exists>e. cn_phase c = Cleaning e \<or> cn_phase c = Build_failed e)"

lemma cleaning_step:
  assumes "build_step c a d" "cleaning c"
  shows "remaining_work (cn_pipeline d) < remaining_work (cn_pipeline c) \<and> cleaning d"
  using assms
proof (induction rule: build_step.induct)
  case (thread_step c e a t)
  then have "internal a" by (cases a) (auto simp: internal_def)
  then show ?case using work_decreases [OF thread_step(3)] thread_step by (auto simp: cleaning_def)
next
  case (cleanup_notify c e t)
  then show ?case using work_decreases [OF cleanup_notify(2)] by (auto simp: cleaning_def internal_def)
next
  case (cleanup_joined c e m t)
  then show ?case using work_decreases [OF cleanup_joined(2)] by (auto simp: cleaning_def internal_def)
qed (auto simp: cleaning_def)

lemma cleaning_bounded:
  assumes "build_run c as d" "cleaning c"
  shows "remaining_work (cn_pipeline d) + length as \<le> remaining_work (cn_pipeline c) \<and> cleaning d"
  using assms
proof (induction rule: run.induct)
  case (run_more c as d a u)
  then show ?case using cleaning_step [of d a u] by fastforce
qed simp

lemma cleaning_progress:
  assumes "build_ok c" "cn_phase c = Cleaning e"
  shows "\<exists>a d. build_step c a d \<and> (\<forall>i. a \<noteq> Thread (Spurious i))"
proof -
  let ?s = "cn_pipeline c"
  have ok: "wp_stopper ?s \<noteq> NoStop" "\<forall>w \<in> set (wp_workers ?s). idle_worker w \<or> w = Exited"
    "Asleep \<in> set (wp_workers ?s) \<longrightarrow> wp_stopper ?s = BeforeNotifyAll"
    using assms by (auto simp: build_ok_def Let_def)
  have exited: "all_exited ?s" if "Ready \<notin> set (wp_workers ?s)" "Asleep \<notin> set (wp_workers ?s)"
    using ok(2) that unfolding all_exited_def idle_worker_def by metis
  consider "wp_stopper ?s = BeforeNotifyAll" | "Ready \<in> set (wp_workers ?s)"
    | "wp_stopper ?s = Joining" "all_exited ?s"
    using ok(1,3) exited by (cases "wp_stopper ?s") auto
  then show ?thesis
  proof cases
    case 1
    then show ?thesis using assms(2) by (blast intro: build_step.cleanup_notify pipeline_step.notify_everybody)
  next
    case 2
    then obtain i where "worker_at ?s i Ready" by (auto simp: in_set_conv_nth)
    from pipeline_step.check [OF this prod.collapse [symmetric]] show ?thesis
      using assms(2) by (blast intro: build_step.thread_step thread_action.simps(1) [THEN iffD2, OF TrueI])
  next
    case 3
    then show ?thesis using assms(2) by (blast intro: build_step.cleanup_joined pipeline_step.joined)
  qed
qed

section \<open>Executing actions\<close>

fun exec_build :: "construction \<Rightarrow> build_action \<Rightarrow> construction option" where
  "exec_build c Reserve = (if cn_phase c = Reserving then Some (c\<lparr>cn_phase := Starting\<rparr>) else None)"
| "exec_build c (ReserveFails e) = (if cn_phase c = Reserving then Some (c\<lparr>cn_phase := Build_failed e\<rparr>) else None)"
| "exec_build c StartWorker =
     (if cn_phase c = Starting \<and> length (wp_workers (cn_pipeline c)) < cn_worker_count c
      then Some (c\<lparr>cn_pipeline := start_worker (cn_pipeline c)\<rparr>) else None)"
| "exec_build c (StartFails e) =
     (if cn_phase c = Starting \<and> length (wp_workers (cn_pipeline c)) < cn_worker_count c
      then Some (c\<lparr>cn_pipeline := request_stop (cn_pipeline c), cn_phase := Cleaning e\<rparr>) else None)"
| "exec_build c Complete =
     (if cn_phase c = Starting \<and> \<not> length (wp_workers (cn_pipeline c)) < cn_worker_count c
      then Some (c\<lparr>cn_phase := Built\<rparr>) else None)"
| "exec_build c (Thread a) =
     (if thread_action a \<and> (case cn_phase c of Starting \<Rightarrow> True | Cleaning e \<Rightarrow> True | _ \<Rightarrow> False)
      then map_option (\<lambda>t. c\<lparr>cn_pipeline := t\<rparr>) (exec_step (cn_pipeline c) a) else None)"
| "exec_build c CleanupNotify =
     (case cn_phase c of
        Cleaning e \<Rightarrow> map_option (\<lambda>t. c\<lparr>cn_pipeline := t\<rparr>) (exec_step (cn_pipeline c) NotifyAll)
      | _ \<Rightarrow> None)"
| "exec_build c CleanupJoined =
     (case cn_phase c of
        Cleaning e \<Rightarrow> map_option (\<lambda>t. c\<lparr>cn_pipeline := t, cn_phase := Build_failed e\<rparr>)
          (exec_step (cn_pipeline c) (StopReturn (wp_metrics (cn_pipeline c))))
      | _ \<Rightarrow> None)"

lemma build_step_exec: "exec_build c a = Some d \<Longrightarrow> build_step c a d"
  by (cases a) (auto split: if_splits build_phase.splits simp flip: pipeline_step_iff simp del: exec_step.simps
      intro: build_step.intros)

fun exec_builds :: "construction \<Rightarrow> build_action list \<Rightarrow> construction option" where
  "exec_builds c [] = Some c"
| "exec_builds c (a # as) = (case exec_build c a of None \<Rightarrow> None | Some d \<Rightarrow> exec_builds d as)"

lemma build_run_exec: "exec_builds c as = Some d \<Longrightarrow> build_run c as d"
proof (induction as arbitrary: c)
  case (Cons a as)
  then obtain u where "build_step c a u" "exec_builds u as = Some d"
    by (auto split: option.splits intro: build_step_exec)
  then have "build_run c ([a] @ as) d" using Cons.IH by (blast intro: run_append run_one)
  then show ?case by simp
qed simp

text \<open>Two workers are asked for; the second cannot be started while the first is asleep.\<close>

definition failing_start :: "build_action list" where
  "failing_start = [Reserve, StartWorker, Thread (Check 0 Slept), StartFails (Runtime_error ''thread''),
     CleanupNotify, Thread (Check 0 Left), CleanupJoined]"

definition two_workers :: pipeline_config where
  "two_workers = \<lparr>wc_worker_count = 2, wc_queue_capacity = 1\<rparr>"

definition unstarted :: construction where
  "unstarted = (case begin_construction two_workers True of Inr c \<Rightarrow> c)"

lemma begin_two_workers: "begin_construction two_workers True = Inr unstarted"
  by (simp add: unstarted_def begin_construction_def new_pipeline_def two_workers_def)

section \<open>Properties\<close>

text \<open>C22. A pipeline is constructed completely or not at all, however the constructing thread and the
  workers started so far interleave. A construction that completes leaves a state that a pipeline whose
  workers all exist from the start reaches by steps of its workers, so every property of pipeline runs
  holds of what follows. One that fails does so with the exception of the failing allocation or thread
  start; every worker started before has returned and none has taken a packet. The constructor is never
  stuck: while it starts threads its own next step is possible, and once it cleans up, some step other
  than a spurious wake-up is, and at most \<open>remaining_work\<close> steps remain.\<close>

theorem construction_all_or_nothing:
  assumes "begin_construction config b = Inr c0" and "build_run c0 as c"
  shows "(cn_phase c = Built \<longrightarrow> (\<exists>s0. new_pipeline config b = Inr s0
           \<and> pipeline_run s0 (thread_actions as) (cn_pipeline c)))
    \<and> (cn_phase c = Build_failed e \<longrightarrow> failed_with as e \<and> all_exited (cn_pipeline c)
           \<and> taken (thread_actions as) = [] \<and> wp_metrics (cn_pipeline c) = zero_pipeline_metrics)
    \<and> (cn_phase c = Reserving \<or> cn_phase c = Starting \<longrightarrow>
           (\<exists>a d. build_step c a d \<and> (a = Reserve \<or> a = StartWorker \<or> a = Complete)))
    \<and> (cn_phase c = Cleaning e \<longrightarrow> failed_with as e
           \<and> (\<exists>a d. build_step c a d \<and> (\<forall>i. a \<noteq> Thread (Spurious i)))
           \<and> (build_run c bs d \<longrightarrow> length bs \<le> remaining_work (cn_pipeline c)))"
proof -
  obtain s0 where s0: "new_pipeline config b = Inr s0" and start: "cn_phase c0 = Reserving"
    using assms(1) by (auto simp: begin_construction_def split: sum.splits)
  note ok0 = begin_construction_ok [OF assms(1)]
  note ok = build_ok_run [OF assms(2) ok0]
  note sim = simulates_run [OF assms(2) ok0 simulates_start [OF s0 assms(1)]]
  note failed = failure_run [OF assms(2) start, of e]
  have "padded c = cn_pipeline c" if "cn_phase c = Built"
    using sim that by (simp add: simulates_def padded_def Let_def)
  then have "pipeline_run s0 (thread_actions as) (cn_pipeline c)" if "cn_phase c = Built"
    using sim that by (simp add: simulates_def)
  moreover have "length bs \<le> remaining_work (cn_pipeline c)" if "cn_phase c = Cleaning e" "build_run c bs d"
    using cleaning_bounded [OF that(2)] ok that(1) by (simp add: cleaning_def build_ok_def Let_def)
  moreover have "\<exists>a d. build_step c a d \<and> (a = Reserve \<or> a = StartWorker \<or> a = Complete)"
    if "cn_phase c = Reserving \<or> cn_phase c = Starting"
    using that build_step.reserve [of c] build_step.start [of c] build_step.complete [of c] by blast
  moreover have "all_exited (cn_pipeline c) \<and> wp_metrics (cn_pipeline c) = zero_pipeline_metrics"
    if "cn_phase c = Build_failed e"
    using ok that by (simp add: build_ok_def Let_def)
  ultimately show ?thesis
    using s0 failed taken_run [OF assms(2) ok0] cleaning_progress [OF ok, of e] by blast
qed

theorem construction_all_or_nothing_witness:
  "\<exists>c. exec_builds unstarted failing_start = Some c \<and> cn_phase c = Build_failed (Runtime_error ''thread'')
    \<and> failed_with failing_start (Runtime_error ''thread'') \<and> all_exited (cn_pipeline c)
    \<and> length (wp_workers (cn_pipeline c)) = 1"
proof -
  have "map_option (\<lambda>c. (cn_phase c, length (wp_workers (cn_pipeline c)))) (exec_builds unstarted failing_start)
      = Some (Build_failed (Runtime_error ''thread''), 1)"
    by code_simp
  then obtain c where c: "exec_builds unstarted failing_start = Some c"
    "cn_phase c = Build_failed (Runtime_error ''thread'')" "length (wp_workers (cn_pipeline c)) = 1"
    by auto
  from construction_all_or_nothing [OF begin_two_workers build_run_exec [OF c(1)]] c show ?thesis by blast
qed

end
