(* ===== verification/Processor_Threads.thy ===== *)
theory Processor_Threads
  imports Sample_Processor Worker_Pipeline
begin

text \<open>
  Concurrent calls of \<open>SensorSampleProcessor::process\<close> (\<open>src/src/runtime/sensor_sample_processor.cpp\<close>).
  The counters are atomics, increased one at a time while other calls run; there is no lock. A call is
  at a program point between two accesses to shared state, and every access is a step: a \<open>fetch_add\<close>,
  or the call of the handler, which synchronises its own state. Any number of calls may be active.

  \<open>process\<close> of the theory Sample_Processor, and \<open>call_process\<close> of the theory Runtime, take a whole call
  as one step. The property of this theory is that they may: concurrent calls are linearizable, in the
  order in which they return.
\<close>

section \<open>Calls\<close>

text \<open>Program points: before the first counter; before decoding; before the counter of rejections;
  before the counters of a decoded sample and of its type; before the handler; returned.\<close>

datatype call_state =
    Entered
  | Examined
  | Rejected sensor_payload_error
  | Sampled sensor_sample
  | Counted sensor_sample
  | Typed sensor_sample
  | Faulted cpp_exception
  | Finished process_result

record call =
  cl_packet :: received_packet
  cl_state :: call_state

record 'u calls =
  ca_processor :: "'u processor"
  ca_calls :: "call list"

definition update_metrics :: "(processor_metrics \<Rightarrow> processor_metrics) \<Rightarrow> 'u processor \<Rightarrow> 'u processor" where
  "update_metrics f st = st\<lparr>spr_metrics := f (spr_metrics st)\<rparr>"

definition count_examined :: "processor_metrics \<Rightarrow> processor_metrics" where
  "count_examined m = m\<lparr>pm_packets_examined := pm_packets_examined m + 1\<rparr>"

definition count_rejected :: "processor_metrics \<Rightarrow> processor_metrics" where
  "count_rejected m = m\<lparr>pm_payloads_rejected := pm_payloads_rejected m + 1\<rparr>"

definition count_decoded :: "processor_metrics \<Rightarrow> processor_metrics" where
  "count_decoded m = m\<lparr>pm_samples_decoded := pm_samples_decoded m + 1\<rparr>"

definition decode_received :: "received_packet \<Rightarrow> decode_sensor_payload_result cpp" where
  "decode_received p = decode_sensor_payload (hdr_message_type (pkt_header (rp_packet p))) (pkt_payload (rp_packet p))"

text \<open>The next access of a call.\<close>

fun advance :: "'u processor \<Rightarrow> received_packet \<Rightarrow> call_state \<Rightarrow> ('u processor \<times> call_state) option" where
  "advance st p Entered = Some (update_metrics count_examined st, Examined)"
| "advance st p Examined = Some (st,
     case decode_received p of
       Inl e \<Rightarrow> Faulted e
     | Inr decoded \<Rightarrow>
         (case dsp_payload decoded of
            None \<Rightarrow> Rejected (dsp_error decoded)
          | Some payload \<Rightarrow> Sampled (make_sample p payload)))"
| "advance st p (Rejected e) = Some (update_metrics count_rejected st, Finished (Processed e))"
| "advance st p (Sampled s) = Some (update_metrics count_decoded st, Counted s)"
| "advance st p (Counted s) =
     Some (update_metrics (count_sample_type (message_type_of (ss_payload s))) st, Typed s)"
| "advance st p (Typed s) =
     (let (user, result) = spr_handler st (spr_user st) s
      in Some (st\<lparr>spr_user := user\<rparr>,
               Finished (case result of Returned \<Rightarrow> Processed PayloadNone | Threw \<Rightarrow> Propagated)))"
| "advance st p (Faulted e) = None"
| "advance st p (Finished r) = None"

datatype call_action =
    Call received_packet
  | Access nat
  | Return nat process_result

definition set_call :: "'u calls \<Rightarrow> nat \<Rightarrow> 'u processor \<Rightarrow> call_state \<Rightarrow> 'u calls" where
  "set_call s i st c = s\<lparr>ca_processor := st, ca_calls := (ca_calls s)[i := (ca_calls s ! i)\<lparr>cl_state := c\<rparr>]\<rparr>"

fun call_label :: "nat \<Rightarrow> call_state \<Rightarrow> call_action" where
  "call_label i (Finished r) = Return i r" | "call_label i _ = Access i"

inductive call_step :: "'u calls \<Rightarrow> call_action \<Rightarrow> 'u calls \<Rightarrow> bool" where
  enter: "call_step s (Call p) (s\<lparr>ca_calls := ca_calls s @ [\<lparr>cl_packet = p, cl_state = Entered\<rparr>]\<rparr>)"
| access: "i < length (ca_calls s) \<Longrightarrow>
     advance (ca_processor s) (cl_packet (ca_calls s ! i)) (cl_state (ca_calls s ! i)) = Some (st, c) \<Longrightarrow>
     call_step s (call_label i c) (set_call s i st c)"

abbreviation call_run :: "'u calls \<Rightarrow> call_action list \<Rightarrow> 'u calls \<Rightarrow> bool" where
  "call_run \<equiv> run call_step"

definition idle :: "'u processor \<Rightarrow> 'u calls" where
  "idle st = \<lparr>ca_processor = st, ca_calls = []\<rparr>"

text \<open>What happened, in order: the packets of the calls, and the results with the numbers of the calls.\<close>

fun called_by :: "call_action \<Rightarrow> received_packet list" where
  "called_by (Call p) = [p]" | "called_by _ = []"

fun returned_by :: "call_action \<Rightarrow> (nat \<times> process_result) list" where
  "returned_by (Return i r) = [(i, r)]" | "returned_by _ = []"

definition called :: "call_action list \<Rightarrow> received_packet list" where
  "called as = concat (map called_by as)"

definition returned :: "call_action list \<Rightarrow> (nat \<times> process_result) list" where
  "returned as = concat (map returned_by as)"

lemma call_trace_snoc [simp]:
  "called (as @ [a]) = called as @ called_by a" "returned (as @ [a]) = returned as @ returned_by a"
  by (simp_all add: called_def returned_def)

lemma call_label_traces [simp]:
  "called_by (call_label i c) = []"
  "returned_by (call_label i c) = (case c of Finished r \<Rightarrow> [(i, r)] | _ \<Rightarrow> [])"
  by (cases c; simp)+

section \<open>Counters\<close>

datatype counter = CExamined | CDecoded | CRejected | CImu | CGnss | CCamera

fun counter_value :: "counter \<Rightarrow> processor_metrics \<Rightarrow> u64" where
  "counter_value CExamined m = pm_packets_examined m"
| "counter_value CDecoded m = pm_samples_decoded m"
| "counter_value CRejected m = pm_payloads_rejected m"
| "counter_value CImu m = pm_imu_samples m"
| "counter_value CGnss m = pm_gnss_samples m"
| "counter_value CCamera m = pm_camera_meta_samples m"

lemma metrics_eqI: "(\<And>k. counter_value k m = counter_value k n) \<Longrightarrow> (m :: processor_metrics) = n"
  by (metis counter_value.simps processor_metrics.equality unit_eq)

definition type_counter :: "message_type \<Rightarrow> counter" where
  "type_counter t = (if t = kImu then CImu else if t = kGnss then CGnss else CCamera)"

text \<open>What a call that has not returned has already counted.\<close>

fun counted :: "call_state \<Rightarrow> counter \<Rightarrow> nat" where
  "counted Entered k = 0"
| "counted Examined k = of_bool (k = CExamined)"
| "counted (Rejected e) k = of_bool (k = CExamined)"
| "counted (Sampled s) k = of_bool (k = CExamined)"
| "counted (Counted s) k = of_bool (k = CExamined) + of_bool (k = CDecoded)"
| "counted (Typed s) k = of_bool (k = CExamined) + of_bool (k = CDecoded)
     + of_bool (k = type_counter (message_type_of (ss_payload s)))"
| "counted (Faulted e) k = 0"
| "counted (Finished r) k = 0"

definition pending :: "call list \<Rightarrow> counter \<Rightarrow> nat" where
  "pending cs k = sum_list (map (\<lambda>c. counted (cl_state c) k) cs)"

lemma pending_append [simp]: "pending (cs @ ds) k = pending cs k + pending ds k"
  by (simp add: pending_def)

lemma pending_update:
  "i < length cs \<Longrightarrow> pending (cs[i := (cs ! i)\<lparr>cl_state := c\<rparr>]) k + counted (cl_state (cs ! i)) k
     = pending cs k + counted c k"
  unfolding pending_def
proof (induction cs arbitrary: i)
  case (Cons d cs)
  then show ?case by (cases i) auto
qed simp

text \<open>What a program point knows of its packet.\<close>

fun call_ok :: "received_packet \<Rightarrow> call_state \<Rightarrow> bool" where
  "call_ok p (Rejected e) = (\<exists>decoded. decode_received p = Inr decoded \<and> dsp_payload decoded = None \<and> dsp_error decoded = e)"
| "call_ok p (Sampled s) = (sample_of p = Some s)"
| "call_ok p (Counted s) = (sample_of p = Some s)"
| "call_ok p (Typed s) = (sample_of p = Some s)"
| "call_ok p (Faulted e) = False"
| "call_ok p _ = True"

lemma decode_received_returns [simp]: "decode_received p \<noteq> Inl e"
  using decode_payload_returns [of "hdr_message_type (pkt_header (rp_packet p))" "pkt_payload (rp_packet p)"]
  by (auto simp: decode_received_def)

lemma advance_ok: "call_ok p c \<Longrightarrow> advance st p c = Some (st', c') \<Longrightarrow> call_ok p c'"
proof (cases c)
  case Examined
  assume "advance st p c = Some (st', c')"
  moreover obtain r where "decode_received p = Inr r"
    using decode_payload_returns by (auto simp: decode_received_def)
  ultimately show ?thesis using Examined
    by (auto simp: sample_of_def decode_received_def split: option.splits)
qed (auto simp: Let_def split: prod.splits)

text \<open>The step that returns does the rest of the call, given what the call has already counted.\<close>

lemma process_Rejected:
  assumes "call_ok p (Rejected e)"
  shows "process st p = Inr (update_metrics count_rejected (update_metrics count_examined st), Processed e)"
  using assms by (auto simp: process_def decode_received_def update_metrics_def count_rejected_def
      count_examined_def Let_def)

lemma process_Typed:
  assumes "sample_of p = Some s"
  shows "process st p = Inr ((update_metrics (count_sample_type (message_type_of (ss_payload s)))
      (update_metrics count_decoded (update_metrics count_examined st)))\<lparr>spr_user := fst (spr_handler st (spr_user st) s)\<rparr>,
    case snd (spr_handler st (spr_user st) s) of Returned \<Rightarrow> Processed PayloadNone | Threw \<Rightarrow> Propagated)"
  by (simp add: process_accepts [OF assms] update_metrics_def count_decoded_def count_examined_def)

lemma counters [simp]:
  "counter_value k (count_examined m) = counter_value k m + of_bool (k = CExamined)"
  "counter_value k (count_rejected m) = counter_value k m + of_bool (k = CRejected)"
  "counter_value k (count_decoded m) = counter_value k m + of_bool (k = CDecoded)"
  by (cases k; simp add: count_examined_def count_rejected_def count_decoded_def)+

lemma counter_of_type [simp]:
  "counter_value k (count_sample_type (message_type_of x) m)
     = counter_value k m + of_bool (k = type_counter (message_type_of x))"
  using message_type_of_cases [of x]
  by (cases k) (auto simp: count_sample_type_def type_counter_def kImu_def kGnss_def kCameraMeta_def)

declare counter_value.simps [simp del]

lemma update_metrics_fields [simp]:
  "spr_metrics (update_metrics f st) = f (spr_metrics st)" "spr_user (update_metrics f st) = spr_user st"
  "spr_handler (update_metrics f st) = spr_handler st"
  by (simp_all add: update_metrics_def)

section \<open>Linearization\<close>

lemma process_all_then:
  "process_all st ps = Inr (st', rs) \<Longrightarrow> process st' p = Inr (st'', r) \<Longrightarrow>
   process_all st (ps @ [p]) = Inr (st'', rs @ [r])"
  by (simp add: process_all_snoc)

text \<open>The packets of the calls that have returned, in the order of returning.\<close>

definition returned_packets :: "call_action list \<Rightarrow> received_packet list" where
  "returned_packets as = map (\<lambda>x. called as ! fst x) (returned as)"

definition linearized :: "'u processor \<Rightarrow> call_action list \<Rightarrow> 'u calls \<Rightarrow> 'u processor \<Rightarrow> bool" where
  "linearized st0 as s st \<longleftrightarrow>
     map cl_packet (ca_calls s) = called as
     \<and> (\<forall>c \<in> set (ca_calls s). call_ok (cl_packet c) (cl_state c))
     \<and> distinct (map fst (returned as))
     \<and> set (returned as) = {(i, r). i < length (ca_calls s) \<and> cl_state (ca_calls s ! i) = Finished r}
     \<and> process_all st0 (returned_packets as) = Inr (st, map snd (returned as))
     \<and> spr_user (ca_processor s) = spr_user st \<and> spr_handler (ca_processor s) = spr_handler st
     \<and> (\<forall>k. counter_value k (spr_metrics (ca_processor s))
          = counter_value k (spr_metrics st) + of_nat (pending (ca_calls s) k))"

lemma linearized_start: "linearized st [] (idle st) st"
  by (simp add: linearized_def idle_def called_def returned_def returned_packets_def pending_def)

lemma returned_packets_enter:
  assumes "\<forall>i \<in> set (map fst (returned as)). i < length (called as)"
  shows "returned_packets (as @ [Call p]) = returned_packets as"
  using assms by (auto simp: returned_packets_def nth_append)

lemma linearized_enter:
  assumes "linearized st0 as s st"
  shows "linearized st0 (as @ [Call p]) (s\<lparr>ca_calls := ca_calls s @ [\<lparr>cl_packet = p, cl_state = Entered\<rparr>]\<rparr>) st"
proof -
  have "length (called as) = length (ca_calls s)" using assms by (metis linearized_def length_map)
  moreover have "\<forall>i \<in> set (map fst (returned as)). i < length (ca_calls s)"
    using assms unfolding linearized_def by auto
  ultimately have "returned_packets (as @ [Call p]) = returned_packets as"
    by (simp add: returned_packets_enter)
  then show ?thesis
    using assms by (auto simp: linearized_def pending_def nth_append less_Suc_eq)
qed

text \<open>An access that does not return changes what the call has counted, and nothing else.\<close>

lemma advance_access:
  assumes "advance st p c = Some (st', c')" "\<forall>r. c' \<noteq> Finished r" "call_ok p c"
  shows "(\<forall>r. c \<noteq> Finished r) \<and> spr_user st' = spr_user st \<and> spr_handler st' = spr_handler st
    \<and> counter_value k (spr_metrics st') + of_nat (counted c k) = counter_value k (spr_metrics st) + of_nat (counted c' k)"
  using assms by (cases c) (auto split: prod.splits sum.splits option.splits)

lemma advance_return:
  assumes "advance st p c = Some (st', Finished r)" "call_ok p c"
    and "spr_user st = spr_user sq" "spr_handler st = spr_handler sq"
  obtains sq' where "process sq p = Inr (sq', r)" "spr_user st' = spr_user sq'" "spr_handler st' = spr_handler sq'"
    "\<And>k. counter_value k (spr_metrics st') + counter_value k (spr_metrics sq) + of_nat (counted c k)
       = counter_value k (spr_metrics st) + counter_value k (spr_metrics sq')"
    "\<forall>r. c \<noteq> Finished r"
proof (cases c)
  case (Rejected e)
  then show ?thesis using that [of "update_metrics count_rejected (update_metrics count_examined sq)"]
      process_Rejected [of p e sq] assms by auto
next
  case (Typed s)
  then have "sample_of p = Some s" using assms(2) by simp
  from process_Typed [OF this, of sq] show ?thesis
    using that assms Typed by (auto simp: case_prod_beta)
qed (use assms in \<open>auto split: sum.splits option.splits\<close>)

lemma cancel_pending:
  "a + x = b + p + y \<Longrightarrow> p' + x = p + y \<Longrightarrow> a = b + (p' :: u64)"
  by (metis (no_types, lifting) add.assoc add_right_cancel)

lemma cancel_pending':
  "a + b + x = b + p + d \<Longrightarrow> p' + x = p \<Longrightarrow> a = d + (p' :: u64)"
  by (metis (no_types, lifting) add.assoc add.commute add_right_cancel)

lemma linearized_access:
  assumes lin: "linearized st0 as s st" and i: "i < length (ca_calls s)"
    and adv: "advance (ca_processor s) (cl_packet (ca_calls s ! i)) (cl_state (ca_calls s ! i)) = Some (st', c)"
  shows "\<exists>sq. linearized st0 (as @ [call_label i c]) (set_call s i st' c) sq"
proof -
  let ?p = "cl_packet (ca_calls s ! i)" and ?c = "cl_state (ca_calls s ! i)"
  let ?cs = "(ca_calls s)[i := (ca_calls s ! i)\<lparr>cl_state := c\<rparr>]"
  have ok: "call_ok ?p ?c" using lin i by (auto simp: linearized_def)
  have packets: "map cl_packet ?cs = map cl_packet (ca_calls s)" by (simp add: map_update list_update_same_conv i)
  have oks: "\<forall>d \<in> set ?cs. call_ok (cl_packet d) (cl_state d)"
    using lin advance_ok [OF ok adv] by (auto simp: linearized_def dest!: update_subset)
  have proc: "spr_user (ca_processor s) = spr_user st" "spr_handler (ca_processor s) = spr_handler st"
    "\<And>k. counter_value k (spr_metrics (ca_processor s)) = counter_value k (spr_metrics st) + of_nat (pending (ca_calls s) k)"
    using lin by (auto simp: linearized_def)
  have pend: "(of_nat (pending ?cs k) + of_nat (counted ?c k) :: u64) = of_nat (pending (ca_calls s) k) + of_nat (counted c k)" for k
    using arg_cong [OF pending_update [OF i, of c k], of "of_nat :: nat \<Rightarrow> u64"] by simp
  show ?thesis
  proof (cases "\<exists>r. c = Finished r")
    case False
    note same = advance_access [OF adv _ ok, of k for k]
    have c: "\<forall>r. ?c \<noteq> Finished r" and user: "spr_user st' = spr_user st" "spr_handler st' = spr_handler st"
      using same False proc by auto
    have "counter_value k (spr_metrics st') = counter_value k (spr_metrics st) + of_nat (pending ?cs k)" for k
    proof (rule cancel_pending)
      show "counter_value k (spr_metrics st') + of_nat (counted ?c k)
          = counter_value k (spr_metrics st) + of_nat (pending (ca_calls s) k) + of_nat (counted c k)"
        using same [of k] False proc(3) [of k] by simp
      show "(of_nat (pending ?cs k) + of_nat (counted ?c k) :: u64) = of_nat (pending (ca_calls s) k) + of_nat (counted c k)"
        by (rule pend)
    qed
    moreover have "returned_packets (as @ [call_label i c]) = returned_packets as" "returned_by (call_label i c) = []"
      using False by (auto simp: returned_packets_def split: call_state.splits)
    moreover have "{(j, r). j < length ?cs \<and> cl_state (?cs ! j) = Finished r}
        = {(j, r). j < length (ca_calls s) \<and> cl_state (ca_calls s ! j) = Finished r}"
      using c False i by (auto simp: nth_list_update split: if_splits)
    ultimately have "linearized st0 (as @ [call_label i c]) (set_call s i st' c) st"
      using lin user packets oks by (simp add: linearized_def set_call_def)
    then show ?thesis by blast
  next
    case True
    then obtain r where r: "c = Finished r" by blast
    obtain sq where sq: "process st ?p = Inr (sq, r)" "spr_user st' = spr_user sq" "spr_handler st' = spr_handler sq"
      "\<And>k. counter_value k (spr_metrics st') + counter_value k (spr_metrics st) + of_nat (counted ?c k)
         = counter_value k (spr_metrics (ca_processor s)) + counter_value k (spr_metrics sq)"
      "\<forall>r. ?c \<noteq> Finished r"
      using advance_return [OF adv [unfolded r] ok proc(1,2)] by blast
    have "counter_value k (spr_metrics st') = counter_value k (spr_metrics sq) + of_nat (pending ?cs k)" for k
    proof (rule cancel_pending')
      show "counter_value k (spr_metrics st') + counter_value k (spr_metrics st) + of_nat (counted ?c k)
          = counter_value k (spr_metrics st) + of_nat (pending (ca_calls s) k) + counter_value k (spr_metrics sq)"
        using sq(4) [of k] proc(3) [of k] by simp
      show "(of_nat (pending ?cs k) + of_nat (counted ?c k) :: u64) = of_nat (pending (ca_calls s) k)"
        using pend [of k] by (simp add: r)
    qed
    moreover have "called as = map cl_packet (ca_calls s)" using lin by (simp add: linearized_def)
    then have "called as ! i = ?p" using i by simp
    then have "returned_packets (as @ [call_label i c]) = returned_packets as @ [?p]"
      by (simp add: returned_packets_def r)
    moreover have "i \<notin> set (map fst (returned as))" using lin sq(5) unfolding linearized_def by auto
    moreover have "{(j, q). j < length ?cs \<and> cl_state (?cs ! j) = Finished q}
        = insert (i, r) {(j, q). j < length (ca_calls s) \<and> cl_state (ca_calls s ! j) = Finished q}"
      using i sq(5) by (auto simp: nth_list_update r split: if_splits)
    ultimately have "linearized st0 (as @ [call_label i c]) (set_call s i st' c) sq"
      using lin sq packets oks process_all_then [OF _ sq(1)] by (simp add: linearized_def set_call_def r)
    then show ?thesis by blast
  qed
qed

lemma linearized_run:
  assumes "call_run (idle st) as s"
  shows "\<exists>sq. linearized st as s sq"
  using assms
proof (induction "idle st" as s rule: run.induct)
  case run_start
  show ?case using linearized_start by blast
next
  case (run_more as s a t)
  then obtain sq where "linearized st as s sq" by blast
  with run_more(3) show ?case
    by (cases rule: call_step.cases) (auto intro: linearized_enter linearized_access)
qed

text \<open>Counters only grow, by at most one for each step.\<close>

lemma counter_step:
  assumes "call_step s a t"
  shows "\<exists>n \<le> 1. counter_value k (spr_metrics (ca_processor t)) = counter_value k (spr_metrics (ca_processor s)) + of_nat n"
  using assms
proof (cases rule: call_step.cases)
  case (access i st c)
  have grow: "\<exists>n \<le> 1. x + of_bool b = x + of_nat n" for x :: u64 and b
    by (intro exI [of _ "of_bool b"]) simp
  show ?thesis using access(4) grow
    by (cases "cl_state (ca_calls s ! i)") (auto simp: access(2) set_call_def intro: exI [of _ 0] split: prod.splits)
qed auto

lemma counter_run:
  assumes "call_run s as t"
  shows "\<exists>n \<le> length as. counter_value k (spr_metrics (ca_processor t)) = counter_value k (spr_metrics (ca_processor s)) + of_nat n"
  using assms
proof (induction rule: run.induct)
  case (run_more s as t a u)
  then obtain n m where "n \<le> length as" "m \<le> 1"
    "counter_value k (spr_metrics (ca_processor u)) = counter_value k (spr_metrics (ca_processor s)) + of_nat (n + m)"
    using counter_step [OF run_more(2), of k] by (auto simp: add.assoc)
  then show ?case by (intro exI [of _ "n + m"]) simp
qed (auto intro: exI [of _ 0])

text \<open>\<open>metrics()\<close> loads the counters one after another, each possibly at another moment.\<close>

definition load_metrics ::
  "processor_metrics \<Rightarrow> processor_metrics \<Rightarrow> processor_metrics \<Rightarrow> processor_metrics \<Rightarrow> processor_metrics
     \<Rightarrow> processor_metrics \<Rightarrow> processor_metrics" where
  "load_metrics m1 m2 m3 m4 m5 m6 =
     \<lparr>pm_packets_examined = pm_packets_examined m1, pm_samples_decoded = pm_samples_decoded m2,
      pm_payloads_rejected = pm_payloads_rejected m3, pm_imu_samples = pm_imu_samples m4,
      pm_gnss_samples = pm_gnss_samples m5, pm_camera_meta_samples = pm_camera_meta_samples m6\<rparr>"

definition between :: "nat \<Rightarrow> 'u calls \<Rightarrow> 'u calls \<Rightarrow> 'u calls \<Rightarrow> bool" where
  "between n s u t \<longleftrightarrow> (\<exists>as bs. call_run s as u \<and> call_run u bs t \<and> length as + length bs \<le> n)"

lemma counter_between:
  assumes "between n s u t" "unat (counter_value k (spr_metrics (ca_processor s))) + n < 2 ^ 64"
  shows "counter_value k (spr_metrics (ca_processor s)) \<le> counter_value k (spr_metrics (ca_processor u))
    \<and> counter_value k (spr_metrics (ca_processor u)) \<le> counter_value k (spr_metrics (ca_processor t))"
proof -
  obtain a b where n: "a + b \<le> n"
    "counter_value k (spr_metrics (ca_processor u)) = counter_value k (spr_metrics (ca_processor s)) + of_nat a"
    "counter_value k (spr_metrics (ca_processor t)) = counter_value k (spr_metrics (ca_processor u)) + of_nat b"
    using assms(1) counter_run [of s _ u k] counter_run [of u _ t k] unfolding between_def by (meson add_mono le_trans)
  have grow: "x \<le> x + of_nat m" if "unat x + m < 2 ^ 64" for x :: u64 and m
    using that by (simp add: word_le_nat_alt unat_word_ariths unat_of_nat)
  have "unat (counter_value k (spr_metrics (ca_processor u))) = unat (counter_value k (spr_metrics (ca_processor s))) + a"
    using assms(2) n by (simp add: unat_word_ariths unat_of_nat)
  then show ?thesis using n assms(2) grow [of _ a] grow [of _ b] by simp
qed

text \<open>The monotonic snapshot the header promises: whatever runs while the counters are being loaded,
  every loaded value lies between the counter at the begin of the call and the one at its end.\<close>

lemma metrics_snapshot:
  assumes "between n s u1 t" "between n s u2 t" "between n s u3 t" "between n s u4 t" "between n s u5 t" "between n s u6 t"
    and "unat (counter_value k (spr_metrics (ca_processor s))) + n < 2 ^ 64"
  defines "snapshot \<equiv> load_metrics (spr_metrics (ca_processor u1)) (spr_metrics (ca_processor u2))
    (spr_metrics (ca_processor u3)) (spr_metrics (ca_processor u4)) (spr_metrics (ca_processor u5))
    (spr_metrics (ca_processor u6))"
  shows "counter_value k (spr_metrics (ca_processor s)) \<le> counter_value k snapshot
    \<and> counter_value k snapshot \<le> counter_value k (spr_metrics (ca_processor t))"
  using counter_between [OF assms(1,7)] counter_between [OF assms(2,7)] counter_between [OF assms(3,7)]
    counter_between [OF assms(4,7)] counter_between [OF assms(5,7)] counter_between [OF assms(6,7)]
  by (cases k) (simp_all add: snapshot_def load_metrics_def counter_value.simps)

section \<open>Properties\<close>

definition all_returned :: "'u calls \<Rightarrow> bool" where
  "all_returned s \<longleftrightarrow> list_all (\<lambda>c. case cl_state c of Finished r \<Rightarrow> True | _ \<Rightarrow> False) (ca_calls s)"

lemma linearized_all:
  assumes "linearized st0 as s st" "all_returned s"
  shows "ca_processor s = st \<and> mset (returned_packets as) = mset (called as)"
proof
  have fin: "\<exists>r. cl_state c = Finished r" if "c \<in> set (ca_calls s)" for c
    using assms(2) that by (cases "cl_state c") (fastforce simp: all_returned_def list_all_iff)+
  have "counted (cl_state c) k = 0" if "c \<in> set (ca_calls s)" for c k using fin [OF that] by auto
  then have "pending (ca_calls s) k = 0" for k by (simp add: pending_def)
  then have "spr_metrics (ca_processor s) = spr_metrics st"
    using assms(1) by (intro metrics_eqI) (simp add: linearized_def)
  then show "ca_processor s = st" using assms(1) by (simp add: linearized_def processor.equality)
  have ret: "set (returned as) = {(i, r). i < length (ca_calls s) \<and> cl_state (ca_calls s ! i) = Finished r}"
    and len: "length (called as) = length (ca_calls s)"
    using assms(1) unfolding linearized_def by (blast, metis length_map)
  have "set (map fst (returned as)) = {..<length (called as)}"
    unfolding set_map ret by (auto simp: image_iff len dest: fin [OF nth_mem])
  moreover have "distinct (map fst (returned as))" using assms(1) by (simp add: linearized_def)
  ultimately have "mset (map fst (returned as)) = mset [0..<length (called as)]"
    by (intro set_eq_iff_mset_eq_distinct [THEN iffD1]) auto
  then have "image_mset ((!) (called as)) (mset (map fst (returned as))) = mset (map ((!) (called as)) [0..<length (called as)])"
    by simp
  then show "mset (returned_packets as) = mset (called as)"
    by (simp add: returned_packets_def map_nth comp_def case_prod_beta image_mset.compositionality)
qed

text \<open>A call that has not returned has a next step.\<close>

lemma linearized_next:
  assumes "linearized st0 as s st" "i < length (ca_calls s)"
  shows "(\<exists>r. (i, r) \<in> set (returned as)) \<or> (\<exists>c t. call_step s (call_label i c) t)"
proof -
  have ok: "call_ok (cl_packet (ca_calls s ! i)) (cl_state (ca_calls s ! i))"
    and ret: "set (returned as) = {(i, r). i < length (ca_calls s) \<and> cl_state (ca_calls s ! i) = Finished r}"
    using assms unfolding linearized_def by auto
  have next_step: "\<exists>c t. call_step s (call_label i c) t"
    if "advance (ca_processor s) (cl_packet (ca_calls s ! i)) (cl_state (ca_calls s ! i)) \<noteq> None"
    using that call_step.access [OF assms(2)] by fast
  show ?thesis
  proof (cases "cl_state (ca_calls s ! i)")
    case (Finished r)
    then show ?thesis using assms(2) by (auto simp: ret)
  qed (use ok next_step in \<open>auto simp: case_prod_beta\<close>)
qed

lemma balanced:
  assumes "process_all st ps = Inr (sq, rs)" "new_processor (Some h) u = Inr st"
  shows "pm_packets_examined (spr_metrics sq) = of_nat (length ps)
    \<and> pm_packets_examined (spr_metrics sq) = pm_samples_decoded (spr_metrics sq) + pm_payloads_rejected (spr_metrics sq)
    \<and> pm_samples_decoded (spr_metrics sq) = pm_imu_samples (spr_metrics sq)
        + pm_gnss_samples (spr_metrics sq) + pm_camera_meta_samples (spr_metrics sq)"
proof -
  have "spr_metrics st = zero_processor_metrics" using assms(2) by (auto simp: new_processor_def)
  moreover have "spr_metrics sq = add_samples (spr_metrics st) (length ps) (samples_of ps)"
    using process_all_accounts [of st ps] assms(1) by auto
  moreover have "of_nat (length (samples_of ps)) = (of_nat (of_type kImu (samples_of ps))
      + of_nat (of_type kGnss (samples_of ps)) + of_nat (of_type kCameraMeta (samples_of ps)) :: u64)"
    unfolding of_type_sum [of "samples_of ps", symmetric] by simp
  ultimately show ?thesis by (simp add: add_samples_def zero_processor_metrics_def algebra_simps)
qed

text \<open>C17. Concurrent calls of \<open>process\<close> are linearizable. Whatever calls overlap and however their
  accesses to the counters and to the handler interleave, the results of the calls that have returned
  and the state of the handler are those of processing their packets one after another in the order of
  returning (so a call that returned before another began comes first). No call faults or waits: one that
  has not returned can take its next step. When no call is active, the whole processor is in the state
  of that sequential processing, all packets have been processed, and the counters balance: examined is
  decoded plus rejected and decoded is the sum over the types.\<close>

theorem processing_linearizable:
  assumes "new_processor (Some h) u = Inr st" "call_run (idle st) as s"
  shows "\<exists>sq. process_all st (returned_packets as) = Inr (sq, map snd (returned as))
    \<and> spr_user (ca_processor s) = spr_user sq \<and> distinct (map fst (returned as))
    \<and> (i < length (called as) \<longrightarrow> (\<exists>r. (i, r) \<in> set (returned as)) \<or> (\<exists>c t. call_step s (call_label i c) t))
    \<and> (all_returned s \<longrightarrow> ca_processor s = sq \<and> mset (returned_packets as) = mset (called as)
         \<and> pm_packets_examined (spr_metrics sq) = of_nat (length (called as))
         \<and> pm_packets_examined (spr_metrics sq) = pm_samples_decoded (spr_metrics sq) + pm_payloads_rejected (spr_metrics sq)
         \<and> pm_samples_decoded (spr_metrics sq) = pm_imu_samples (spr_metrics sq)
             + pm_gnss_samples (spr_metrics sq) + pm_camera_meta_samples (spr_metrics sq))"
proof -
  obtain sq where lin: "linearized st as s sq" using linearized_run [OF assms(2)] by blast
  then have all: "process_all st (returned_packets as) = Inr (sq, map snd (returned as))"
    and len: "length (called as) = length (ca_calls s)"
    unfolding linearized_def by (blast, metis length_map)
  have "spr_user (ca_processor s) = spr_user sq" "distinct (map fst (returned as))"
    using lin by (simp_all add: linearized_def)
  moreover have "(\<exists>r. (i, r) \<in> set (returned as)) \<or> (\<exists>c t. call_step s (call_label i c) t)" if "i < length (called as)"
    using linearized_next [OF lin] that len by simp
  moreover have "length (returned_packets as) = length (called as)" if "all_returned s"
    using linearized_all [OF lin that] mset_eq_length by blast
  ultimately show ?thesis
    using all balanced [OF all assms(1)] linearized_all [OF lin] by (intro exI [of _ sq]) metis
qed

text \<open>Two overlapping calls: a valid inertial sample and a truncated one; the second returns first.\<close>

fun exec_call :: "'u calls \<Rightarrow> call_action \<Rightarrow> 'u calls option" where
  "exec_call s (Call p) = Some (s\<lparr>ca_calls := ca_calls s @ [\<lparr>cl_packet = p, cl_state = Entered\<rparr>]\<rparr>)"
| "exec_call s (Access i) =
     (if i < length (ca_calls s) then
        (case advance (ca_processor s) (cl_packet (ca_calls s ! i)) (cl_state (ca_calls s ! i)) of
           None \<Rightarrow> None
         | Some (st, c) \<Rightarrow> if call_label i c = Access i then Some (set_call s i st c) else None)
      else None)"
| "exec_call s (Return i r) =
     (if i < length (ca_calls s) then
        (case advance (ca_processor s) (cl_packet (ca_calls s ! i)) (cl_state (ca_calls s ! i)) of
           None \<Rightarrow> None
         | Some (st, c) \<Rightarrow> if call_label i c = Return i r then Some (set_call s i st c) else None)
      else None)"

lemma call_step_exec: "exec_call s a = Some t \<Longrightarrow> call_step s a t"
  by (cases a) (auto split: if_splits option.splits intro: call_step.enter dest!: call_step.access)

fun exec_calls :: "'u calls \<Rightarrow> call_action list \<Rightarrow> 'u calls option" where
  "exec_calls s [] = Some s"
| "exec_calls s (a # as) = (case exec_call s a of None \<Rightarrow> None | Some t \<Rightarrow> exec_calls t as)"

lemma call_run_exec: "exec_calls s as = Some t \<Longrightarrow> call_run s as t"
proof (induction as arbitrary: s)
  case (Cons a as)
  then obtain u where "call_step s a u" "exec_calls u as = Some t"
    by (auto split: option.splits intro: call_step_exec)
  then have "call_run s ([a] @ as) t" using Cons.IH by (blast intro: run_append run_one)
  then show ?case by simp
qed simp

definition overlapping_calls :: "call_action list" where
  "overlapping_calls = [Call (imu_packet (replicate 24 0)), Access 0, Call (imu_packet [1]), Access 1, Access 0,
     Access 1, Access 0, Return 1 (Processed SizeMismatch), Access 0, Return 0 (Processed PayloadNone)]"

theorem processing_linearizable_witness:
  "\<exists>s sq. call_run (idle picky_start) overlapping_calls s
    \<and> process_all picky_start [imu_packet [1], imu_packet (replicate 24 0)] = Inr (sq, [Processed SizeMismatch, Processed PayloadNone])
    \<and> ca_processor s = sq \<and> pm_packets_examined (spr_metrics sq) = 2"
proof -
  have "map_option all_returned (exec_calls (idle picky_start) overlapping_calls) = Some True" by code_simp
  then obtain s where s: "exec_calls (idle picky_start) overlapping_calls = Some s" "all_returned s" by auto
  have tr: "called overlapping_calls = [imu_packet (replicate 24 0), imu_packet [1]]"
    "returned overlapping_calls = [(1, Processed SizeMismatch), (0, Processed PayloadNone)]"
    by (simp_all add: overlapping_calls_def called_def returned_def)
  show ?thesis
    using processing_linearizable [OF picky_start call_run_exec [OF s(1)], of 0] s(2) call_run_exec [OF s(1)]
    by (simp add: tr returned_packets_def) blast
qed

end
