(* ===== verification/Descriptor_Handle.thy ===== *)
theory Descriptor_Handle
  imports Udp_Socket "HOL-Library.Multiset"
begin

text \<open>
  Ownership of file descriptors. \<open>net::UdpSocket\<close> of \<open>src/src/net/udp_socket.cpp\<close> and
  \<open>FileDescriptor\<close> of \<open>src/src/runtime/epoll_receiver.cpp\<close> are the two owning classes of the
  repository; they have the same move constructor, move assignment and destructor, and no copies.

  A program over such objects is a list of \<open>handle_op\<close>. Objects are numbered in the order of their
  construction; an object that has been destroyed is \<open>None\<close>. The types are the scoping rules of the
  language: a context says which objects are alive, \<open>handle_type\<close> which operations it permits. The
  checked semantics goes wrong when an object is used after its destruction and when a descriptor is
  closed that is not open (a double close, which could close a descriptor of somebody else). The
  property of this theory is type soundness: well-typed programs do not go wrong, and the open
  descriptors are at every moment those of the live objects.
\<close>

section \<open>Objects\<close>

type_synonym handles = "fd option list"

datatype fault = Dead_object nat | Not_open fd

datatype handle_op =
    Open_socket
  | Move_construct nat
  | Move_assign nat nat
  | Destroy nat

definition object_value :: "handles \<Rightarrow> nat \<Rightarrow> fault + fd" where
  "object_value hs i =
     (if i < length hs then case hs ! i of None \<Rightarrow> Inl (Dead_object i) | Some d \<Rightarrow> Inr d
      else Inl (Dead_object i))"

text \<open>\<open>close_socket\<close>, \<open>FileDescriptor::close\<close>: a negative value holds nothing.\<close>

definition close_handle :: "'w os \<Rightarrow> fd \<Rightarrow> 'w machine \<Rightarrow> fault + 'w machine" where
  "close_handle os d s =
     (if d < 0 then Inr s
      else if d \<in> set (m_open s) then Inr (io_close os d s)
      else Inl (Not_open d))"

text \<open>The move constructor: \<open>std::exchange(other.file_descriptor_, -1)\<close>.\<close>

definition move_construct :: "nat \<Rightarrow> handles \<Rightarrow> fault + handles" where
  "move_construct other hs =
     (case object_value hs other of
        Inl f \<Rightarrow> Inl f
      | Inr d \<Rightarrow> Inr (hs[other := Some (- 1)] @ [Some d]))"

text \<open>The move assignment: nothing when the object is assigned to itself.\<close>

definition move_assign ::
  "'w os \<Rightarrow> nat \<Rightarrow> nat \<Rightarrow> handles \<Rightarrow> 'w machine \<Rightarrow> fault + handles \<times> 'w machine" where
  "move_assign os this other hs s =
     (case (object_value hs this, object_value hs other) of
        (Inr mine, Inr theirs) \<Rightarrow>
          if this \<noteq> other then
            (case close_handle os mine s of
               Inl f \<Rightarrow> Inl f
             | Inr s \<Rightarrow> Inr (hs[this := Some theirs, other := Some (- 1)], s))
          else Inr (hs, s)
      | (Inl f, _) \<Rightarrow> Inl f
      | (_, Inl f) \<Rightarrow> Inl f)"

text \<open>The destructor.\<close>

definition destroy :: "'w os \<Rightarrow> nat \<Rightarrow> handles \<Rightarrow> 'w machine \<Rightarrow> fault + handles \<times> 'w machine" where
  "destroy os i hs s =
     (case object_value hs i of
        Inl f \<Rightarrow> Inl f
      | Inr d \<Rightarrow>
          (case close_handle os d s of
             Inl f \<Rightarrow> Inl f
           | Inr s \<Rightarrow> Inr (hs[i := None], s)))"

text \<open>The same members of \<open>FileDescriptor\<close>: its \<open>close\<close> also empties the object, and the assignment and
  the destructor call it.\<close>

definition descriptor_close :: "'w os \<Rightarrow> nat \<Rightarrow> handles \<Rightarrow> 'w machine \<Rightarrow> fault + handles \<times> 'w machine" where
  "descriptor_close os i hs s =
     (case object_value hs i of
        Inl f \<Rightarrow> Inl f
      | Inr d \<Rightarrow>
          if 0 \<le> d then
            (case close_handle os d s of Inl f \<Rightarrow> Inl f | Inr s \<Rightarrow> Inr (hs[i := Some (- 1)], s))
          else Inr (hs, s))"

definition descriptor_move_assign ::
  "'w os \<Rightarrow> nat \<Rightarrow> nat \<Rightarrow> handles \<Rightarrow> 'w machine \<Rightarrow> fault + handles \<times> 'w machine" where
  "descriptor_move_assign os this other hs s =
     (case (object_value hs this, object_value hs other) of
        (Inr _, Inr theirs) \<Rightarrow>
          if this \<noteq> other then
            (case descriptor_close os this hs s of
               Inl f \<Rightarrow> Inl f
             | Inr (hs, s) \<Rightarrow> Inr (hs[this := Some theirs, other := Some (- 1)], s))
          else Inr (hs, s)
      | (Inl f, _) \<Rightarrow> Inl f
      | (_, Inl f) \<Rightarrow> Inl f)"

definition descriptor_destroy :: "'w os \<Rightarrow> nat \<Rightarrow> handles \<Rightarrow> 'w machine \<Rightarrow> fault + handles \<times> 'w machine" where
  "descriptor_destroy os i hs s =
     (case descriptor_close os i hs s of Inl f \<Rightarrow> Inl f | Inr (hs, s) \<Rightarrow> Inr (hs[i := None], s))"

text \<open>The two classes behave the same, so the programs below cover both.\<close>

lemma descriptor_move_assign_eq: "descriptor_move_assign = move_assign"
  by (intro ext) (auto simp: descriptor_move_assign_def move_assign_def descriptor_close_def close_handle_def
      split: sum.splits)

lemma descriptor_destroy_eq: "descriptor_destroy = destroy"
  by (intro ext) (auto simp: descriptor_destroy_def destroy_def descriptor_close_def close_handle_def
      split: sum.splits)

section \<open>Programs\<close>

text \<open>A program goes wrong, is left by an exception (of \<open>UdpSocket::open\<close>), or reaches its end.\<close>

datatype 'w outcome =
    Wrong fault
  | Thrown cpp_exception handles "'w machine"
  | Reached handles "'w machine"

definition lift_outcome :: "fault + handles \<times> 'w machine \<Rightarrow> 'w outcome" where
  "lift_outcome r = (case r of Inl f \<Rightarrow> Wrong f | Inr (hs, s) \<Rightarrow> Reached hs s)"

fun handle_step :: "'w os \<Rightarrow> handle_op \<Rightarrow> handles \<Rightarrow> 'w machine \<Rightarrow> 'w outcome" where
  "handle_step os Open_socket hs s =
     (case udp_open os s of
        (Inl e, t) \<Rightarrow> Thrown e hs t
      | (Inr d, t) \<Rightarrow> Reached (hs @ [Some d]) t)"
| "handle_step os (Move_construct other) hs s =
     (case move_construct other hs of Inl f \<Rightarrow> Wrong f | Inr hs \<Rightarrow> Reached hs s)"
| "handle_step os (Move_assign this other) hs s = lift_outcome (move_assign os this other hs s)"
| "handle_step os (Destroy i) hs s = lift_outcome (destroy os i hs s)"

fun handle_run :: "'w os \<Rightarrow> handle_op list \<Rightarrow> handles \<Rightarrow> 'w machine \<Rightarrow> 'w outcome" where
  "handle_run os [] hs s = Reached hs s"
| "handle_run os (p # ps) hs s =
     (case handle_step os p hs s of Reached hs s \<Rightarrow> handle_run os ps hs s | r \<Rightarrow> r)"

text \<open>The end of the scope, also of one left by an exception: the live objects are destroyed in the
  reverse order of their construction.\<close>

fun leave_scope :: "'w os \<Rightarrow> nat \<Rightarrow> handles \<Rightarrow> 'w machine \<Rightarrow> fault + handles \<times> 'w machine" where
  "leave_scope os 0 hs s = Inr (hs, s)"
| "leave_scope os (Suc n) hs s =
     (if n < length hs \<and> hs ! n \<noteq> None then
        (case destroy os n hs s of Inl f \<Rightarrow> Inl f | Inr (hs, s) \<Rightarrow> leave_scope os n hs s)
      else leave_scope os n hs s)"

section \<open>Types\<close>

text \<open>A context: which of the objects constructed so far are alive.\<close>

type_synonym live = "bool list"

definition alive :: "live \<Rightarrow> nat \<Rightarrow> bool" where
  "alive \<Gamma> i \<longleftrightarrow> i < length \<Gamma> \<and> \<Gamma> ! i"

fun handle_type :: "live \<Rightarrow> handle_op \<Rightarrow> live option" where
  "handle_type \<Gamma> Open_socket = Some (\<Gamma> @ [True])"
| "handle_type \<Gamma> (Move_construct other) = (if alive \<Gamma> other then Some (\<Gamma> @ [True]) else None)"
| "handle_type \<Gamma> (Move_assign this other) = (if alive \<Gamma> this \<and> alive \<Gamma> other then Some \<Gamma> else None)"
| "handle_type \<Gamma> (Destroy i) = (if alive \<Gamma> i then Some (\<Gamma>[i := False]) else None)"

fun program_type :: "live \<Rightarrow> handle_op list \<Rightarrow> live option" where
  "program_type \<Gamma> [] = Some \<Gamma>"
| "program_type \<Gamma> (p # ps) = (case handle_type \<Gamma> p of None \<Rightarrow> None | Some \<Gamma> \<Rightarrow> program_type \<Gamma> ps)"

section \<open>The descriptors of the live objects\<close>

fun owned :: "fd option \<Rightarrow> fd multiset" where
  "owned None = {#}" | "owned (Some d) = (if 0 \<le> d then {#d#} else {#})"

definition held :: "handles \<Rightarrow> fd multiset" where
  "held hs = sum_list (map owned hs)"

lemma held_append [simp]: "held (hs @ gs) = held hs + held gs"
  by (simp add: held_def)

lemma held_single [simp]: "held [x] = owned x"
  by (simp add: held_def)

lemma held_update: "i < length hs \<Longrightarrow> held (hs[i := x]) + owned (hs ! i) = held hs + owned x"
  unfolding held_def
proof (induction hs arbitrary: i)
  case (Cons h hs)
  then show ?case by (cases i) (auto simp: ac_simps)
qed simp

definition ctx_of :: "handles \<Rightarrow> live" where
  "ctx_of hs = map (\<lambda>x. x \<noteq> None) hs"

lemma ctx_of_simps [simp]:
  "ctx_of (hs @ [x]) = ctx_of hs @ [x \<noteq> None]" "ctx_of (hs[i := x]) = (ctx_of hs)[i := (x \<noteq> None)]"
  by (simp_all add: ctx_of_def map_update)

lemma alive_ctx: "alive (ctx_of hs) i \<longleftrightarrow> i < length hs \<and> (\<exists>d. hs ! i = Some d)"
  by (auto simp: alive_def ctx_of_def)

lemma alive_same: "alive (ctx_of hs) i \<Longrightarrow> (ctx_of hs)[i := True] = ctx_of hs"
  by (auto simp: alive_def intro: list_update_same_conv [THEN iffD2])

lemma object_value_alive: "alive (ctx_of hs) i \<Longrightarrow> \<exists>d. object_value hs i = Inr d \<and> hs ! i = Some d \<and> i < length hs"
  by (auto simp: alive_ctx object_value_def)

text \<open>The heap invariant: the open descriptors are those open at the start and those of live objects.\<close>

definition owns :: "fd multiset \<Rightarrow> handles \<Rightarrow> 'w machine \<Rightarrow> bool" where
  "owns base hs s \<longleftrightarrow> mset (m_open s) = base + held hs"

lemma close_owned:
  assumes "owns base hs s" "i < length hs" "hs ! i = Some d" "x = None \<or> x = Some (- 1)"
  shows "\<exists>t. close_handle os d s = Inr t \<and> owns base (hs[i := x]) t"
proof (cases "d < 0")
  case True
  then show ?thesis using assms held_update [OF assms(2), of x] by (auto simp: close_handle_def owns_def)
next
  case False
  have "held (hs[i := x]) + {#d#} = held hs" using held_update [OF assms(2), of x] assms(3,4) False by auto
  then have h: "mset (m_open s) = add_mset d (base + held (hs[i := x]))"
    using assms(1) by (simp add: owns_def)
  then have "d \<in> set (m_open s)" by (metis set_mset_mset union_single_eq_member)
  then show ?thesis using h False by (simp add: close_handle_def io_close_def owns_def)
qed

section \<open>Preservation and progress\<close>

lemma destroy_sound:
  assumes "owns base hs s" "alive (ctx_of hs) i"
  shows "\<exists>t. destroy os i hs s = Inr (hs[i := None], t) \<and> owns base (hs[i := None]) t"
proof -
  obtain d where d: "object_value hs i = Inr d" "hs ! i = Some d" "i < length hs"
    using object_value_alive [OF assms(2)] by blast
  from close_owned [OF assms(1) d(3,2), of None os] show ?thesis by (auto simp: destroy_def d(1))
qed

lemma move_sound:
  assumes "owns base hs s" "alive (ctx_of hs) i"
  shows "\<exists>gs. move_construct i hs = Inr gs \<and> owns base gs s \<and> ctx_of gs = ctx_of hs @ [True]"
proof -
  obtain d where d: "object_value hs i = Inr d" "hs ! i = Some d" "i < length hs"
    using object_value_alive [OF assms(2)] by blast
  have "held (hs[i := Some (- 1)]) + owned (Some d) = held hs"
    using held_update [OF d(3), of "Some (- 1)"] d(2) by simp
  then show ?thesis using assms alive_same [OF assms(2)] d(1)
    by (auto simp: move_construct_def owns_def simp del: owned.simps)
qed

lemma assign_sound:
  assumes "owns base hs s" "alive (ctx_of hs) i" "alive (ctx_of hs) j"
  shows "\<exists>gs t. move_assign os i j hs s = Inr (gs, t) \<and> owns base gs t \<and> ctx_of gs = ctx_of hs"
proof -
  obtain d where d: "object_value hs i = Inr d" "hs ! i = Some d" "i < length hs"
    using object_value_alive [OF assms(2)] by blast
  obtain e where e: "object_value hs j = Inr e" "hs ! j = Some e" "j < length hs"
    using object_value_alive [OF assms(3)] by blast
  show ?thesis
  proof (cases "i = j")
    case True
    then show ?thesis using d e assms(1) by (simp add: move_assign_def)
  next
    case False
    obtain t where t: "close_handle os d s = Inr t" "owns base (hs[i := Some (- 1)]) t"
      using close_owned [OF assms(1) d(3,2)] by blast
    have "held (hs[i := Some e, j := Some (- 1)]) + owned (Some e) = held (hs[i := Some e])"
      using held_update [of j "hs[i := Some e]" "Some (- 1)"] False e by simp
    moreover have "held (hs[i := Some e]) = held (hs[i := Some (- 1)]) + owned (Some e)"
      using held_update [of i "hs[i := Some (- 1)]" "Some e"] d(3) by simp
    ultimately have "owns base (hs[i := Some e, j := Some (- 1)]) t"
      using t(2) by (simp add: owns_def del: owned.simps)
    moreover have "ctx_of (hs[i := Some e, j := Some (- 1)]) = ctx_of hs"
      using alive_same [OF assms(2)] alive_same [OF assms(3)] by simp
    ultimately show ?thesis using d e t(1) False by (simp add: move_assign_def)
  qed
qed

definition well_formed :: "fd multiset \<Rightarrow> live \<Rightarrow> 'w outcome \<Rightarrow> bool" where
  "well_formed base \<Gamma> r \<longleftrightarrow>
     (case r of
        Wrong f \<Rightarrow> False
      | Thrown e hs s \<Rightarrow> owns base hs s
      | Reached hs s \<Rightarrow> owns base hs s \<and> ctx_of hs = \<Gamma>)"

lemma handle_step_sound:
  assumes "descriptors_valid os" "owns base hs s" "handle_type (ctx_of hs) p = Some \<Gamma>"
  shows "well_formed base \<Gamma> (handle_step os p hs s)"
proof (cases p)
  case Open_socket
  obtain r t where r: "udp_open os s = (r, t)" by (cases "udp_open os s")
  have "case r of Inl e \<Rightarrow> m_open t = m_open s | Inr d \<Rightarrow> 0 \<le> d \<and> m_open t = d # m_open s"
    using udp_open_opens [OF assms(1), unfolded opens_one_def, rule_format, of s] r by simp
  then show ?thesis
    using assms(2,3) r by (cases r) (auto simp: Open_socket well_formed_def owns_def)
next
  case (Move_construct i)
  then show ?thesis using move_sound [OF assms(2), of i] assms(3)
    by (auto simp: well_formed_def split: if_splits)
next
  case (Move_assign i j)
  then show ?thesis using assign_sound [OF assms(2), of i j os] assms(3)
    by (auto simp: well_formed_def lift_outcome_def split: if_splits)
next
  case (Destroy i)
  then show ?thesis using destroy_sound [OF assms(2), of i os] assms(3)
    by (auto simp: well_formed_def lift_outcome_def split: if_splits)
qed

lemma handle_run_sound:
  assumes "descriptors_valid os" "owns base hs s" "program_type (ctx_of hs) ps = Some \<Gamma>"
  shows "well_formed base \<Gamma> (handle_run os ps hs s)"
  using assms(2,3)
proof (induction ps arbitrary: hs s)
  case (Cons p ps)
  then obtain \<Delta> where D: "handle_type (ctx_of hs) p = Some \<Delta>" "program_type \<Delta> ps = Some \<Gamma>"
    by (auto split: option.splits)
  show ?case
  proof (cases "handle_step os p hs s")
    case (Reached gs t)
    then have "owns base gs t" "program_type (ctx_of gs) ps = Some \<Gamma>"
      using handle_step_sound [OF assms(1) Cons.prems(1) D(1)] D(2) by (simp_all add: well_formed_def)
    then show ?thesis using Cons.IH Reached by simp
  qed (use handle_step_sound [OF assms(1) Cons.prems(1) D(1)] in \<open>simp_all add: well_formed_def\<close>)
qed (simp add: well_formed_def)

lemma leave_scope_sound:
  assumes "owns base hs s"
  shows "\<exists>gs t. leave_scope os n hs s = Inr (gs, t) \<and> owns base gs t \<and> length gs = length hs
    \<and> (\<forall>i < n. i < length hs \<longrightarrow> gs ! i = None) \<and> (\<forall>i \<ge> n. gs ! i = hs ! i)"
  using assms
proof (induction n arbitrary: hs s)
  case (Suc n)
  show ?case
  proof (cases "n < length hs \<and> hs ! n \<noteq> None")
    case True
    then have "alive (ctx_of hs) n" by (auto simp: alive_ctx)
    then obtain t where t: "destroy os n hs s = Inr (hs[n := None], t)" "owns base (hs[n := None]) t"
      using destroy_sound [OF Suc.prems] by blast
    obtain gs u where g: "leave_scope os n (hs[n := None]) t = Inr (gs, u)" "owns base gs u" "length gs = length hs"
      "\<forall>i < n. i < length hs \<longrightarrow> gs ! i = None" "\<forall>i \<ge> n. gs ! i = hs[n := None] ! i"
      using Suc.IH [OF t(2)] by auto
    have "gs ! n = None" using g(5) True by simp
    moreover have "\<forall>i \<ge> Suc n. gs ! i = hs ! i" using g(5) by simp
    ultimately show ?thesis using g(1-4) True t(1) by (simp add: less_Suc_eq)
  next
    case False
    obtain gs u where g: "leave_scope os n hs s = Inr (gs, u)" "owns base gs u" "length gs = length hs"
      "\<forall>i < n. i < length hs \<longrightarrow> gs ! i = None" "\<forall>i \<ge> n. gs ! i = hs ! i"
      using Suc.IH [OF Suc.prems] by blast
    then have "n < length hs \<longrightarrow> gs ! n = None" using False by auto
    moreover have "leave_scope os (Suc n) hs s = Inr (gs, u)" using False g(1) by auto
    ultimately show ?thesis using g(2-5) by (simp add: less_Suc_eq)
  qed
qed simp

lemma all_destroyed: "\<forall>i < length hs. hs ! i = None \<Longrightarrow> held hs = {#}"
proof (induction hs)
  case (Cons h hs)
  have "hs ! i = None" if "i < length hs" for i using Cons.prems that by (auto dest!: spec [of _ "Suc i"])
  moreover have "h = None" using Cons.prems by auto
  ultimately show ?case using Cons.IH by (simp add: held_def)
qed (simp add: held_def)

section \<open>Properties\<close>

text \<open>C23. Type soundness of descriptor ownership: a program over socket objects that respects the
  scoping rules, on any system, never uses a destroyed object and never closes a descriptor that is not
  open; when it reaches its end, exactly the objects its type says are alive and the open descriptors
  are those open before and those the live objects hold, each once; and leaving the scope, also by an
  exception of \<open>open\<close>, destroys the remaining objects without fault and closes exactly what was
  opened. \<open>descriptor_move_assign_eq\<close> and \<open>descriptor_destroy_eq\<close> carry this over to
  \<open>FileDescriptor\<close>.\<close>

theorem handles_sound:
  assumes "descriptors_valid os" "program_type [] ps = Some \<Gamma>"
  shows "case handle_run os ps [] s of
      Wrong f \<Rightarrow> False
    | Thrown e hs t \<Rightarrow> (\<exists>gs u. leave_scope os (length hs) hs t = Inr (gs, u)
        \<and> mset (m_open u) = mset (m_open s))
    | Reached hs t \<Rightarrow> ctx_of hs = \<Gamma> \<and> mset (m_open t) = mset (m_open s) + held hs
        \<and> (\<exists>gs u. leave_scope os (length hs) hs t = Inr (gs, u) \<and> mset (m_open u) = mset (m_open s))"
proof -
  have leave: "\<exists>gs u. leave_scope os (length hs) hs t = Inr (gs, u) \<and> mset (m_open u) = mset (m_open s)"
    if "owns (mset (m_open s)) hs t" for hs t
    using leave_scope_sound [OF that, of os "length hs"] by (auto simp: owns_def all_destroyed)
  have "owns (mset (m_open s)) [] s" by (simp add: owns_def held_def)
  from handle_run_sound [OF assms(1) this, of ps \<Gamma>] assms(2)
  have "well_formed (mset (m_open s)) \<Gamma> (handle_run os ps [] s)" by (simp add: ctx_of_def)
  then show ?thesis using leave by (auto simp: well_formed_def owns_def split: outcome.splits)
qed

text \<open>Two sockets; the second is moved into the first, whose own descriptor is closed; a third object
  takes the descriptor over, and the moved-from ones are destroyed.\<close>

definition socket_program :: "handle_op list" where
  "socket_program = [Open_socket, Open_socket, Move_assign 0 1, Move_assign 0 0, Move_construct 0,
     Destroy 1, Destroy 0]"

theorem handles_sound_witness:
  "program_type [] socket_program = Some [False, False, True]
   \<and> (\<exists>hs t. handle_run toy_os socket_program [] \<lparr>m_world = (3, []), m_open = []\<rparr> = Reached hs t
        \<and> hs = [None, None, Some 4] \<and> m_open t = [4] \<and> held hs = {#4#})"
proof -
  let ?s = "\<lparr>m_world = (3, []), m_open = []\<rparr> :: toy_world machine"
  have ty: "program_type [] socket_program = Some [False, False, True]" by code_simp
  have run: "handle_run toy_os socket_program [] ?s
      = Reached [None, None, Some 4] \<lparr>m_world = (5, []), m_open = [4]\<rparr>"
    by code_simp
  from handles_sound [OF toy_os_valid ty, of ?s] show ?thesis by (simp add: run ty)
qed

end
