(* ===== verification/Epoll_Drain.thy ===== *)
theory Epoll_Drain
  imports Epoll_Receiver
begin

text \<open>
  Level-triggered draining. \<open>EpollReceiver::poll\<close> stops reading a socket after a limited number of
  datagrams; what is left is not lost, because \<open>epoll\<close> reports the socket again. Over a kernel that
  keeps a queue of datagrams for every socket and reports sockets whose queue is not empty, repeated
  polls deliver every waiting datagram exactly once, in the order of its socket's queue, and end with
  all queues empty.
\<close>

section \<open>The kernel\<close>

type_synonym 'w queues = "'w \<Rightarrow> fd \<Rightarrow> bytes list"

definition listening :: "receiver \<Rightarrow> fd set" where
  "listening r = ln_socket ` set (er_listeners r)"

text \<open>Documented of \<open>recvmsg\<close> on a non-blocking socket: it takes the first datagram of the queue, or
  reports that it would block. Nothing arrives meanwhile.\<close>

definition queued_receive :: "'w os \<Rightarrow> 'w queues \<Rightarrow> fd \<Rightarrow> bool" where
  "queued_receive os q d \<longleftrightarrow> (\<forall>w.
     case q w d of
       [] \<Rightarrow> (fst (sys_recvmsg os d kMaxUdpPayloadSize w) = Inl EAGAIN \<or> fst (sys_recvmsg os d kMaxUdpPayloadSize w) = Inl EWOULDBLOCK)
         \<and> q (snd (sys_recvmsg os d kMaxUdpPayloadSize w)) = q w
     | b # bs \<Rightarrow> length b \<le> kMaxUdpPayloadSize
         \<and> (\<exists>name address. lib_inet_ntop os (sin_addr name) = Inr address
              \<and> fst (sys_recvmsg os d kMaxUdpPayloadSize w) = Inr \<lparr>rm_data = b, rm_truncated = False, rm_name = name\<rparr>)
         \<and> q (snd (sys_recvmsg os d kMaxUdpPayloadSize w)) = (q w)(d := bs))"

text \<open>Documented of a level-triggered \<open>epoll\<close>: while some registered socket has a datagram, a wait
  reports one that has; an event carries the number of a listener. No signal interrupts the wait.\<close>

definition level_triggered :: "'w os \<Rightarrow> 'w queues \<Rightarrow> receiver \<Rightarrow> bool" where
  "level_triggered os q r \<longleftrightarrow> (\<forall>timeout w. \<exists>events w'.
     sys_epoll_wait os (er_epoll r) (length (er_listeners r)) timeout w = (Inr events, w') \<and> q w' = q w
     \<and> (\<forall>ev \<in> set events. unat (ev_data ev) < length (er_listeners r))
     \<and> ((\<exists>d \<in> listening r. q w d \<noteq> []) \<longrightarrow>
          (\<exists>ev \<in> set events. ev_events ev AND EPOLLIN \<noteq> 0
             \<and> q w (ln_socket (er_listeners r ! unat (ev_data ev))) \<noteq> [])))"

definition queueing_kernel :: "'w os \<Rightarrow> 'w queues \<Rightarrow> receiver \<Rightarrow> bool" where
  "queueing_kernel os q r \<longleftrightarrow> level_triggered os q r \<and> (\<forall>d \<in> listening r. queued_receive os q d)
     \<and> (\<forall>w. q (snd (lib_steady_now os w)) = q w)"

text \<open>Listeners have sockets and local endpoints of their own.\<close>

definition separate_listeners :: "receiver \<Rightarrow> bool" where
  "separate_listeners r \<longleftrightarrow> inj_on ln_socket (set (er_listeners r)) \<and> inj_on ln_local_endpoint (set (er_listeners r))"

section \<open>What is waiting and what was delivered\<close>

definition waiting :: "'w queues \<Rightarrow> receiver \<Rightarrow> 'w machine \<Rightarrow> nat" where
  "waiting q r s = (\<Sum>d \<in> listening r. length (q (m_world s) d))"

text \<open>The packets the datagrams decode to; a datagram that does not decode is rejected.\<close>

definition decoded :: "bytes list \<Rightarrow> packet list" where
  "decoded bs = concat (map (\<lambda>b. case decode_packet b of
     Inl e \<Rightarrow> [] | Inr r \<Rightarrow> (case dr_packet r of None \<Rightarrow> [] | Some p \<Rightarrow> [p])) bs)"

lemma decoded_simps [simp]:
  "decoded [] = []" "decoded (bs @ cs) = decoded bs @ decoded cs"
  by (simp_all add: decoded_def)

definition delivered :: "listener \<Rightarrow> received_packet list \<Rightarrow> packet list" where
  "delivered l ps = map rp_packet (filter (\<lambda>p. rp_listener p = ln_local_endpoint l) ps)"

lemma delivered_append [simp]: "delivered l (ps @ qs) = delivered l ps @ delivered l qs"
  by (simp add: delivered_def)

lemma delivered_Nil [simp]: "delivered l [] = []"
  by (simp add: delivered_def)

text \<open>Nothing is lost, repeated or reordered between two moments.\<close>

definition conserved :: "'w queues \<Rightarrow> receiver \<Rightarrow> 'w machine \<Rightarrow> receiver_metrics \<Rightarrow> received_packet list
    \<Rightarrow> 'w machine \<Rightarrow> receiver_metrics \<Rightarrow> bool" where
  "conserved q r s m ps t m' \<longleftrightarrow>
     (\<forall>l \<in> set (er_listeners r). decoded (q (m_world s) (ln_socket l)) = delivered l ps @ decoded (q (m_world t) (ln_socket l)))
     \<and> (\<forall>d \<in> listening r. length (q (m_world t) d) \<le> length (q (m_world s) d))
     \<and> rx_datagrams_received m' + of_nat (waiting q r t) = rx_datagrams_received m + of_nat (waiting q r s)"

lemma conserved_same: "q (m_world t) = q (m_world s) \<Longrightarrow> rx_datagrams_received m' = rx_datagrams_received m \<Longrightarrow>
  conserved q r s m [] t m'"
  by (simp add: conserved_def waiting_def)

lemma conserved_trans:
  "conserved q r s m ps t m' \<Longrightarrow> conserved q r t m' qs u m'' \<Longrightarrow> conserved q r s m (ps @ qs) u m''"
  unfolding conserved_def by (auto intro: order_trans)

lemma conserved_waiting: "conserved q r s m ps t m' \<Longrightarrow> waiting q r t \<le> waiting q r s"
  unfolding waiting_def by (rule sum_mono) (simp add: conserved_def)

lemma conserved_equal:
  assumes "conserved q r s m ps t m'" "\<not> waiting q r t < waiting q r s" "d \<in> listening r"
  shows "length (q (m_world t) d) = length (q (m_world s) d)"
proof (rule ccontr)
  assume "length (q (m_world t) d) \<noteq> length (q (m_world s) d)"
  then have "\<exists>d \<in> listening r. length (q (m_world t) d) < length (q (m_world s) d)"
    using assms(1,3) by (auto simp: conserved_def order.strict_iff_order)
  then have "waiting q r t < waiting q r s"
    unfolding waiting_def using assms(1)
    by (intro sum_strict_mono_ex1) (auto simp: conserved_def listening_def)
  then show False using assms(2) by simp
qed

lemma waiting_update:
  assumes "d \<in> listening r" "q (m_world t) = (q (m_world s))(d := bs)"
  shows "waiting q r t + length (q (m_world s) d) = waiting q r s + length bs"
proof -
  have f: "finite (listening r)" by (simp add: listening_def)
  have "(\<Sum>x \<in> listening r - {d}. length (q (m_world t) x)) = (\<Sum>x \<in> listening r - {d}. length (q (m_world s) x))"
    by (rule sum.cong) (simp_all add: assms(2))
  then show ?thesis
    using sum.remove [OF f assms(1), of "\<lambda>x. length (q (m_world t) x)"]
      sum.remove [OF f assms(1), of "\<lambda>x. length (q (m_world s) x)"]
    by (simp add: waiting_def assms(2))
qed

section \<open>Draining one socket\<close>

lemma try_receive_empty:
  assumes "queued_receive os q d" "q (m_world s) d = []"
  shows "\<exists>t. try_receive os d kMaxUdpPayloadSize s = (Inr None, t) \<and> q (m_world t) = q (m_world s)"
  using assms(1) [unfolded queued_receive_def, rule_format, of "m_world s"] assms(2)
  by (auto simp: try_receive_def receive_datagram_def io_simps kMaxUdpPayloadSize_def)

lemma try_receive_waiting:
  assumes "queued_receive os q d" "q (m_world s) d = b # bs"
  shows "\<exists>dg t. try_receive os d kMaxUdpPayloadSize s = (Inr (Some dg), t) \<and> rd_bytes dg = b
    \<and> q (m_world t) = (q (m_world s))(d := bs)"
  using assms(1) [unfolded queued_receive_def, rule_format, of "m_world s"] assms(2)
  by (auto simp: try_receive_def receive_datagram_def io_simps kMaxUdpPayloadSize_def from_sockaddr_def)

lemma drain_queue:
  assumes "queueing_kernel os q r" "l \<in> set (er_listeners r)"
  shows "\<exists>new m' t. drain os l n (m, ps) s = ((Inr (), (m', ps @ new)), t)
    \<and> (\<forall>p \<in> set new. rp_listener p = ln_local_endpoint l)
    \<and> map rp_packet new = decoded (take n (q (m_world s) (ln_socket l)))
    \<and> q (m_world t) = (q (m_world s))(ln_socket l := drop n (q (m_world s) (ln_socket l)))
    \<and> rx_datagrams_received m' = rx_datagrams_received m + of_nat (min n (length (q (m_world s) (ln_socket l))))"
proof (induction n arbitrary: m ps s)
  case (Suc n)
  let ?d = "ln_socket l"
  have recv: "queued_receive os q ?d" and clock: "\<And>w. q (snd (lib_steady_now os w)) = q w"
    using assms by (auto simp: queueing_kernel_def listening_def)
  show ?case
  proof (cases "q (m_world s) ?d")
    case Nil
    from try_receive_empty [OF recv Nil] obtain t where
      "try_receive os ?d kMaxUdpPayloadSize s = (Inr None, t)" "q (m_world t) = q (m_world s)" by blast
    then show ?thesis using Nil by (simp add: fun_upd_idem)
  next
    case (Cons b bs)
    from try_receive_waiting [OF recv Cons] obtain dg t where t:
      "try_receive os ?d kMaxUdpPayloadSize s = (Inr (Some dg), t)" "rd_bytes dg = b"
      "q (m_world t) = (q (m_world s))(?d := bs)" by blast
    obtain d where d: "decode_packet b = Inr d" using decode_packet_eq by blast
    define u where "u = t\<lparr>m_world := snd (lib_steady_now os (m_world t))\<rparr>"
    have u: "q (m_world u) = (q (m_world s))(?d := bs)" by (simp add: u_def clock t(3))
    show ?thesis
    proof (cases "dr_packet d")
      case None
      let ?m = "count_received m 0 1"
      have eq: "drain os l (Suc n) (m, ps) s = drain os l n (?m, ps) u"
        by (simp add: t d None u_def case_prod_beta count_received_def)
      obtain new m' v where v: "drain os l n (?m, ps) u = ((Inr (), (m', ps @ new)), v)"
        "\<forall>p \<in> set new. rp_listener p = ln_local_endpoint l"
        "map rp_packet new = decoded (take n (q (m_world u) ?d))"
        "q (m_world v) = (q (m_world u))(?d := drop n (q (m_world u) ?d))"
        "rx_datagrams_received m' = rx_datagrams_received ?m + of_nat (min n (length (q (m_world u) ?d)))"
        using Suc.IH [of ?m ps u] by blast
      show ?thesis
        by (intro exI [of _ new] exI [of _ m'] exI [of _ v])
          (use v d None in \<open>auto simp: eq u Cons decoded_def count_received_def simp del: drain.simps\<close>)
    next
      case (Some p)
      let ?p = "\<lparr>rp_packet = p, rp_source = rd_source dg, rp_listener = ln_local_endpoint l,
        rp_receive_timestamp_ns = fst (lib_steady_now os (m_world t))\<rparr>"
      let ?m = "count_received m 1 0"
      have eq: "drain os l (Suc n) (m, ps) s = drain os l n (?m, ps @ [?p]) u"
        by (simp add: t d Some u_def case_prod_beta count_received_def)
      obtain new m' v where v: "drain os l n (?m, ps @ [?p]) u = ((Inr (), (m', (ps @ [?p]) @ new)), v)"
        "\<forall>p \<in> set new. rp_listener p = ln_local_endpoint l"
        "map rp_packet new = decoded (take n (q (m_world u) ?d))"
        "q (m_world v) = (q (m_world u))(?d := drop n (q (m_world u) ?d))"
        "rx_datagrams_received m' = rx_datagrams_received ?m + of_nat (min n (length (q (m_world u) ?d)))"
        using Suc.IH [of ?m "ps @ [?p]" u] by blast
      show ?thesis
        by (intro exI [of _ "?p # new"] exI [of _ m'] exI [of _ v])
          (use v d Some in \<open>auto simp: eq u Cons decoded_def count_received_def simp del: drain.simps\<close>)
    qed
  qed
qed simp

lemma drain_conserves:
  assumes "queueing_kernel os q r" "separate_listeners r" "l \<in> set (er_listeners r)"
  shows "\<exists>new m' t. drain os l n (m, ps) s = ((Inr (), (m', ps @ new)), t) \<and> conserved q r s m new t m'
    \<and> (0 < n \<and> q (m_world s) (ln_socket l) \<noteq> [] \<longrightarrow> waiting q r t < waiting q r s)"
proof -
  let ?q = "q (m_world s) (ln_socket l)"
  obtain new m' t where t: "drain os l n (m, ps) s = ((Inr (), (m', ps @ new)), t)"
    "\<forall>p \<in> set new. rp_listener p = ln_local_endpoint l" "map rp_packet new = decoded (take n ?q)"
    "q (m_world t) = (q (m_world s))(ln_socket l := drop n ?q)"
    "rx_datagrams_received m' = rx_datagrams_received m + of_nat (min n (length ?q))"
    using drain_queue [OF assms(1,3)] by blast
  have "ln_socket l \<in> listening r" using assms(3) by (simp add: listening_def)
  from waiting_update [where q = q, OF this t(4)]
  have w: "waiting q r t + min n (length ?q) = waiting q r s" by (cases "n \<le> length ?q") simp_all
  have "decoded (q (m_world s) (ln_socket k)) = delivered k new @ decoded (q (m_world t) (ln_socket k))"
    if k: "k \<in> set (er_listeners r)" for k
  proof (cases "k = l")
    case True
    then have "delivered k new = decoded (take n ?q)" using t(2,3) by (simp add: delivered_def filter_id_conv [THEN iffD2])
    then show ?thesis using True t(4) by (simp flip: decoded_simps(2))
  next
    case False
    then have "ln_socket k \<noteq> ln_socket l" "ln_local_endpoint k \<noteq> ln_local_endpoint l"
      using assms(2,3) k by (auto simp: separate_listeners_def inj_on_def)
    then have "delivered k new = []" using t(2) by (auto simp: delivered_def filter_empty_conv)
    then show ?thesis using t(4) \<open>ln_socket k \<noteq> ln_socket l\<close> by simp
  qed
  moreover have "rx_datagrams_received m' + of_nat (waiting q r t) = rx_datagrams_received m + of_nat (waiting q r s)"
    using arg_cong [OF w, of "of_nat :: nat \<Rightarrow> u64"] t(5) by (simp add: algebra_simps)
  ultimately have "conserved q r s m new t m'" using t(4) by (simp add: conserved_def)
  moreover have "waiting q r t < waiting q r s" if "0 < n" "?q \<noteq> []"
  proof -
    have "0 < min n (length ?q)" using that by simp
    then show ?thesis using w by linarith
  qed
  ultimately show ?thesis using t(1) by blast
qed

section \<open>A poll\<close>

lemma poll_events_conserves:
  assumes "queueing_kernel os q r" "separate_listeners r" "0 < er_max_datagrams r"
    and "\<forall>ev \<in> set events. unat (ev_data ev) < length (er_listeners r)"
  shows "\<exists>new m' t. poll_events os r events (m, ps) s = ((Inr (), (m', ps @ new)), t) \<and> conserved q r s m new t m'
    \<and> ((\<exists>ev \<in> set events. ev_events ev AND EPOLLIN \<noteq> 0 \<and> q (m_world s) (ln_socket (er_listeners r ! unat (ev_data ev))) \<noteq> [])
         \<longrightarrow> waiting q r t < waiting q r s)"
  using assms(4)
proof (induction events arbitrary: m ps s)
  case Nil
  show ?case by (intro exI [of _ "[]"] exI [of _ m] exI [of _ s]) (simp add: conserved_same)
next
  case (Cons ev events)
  let ?l = "er_listeners r ! unat (ev_data ev)"
  show ?case
  proof (cases "ev_events ev AND EPOLLIN = 0")
    case True
    then show ?thesis using Cons.IH [of m ps s] Cons.prems by simp
  next
    case False
    have l: "?l \<in> set (er_listeners r)" using Cons.prems by simp
    obtain new m1 t where t: "drain os ?l (er_max_datagrams r) (m, ps) s = ((Inr (), (m1, ps @ new)), t)"
      "conserved q r s m new t m1" "q (m_world s) (ln_socket ?l) \<noteq> [] \<longrightarrow> waiting q r t < waiting q r s"
      using drain_conserves [OF assms(1,2) l] assms(3) by blast
    obtain new' m2 u where u: "poll_events os r events (m1, ps @ new) t = ((Inr (), (m2, (ps @ new) @ new')), u)"
      "conserved q r t m1 new' u m2"
      "(\<exists>ev \<in> set events. ev_events ev AND EPOLLIN \<noteq> 0 \<and> q (m_world t) (ln_socket (er_listeners r ! unat (ev_data ev))) \<noteq> [])
         \<longrightarrow> waiting q r u < waiting q r t"
      using Cons.IH [of m1 "ps @ new" t] Cons.prems by auto
    have run: "poll_events os r (ev # events) (m, ps) s = ((Inr (), (m2, ps @ new @ new')), u)"
      using False Cons.prems t(1) u(1) by (simp add: Let_def)
    have con: "conserved q r s m (new @ new') u m2" by (rule conserved_trans [OF t(2) u(2)])
    have less: "waiting q r u < waiting q r s"
      if e: "e \<in> set (ev # events)" "q (m_world s) (ln_socket (er_listeners r ! unat (ev_data e))) \<noteq> []"
        "ev_events e AND EPOLLIN \<noteq> 0" for e
    proof (cases "waiting q r t < waiting q r s")
      case True
      then show ?thesis using conserved_waiting [OF u(2)] by simp
    next
      case False
      then have "q (m_world s) (ln_socket ?l) = []" using t(3) by blast
      then have "e \<in> set events" using e(1,2) by auto
      have "ln_socket (er_listeners r ! unat (ev_data e)) \<in> listening r"
        using \<open>e \<in> set events\<close> Cons.prems by (simp add: listening_def)
      from conserved_equal [OF t(2) False this] have "q (m_world t) (ln_socket (er_listeners r ! unat (ev_data e))) \<noteq> []"
        using e(2) by auto
      then have "waiting q r u < waiting q r t" using u(3) e(3) \<open>e \<in> set events\<close> by blast
      then show ?thesis using conserved_waiting [OF t(2)] by simp
    qed
    show ?thesis using run con less by blast
  qed
qed

lemma poll_conserves:
  assumes "queueing_kernel os q r" "separate_listeners r" "0 < er_max_datagrams r" "0 \<le> timeout" "timeout \<le> INT_MAX"
  shows "\<exists>ps m' t. poll os r timeout s = ((Inr ps, r\<lparr>er_metrics := m'\<rparr>), t) \<and> conserved q r s (er_metrics r) ps t m'
    \<and> (waiting q r s \<noteq> 0 \<longrightarrow> waiting q r t < waiting q r s)"
proof -
  obtain events w where w: "sys_epoll_wait os (er_epoll r) (length (er_listeners r)) (nat timeout) (m_world s) = (Inr events, w)"
    "q w = q (m_world s)" "\<forall>ev \<in> set events. unat (ev_data ev) < length (er_listeners r)"
    "(\<exists>d \<in> listening r. q (m_world s) d \<noteq> []) \<longrightarrow> (\<exists>ev \<in> set events. ev_events ev AND EPOLLIN \<noteq> 0
       \<and> q (m_world s) (ln_socket (er_listeners r ! unat (ev_data ev))) \<noteq> [])"
    using assms(1) unfolding queueing_kernel_def level_triggered_def by metis
  define m where "m = (if events \<noteq> [] then (er_metrics r)\<lparr>rx_epoll_wakeups := rx_epoll_wakeups (er_metrics r) + 1\<rparr>
    else er_metrics r)"
  define u where "u = s\<lparr>m_world := w\<rparr>"
  have u: "q (m_world u) = q (m_world s)" by (simp add: u_def w(2))
  obtain ps m' t where t: "poll_events os r events (m, []) u = ((Inr (), (m', [] @ ps)), t)" "conserved q r u m ps t m'"
    "(\<exists>ev \<in> set events. ev_events ev AND EPOLLIN \<noteq> 0 \<and> q (m_world u) (ln_socket (er_listeners r ! unat (ev_data ev))) \<noteq> [])
       \<longrightarrow> waiting q r t < waiting q r u"
    using poll_events_conserves [OF assms(1-3) w(3)] by blast
  have run: "poll os r timeout s = ((Inr ps, r\<lparr>er_metrics := m'\<rparr>), t)"
    using assms(4,5) t(1) [unfolded m_def u_def] by (simp add: poll_def Let_def w(1) split del: if_split)
  have "conserved q r s (er_metrics r) [] u m" by (rule conserved_same) (simp_all add: u m_def)
  from conserved_trans [OF this t(2)] have con: "conserved q r s (er_metrics r) ps t m'" by simp
  have "\<exists>d \<in> listening r. q (m_world s) d \<noteq> []" if "waiting q r s \<noteq> 0"
  proof (rule ccontr)
    assume "\<not> (\<exists>d \<in> listening r. q (m_world s) d \<noteq> [])"
    then have "waiting q r s = 0" by (simp add: waiting_def)
    then show False using that by simp
  qed
  moreover have "waiting q r u = waiting q r s" by (simp add: waiting_def u)
  ultimately show ?thesis using run con t(3) w(4) u by auto
qed

text \<open>One poll after the other.\<close>

fun polls :: "'w os \<Rightarrow> nat \<Rightarrow> receiver \<Rightarrow> int \<Rightarrow> 'w machine \<Rightarrow> (received_packet list cpp \<times> receiver) \<times> 'w machine" where
  "polls os 0 r timeout s = ((Inr [], r), s)"
| "polls os (Suc n) r timeout s =
     (case poll os r timeout s of
        ((Inl e, r), s) \<Rightarrow> ((Inl e, r), s)
      | ((Inr ps, r), s) \<Rightarrow>
          (case polls os n r timeout s of
             ((Inl e, r), s) \<Rightarrow> ((Inl e, r), s)
           | ((Inr qs, r), s) \<Rightarrow> ((Inr (ps @ qs), r), s)))"

lemma metrics_irrelevant [simp]:
  "queueing_kernel os q (r\<lparr>er_metrics := m\<rparr>) = queueing_kernel os q r"
  "separate_listeners (r\<lparr>er_metrics := m\<rparr>) = separate_listeners r"
  "waiting q (r\<lparr>er_metrics := m\<rparr>) s = waiting q r s"
  "conserved q (r\<lparr>er_metrics := m\<rparr>) s m1 ps t m2 = conserved q r s m1 ps t m2"
  by (simp_all add: queueing_kernel_def level_triggered_def listening_def separate_listeners_def
      waiting_def conserved_def)

lemma polls_conserve:
  assumes "queueing_kernel os q r" "separate_listeners r" "0 < er_max_datagrams r" "0 \<le> timeout" "timeout \<le> INT_MAX"
  shows "\<exists>ps m' t. polls os n r timeout s = ((Inr ps, r\<lparr>er_metrics := m'\<rparr>), t) \<and> conserved q r s (er_metrics r) ps t m'
    \<and> waiting q r t \<le> waiting q r s - n"
  using assms
proof (induction n arbitrary: r s)
  case 0
  show ?case by (intro exI [of _ "[]"] exI [of _ "er_metrics r"] exI [of _ s]) (simp add: conserved_same)
next
  case (Suc n)
  obtain ps m1 u where u: "poll os r timeout s = ((Inr ps, r\<lparr>er_metrics := m1\<rparr>), u)"
    "conserved q r s (er_metrics r) ps u m1" "waiting q r s \<noteq> 0 \<longrightarrow> waiting q r u < waiting q r s"
    using poll_conserves [OF Suc.prems] by blast
  obtain qs m2 t where t: "polls os n (r\<lparr>er_metrics := m1\<rparr>) timeout u = ((Inr qs, r\<lparr>er_metrics := m2\<rparr>), t)"
    "conserved q r u m1 qs t m2" "waiting q r t \<le> waiting q r u - n"
    using Suc.IH [of "r\<lparr>er_metrics := m1\<rparr>" u] Suc.prems by auto
  have "waiting q r t \<le> waiting q r s - Suc n"
    using u(3) t(3) conserved_waiting [OF u(2)] by (cases "waiting q r s = 0") auto
  then show ?case using u(1) t(1) conserved_trans [OF u(2) t(2)] by (intro exI [of _ "ps @ qs"]) auto
qed

section \<open>Properties\<close>

text \<open>C26. Nothing that waits is stranded by the drain limit. On a kernel that queues datagrams and whose
  \<open>epoll\<close> is level-triggered, with nothing else arriving, as many polls as there are waiting datagrams
  succeed and empty all queues; the packets they return from a listener are the packets its waiting
  datagrams decode to, each once and in the order of the queue, and every datagram has been counted.\<close>

theorem polls_drain:
  assumes "queueing_kernel os q r" "separate_listeners r" "0 < er_max_datagrams r" "0 \<le> timeout" "timeout \<le> INT_MAX"
    and "waiting q r s \<le> n"
  shows "\<exists>ps r' t. polls os n r timeout s = ((Inr ps, r'), t)
    \<and> (\<forall>l \<in> set (er_listeners r). q (m_world t) (ln_socket l) = []
         \<and> map rp_packet (filter (\<lambda>p. rp_listener p = ln_local_endpoint l) ps) = decoded (q (m_world s) (ln_socket l)))
    \<and> rx_datagrams_received (er_metrics r') = rx_datagrams_received (er_metrics r) + of_nat (waiting q r s)"
proof -
  obtain ps m' t where t: "polls os n r timeout s = ((Inr ps, r\<lparr>er_metrics := m'\<rparr>), t)"
    "conserved q r s (er_metrics r) ps t m'" "waiting q r t \<le> waiting q r s - n"
    using polls_conserve [OF assms(1-5)] by blast
  have w: "waiting q r t = 0" using t(3) assms(6) by simp
  then have "q (m_world t) (ln_socket l) = []" if "l \<in> set (er_listeners r)" for l
    using that by (simp add: waiting_def listening_def)
  then show ?thesis using t(1,2) w by (auto simp: conserved_def delivered_def)
qed

text \<open>A kernel whose only socket has a queue, and a receiver that takes one datagram per poll.\<close>

definition queue_os :: "toy_world os" where
  "queue_os = toy_os\<lparr>sys_recvmsg := (\<lambda>d n (c, q). case q of [] \<Rightarrow> (Inl EAGAIN, (c, q))
     | b # bs \<Rightarrow> (Inr \<lparr>rm_data = take n b, rm_truncated = False, rm_name = \<lparr>sin_addr = 0x7F000001, sin_port = [0, 5]\<rparr>\<rparr>, (c, bs)))\<rparr>"

definition socket_queue :: "toy_world queues" where
  "socket_queue w d = (if d = 4 then map (take kMaxUdpPayloadSize) (snd w) else [])"

definition slow_receiver :: receiver where
  "slow_receiver = toy_receiver\<lparr>er_max_datagrams := 1\<rparr>"

lemma queue_os_queues: "queueing_kernel queue_os socket_queue slow_receiver"
proof -
  have "listening slow_receiver = {4}" by (simp add: listening_def slow_receiver_def toy_receiver_def)
  moreover have "queued_receive queue_os socket_queue 4"
    unfolding queued_receive_def
    by (auto simp: queue_os_def toy_os_def socket_queue_def fun_eq_iff split: list.split)
  moreover have "level_triggered queue_os socket_queue slow_receiver"
    by (auto simp: level_triggered_def listening_def queue_os_def toy_os_def socket_queue_def slow_receiver_def
        toy_receiver_def EPOLLIN_def)
  ultimately show ?thesis by (simp add: queueing_kernel_def queue_os_def toy_os_def)
qed

theorem polls_drain_witness:
  "\<exists>ps r' t. polls queue_os 2 slow_receiver 10 toy_machine = ((Inr ps, r'), t)
    \<and> socket_queue (m_world t) 4 = []
    \<and> map rp_packet (filter (\<lambda>p. rp_listener p = \<lparr>ep_address = ''127.0.0.1'', ep_port = 9000\<rparr>) ps)
        = decoded [packet_bytes kImu 1 2 [], [1, 2, 3]]
    \<and> rx_datagrams_received (er_metrics r') = 2"
proof -
  have sep: "separate_listeners slow_receiver" "0 < er_max_datagrams slow_receiver" "(0 :: int) \<le> 10" "10 \<le> INT_MAX"
    by (simp_all add: separate_listeners_def slow_receiver_def toy_receiver_def INT_MAX_def)
  have len: "length (packet_bytes kImu 1 2 []) \<le> kMaxUdpPayloadSize"
    by (simp add: kMaxUdpPayloadSize_def)
  have queue: "socket_queue (m_world toy_machine) 4 = [packet_bytes kImu 1 2 [], [1, 2, 3]]"
    using len by (simp add: socket_queue_def toy_machine_def kMaxUdpPayloadSize_def)
  have wait: "waiting socket_queue slow_receiver toy_machine = 2"
    by (simp add: waiting_def listening_def slow_receiver_def toy_receiver_def queue)
  then have "waiting socket_queue slow_receiver toy_machine \<le> 2" by simp
  from polls_drain [OF queue_os_queues sep this] obtain ps r' t where
    "polls queue_os 2 slow_receiver 10 toy_machine = ((Inr ps, r'), t)"
    "\<forall>l \<in> set (er_listeners slow_receiver). socket_queue (m_world t) (ln_socket l) = []
       \<and> map rp_packet (filter (\<lambda>p. rp_listener p = ln_local_endpoint l) ps)
         = decoded (socket_queue (m_world toy_machine) (ln_socket l))"
    "rx_datagrams_received (er_metrics r') = rx_datagrams_received (er_metrics slow_receiver) + of_nat 2"
    unfolding wait by blast
  then show ?thesis using queue
    by (intro exI [of _ ps] exI [of _ r'] exI [of _ t])
      (simp add: slow_receiver_def toy_receiver_def zero_receiver_metrics_def)
qed

end
