(* ===== verification/Spec2Isabelle.thy ===== *)
theory Spec2Isabelle
  imports Udp_Tools_Run Runtime_App_Run Simulator_App_Run Pipeline_Start Processor_Threads
    Descriptor_Handle Epoll_Drain
begin

text \<open>
  Verification of DriveFlow Runtime.

  The program. DriveFlow receives sensor samples (inertial, GNSS, camera metadata) as UDP datagrams,
  checks and decodes them, tracks every source, and hands the samples to a user handler from a pool of
  workers; a simulator produces such datagrams, with faults on demand. A sample is encoded as a payload
  (\<open>sensor_payload.cpp\<close>), framed with a header and a checksum (\<open>packet.cpp\<close>), sent over a socket
  (\<open>udp_socket.cpp\<close>), received and decoded by the epoll receiver (\<open>epoll_receiver.cpp\<close>), observed by the
  stream tracker inside the health monitor (\<open>sensor_stream_tracker.cpp\<close>, \<open>source_health_monitor.cpp\<close>),
  queued in the worker pipeline (\<open>worker_pipeline.cpp\<close>), and decoded by the sample processor
  (\<open>sensor_sample_processor.cpp\<close>). \<open>runtime.cpp\<close> composes the receiving side, \<open>runtime_config.cpp\<close> parses
  its command line; \<open>sensor_simulator.cpp\<close> is the sending side. Four programs under \<open>apps\<close> are built from
  these parts. All paths are under \<open>src/\<close>.

  Conventions. Structs are records whose fields carry a prefix (named at the head of each theory);
  enumerations that the code casts into are datatypes over the raw integer, the others datatypes.
  \<open>std::uint*_t\<close> are words, so \<open>+\<close> wraps as in the source; durations are \<open>int\<close> or a signed reading of
  a word; \<open>float\<close> and \<open>double\<close> are their IEEE-754 bit patterns. A function that can throw returns an
  exception or a value; undefined behaviour of the source (an access outside a span, a remainder by
  zero, a conversion or a time sum out of range) is the exception \<open>Out_of_bounds\<close>, so its absence is a
  theorem. System calls, \<open>inet_pton\<close>, \<open>inet_ntop\<close>, the clock and sleeping are parameters
  (\<open>Os_Io.os\<close>, \<open>Simulator.host\<close>) over an unknown world; the user's handler and stop predicates are
  parameters too.

  Theories and code.

  \<^item> \<open>Prelude\<close>, \<open>Codec\<close>, \<open>Keyed_Table\<close>: shared types and lemmas; the contracts (locales) of validating
    codecs and of bounded tables of per-source machines.
  \<^item> \<open>Wire\<close>, \<open>Ieee\<close> (\<open>protocol/wire.hpp\<close>): big-endian words and floats, instances of a read-after-write
    contract. \<open>Crc32\<close>, \<open>Packet\<close> (\<open>protocol/packet.cpp\<close>): the checksum equals the bit-serial register of
    CRC-32/ISO-HDLC; round trip, canonicity, order of the checks, corruption is detected.
    \<open>Sensor_Payload\<close> (\<open>protocol/sensor_payload.cpp\<close>): the same for the typed payloads, and what
    validation accepts.
  \<^item> \<open>Received\<close>, \<open>Stream_Tracker\<close> (\<open>runtime/sensor_stream_tracker.cpp\<close>): the tracker refines a tracker
    over unbounded positions; its metrics and its table. \<open>Health_Monitor\<close>, \<open>Health_History\<close>,
    \<open>Ieee_Arith\<close> (\<open>runtime/source_health_monitor.cpp\<close>): status, counters, rate and recovery as functions
    of the history of a source; rounding of the rate.
  \<^item> \<open>Sample_Processor\<close>, \<open>Worker_Pipeline\<close>: the processor's accounting; the queue, the workers and
    \<open>stop\<close> as an interleaving of critical sections with condition-variable wake-ups: accounting,
    deadlock freedom, termination of \<open>stop\<close> with a drained queue. \<open>Pipeline_Start\<close>: the constructor,
    which starts the workers one by one and cleans up when a thread cannot be started.
    \<open>Processor_Threads\<close>: overlapping calls of \<open>process\<close>, one counter access at a time, are
    linearizable, so the other theories may take a call as one step; \<open>metrics\<close> is a monotonic snapshot.
  \<^item> \<open>Os_Io\<close>, \<open>Udp_Socket\<close>, \<open>Epoll_Receiver\<close> (\<open>net/udp_socket.cpp\<close>, \<open>runtime/epoll_receiver.cpp\<close>): actions
    over the system with the open descriptors tracked: whole datagrams, bounded polls that count every
    datagram they read and return its packet, no leaks.
    \<open>Descriptor_Handle\<close>: moves, assignments and destruction of the two owning classes; programs that
    respect scoping neither use a dead object nor close a descriptor that is not open.
    \<open>Epoll_Drain\<close>: repeated polls deliver every waiting datagram once and in order.
  \<^item> \<open>Decimal\<close>, \<open>Runtime_Config\<close>, \<open>Runtime\<close> (\<open>runtime/runtime_config.cpp\<close>, \<open>runtime/runtime.cpp\<close>): the parser
    against a declarative specification; a run as the interleaving of the main thread with the
    workers: its summary, its packet count, its shutdown, its exceptions.
  \<^item> \<open>Float_Text\<close>, \<open>Simulator_Config\<close>, \<open>Fault_Injector\<close>, \<open>Simulator\<close> (\<open>simulator/sensor_simulator.cpp\<close>):
    parser, checks, fault injector, sending and the run. \<open>Simulator_Period\<close>: the sending period over
    the reals. \<open>Simulator_Run\<close>: what a run sends and counts. \<open>Simulator_Returns\<close>: runs return.
    \<open>Simulator_Host\<close>: a host to evaluate runs on.
  \<^item> \<open>End_To_End\<close>: the codecs composed, and a simulated packet followed to the user's handler.
  \<^item> \<open>Stream_Text\<close>, \<open>Console\<close>: what output streams write for integers and floating point values; a
    process with its console, exceptions and exit codes, and rules for outcomes and leaks.
    \<open>Udp_Tools\<close>, \<open>Udp_Tools_Run\<close> (\<open>apps/udp_sender_main.cpp\<close>, \<open>apps/udp_receiver_main.cpp\<close>): both tools,
    what each exit code means, and what the receiver prints of the sender's datagram. \<open>Runtime_App\<close>, \<open>Runtime_App_Run\<close>
    (\<open>apps/runtime_main.cpp\<close>): the runtime application over all interleavings of its run:
    its output and exit code for everything that can happen.
    \<open>Simulator_App\<close>, \<open>Simulator_App_Run\<close> (\<open>apps/sensor_simulator_main.cpp\<close>): the simulator
    application, and how it ends.

  Fuel and bounds. The loops of the simulator wait for the clock and for the stop predicate, so they
  take fuel (one amount for the rounds and for the polls of each wait); \<open>simulator_returns\<close> shows that on
  a steady clock every large enough amount gives the same result. All other loops are structural.
  Step relations (\<open>pipeline_step\<close>, \<open>build_step\<close>, \<open>runtime_step\<close>) have executable counterparts, used to evaluate runs;
  the number of steps to a shutdown is bounded by an explicit measure.

  Assumptions. \<open>descriptors_valid\<close>: \<open>socket\<close> and \<open>epoll_create1\<close> return non-negative descriptors.
  \<open>steady\<close>: the clock never goes back and sleeping until a time does not end before it.
  \<open>records_sends\<close>: \<open>sent\<close> observes exactly the datagrams \<open>sendto\<close> reports as sent.
  \<open>records_receives\<close> (for one part of \<open>poll_accounts\<close>): \<open>got\<close> observes exactly the datagrams \<open>recvmsg\<close>
  hands over; every kernel can be extended with such a log (\<open>recording\<close>).
  \<open>queueing_kernel\<close> (for \<open>Epoll_Drain\<close> only): sockets have queues of datagrams, and \<open>epoll\<close> is
  level-triggered. Each is shown of a
  concrete system by a witness.

  Not modelled. Memory exhaustion (\<open>std::bad_alloc\<close>, \<open>std::length_error\<close> of containers; only the
  \<open>reserve\<close> of the worker vector may fail), failure of console output, the text of an error number (a parameter), and
  weaker orders than interleaving for the relaxed atomics of the sample processor. Failure to start a thread is modelled for the pipeline
  alone: the runs of \<open>Runtime\<close> begin with a constructed pipeline. A signal is a change of the world the stop predicate reads.
  Tests and build files are not code of the program.
\<close>

end
